(* ===== verification/Prelude.thy ===== *)
theory Prelude
  imports Main "HOL-Library.Word"
begin

text \<open>
  Shared vocabulary of the development: the C integer types of the target, the lemma collections the
  component theories fill, byte strings in network order, memory areas as byte lists with a
  bounds-checked write, and generic facts on lists, words and modular arithmetic.

  The target is the MSP430 port of the repository (\<open>arch/baremetal\<close>, \<open>include/csp/autoconfig.h\<close>,
  \<open>drivers/usart/usart_kiss.c\<close>): \<open>unsigned int\<close> has 16 bits, \<open>size_t\<close> is wider than \<open>unsigned int\<close>,
  and memory is little endian, so \<open>htobe32\<close> and its relatives reverse the bytes of the host order.
\<close>

unbundle bit_operations_syntax

type_synonym u8 = "8 word"
type_synonym u16 = "16 word"
type_synonym u32 = "32 word"
type_synonym u64 = "64 word"
type_synonym c_uint = "16 word"

text \<open>
  \<open>queue_simps\<close>: laws of the queues. \<open>frame_simps\<close>: a component operation leaves the fields of the
  other components alone. \<open>layout_simps\<close>: offsets and lengths of the packet memory.
\<close>

named_theorems queue_simps
named_theorems frame_simps
named_theorems layout_simps

section \<open>Modular indices\<close>

lemma mod_add_inj:
  fixes t a b n :: nat
  assumes "a < n" and "b < n" and "(t + a) mod n = (t + b) mod n"
  shows "a = b"
proof (rule ccontr)
  assume ne: "a \<noteq> b"
  have *: False if lt: "x < y" and y: "y < n" and eq: "(t + x) mod n = (t + y) mod n" for x y
  proof -
    have "n dvd (t + y) - (t + x)"
      using eq lt by (metis mod_eq_dvd_iff_nat add_le_cancel_left less_imp_le)
    then have "n dvd y - x" by simp
    moreover have "0 < y - x" and "y - x < n" using lt y by auto
    ultimately show False using nat_dvd_not_less by blast
  qed
  show False
  proof (cases "a < b")
    case True
    then show False using * [of a b] assms by blast
  next
    case False
    then have "b < a" using ne by simp
    then show False using * [of b a] assms by simp
  qed
qed

lemma mod_Suc_if: "Suc h \<le> n \<Longrightarrow> Suc h mod n = (if Suc h = n then 0 else Suc h)"
  by auto

section \<open>Memory areas\<close>

text \<open>
  An area of memory is a byte list. A write that would leave the area is \<open>None\<close>: the C code has no
  such check, so every theorem that a write succeeds is a statement of memory safety.
\<close>

definition mem_write :: "u8 list \<Rightarrow> nat \<Rightarrow> u8 list \<Rightarrow> u8 list option" where
  "mem_write m off bs =
     (if off + length bs \<le> length m then Some (take off m @ bs @ drop (off + length bs) m) else None)"

definition mem_put :: "u8 list \<Rightarrow> nat \<Rightarrow> u8 list \<Rightarrow> u8 list" where
  "mem_put m off bs = take off m @ bs @ drop (off + length bs) m"

definition mem_read :: "u8 list \<Rightarrow> nat \<Rightarrow> nat \<Rightarrow> u8 list" where
  "mem_read m off n = take n (drop off m)"

lemma mem_write_put: "off + length bs \<le> length m \<Longrightarrow> mem_write m off bs = Some (mem_put m off bs)"
  by (simp add: mem_write_def mem_put_def)

lemma length_mem_put [simp]: "off + length bs \<le> length m \<Longrightarrow> length (mem_put m off bs) = length m"
  by (simp add: mem_put_def)

lemma length_mem_read [simp]: "off + n \<le> length m \<Longrightarrow> length (mem_read m off n) = n"
  by (simp add: mem_read_def)

lemma mem_read_0 [simp]: "mem_read m off 0 = []"
  by (simp add: mem_read_def)

lemma mem_read_put_same:
  "off + length bs \<le> length m \<Longrightarrow> mem_read (mem_put m off bs) off (length bs) = bs"
  by (simp add: mem_read_def mem_put_def)

lemma mem_read_put_before:
  assumes "o2 + n \<le> off" and "off \<le> length m"
  shows "mem_read (mem_put m off bs) o2 n = mem_read m o2 n"
proof -
  have "take n (drop o2 (take off m)) = take n (drop o2 m)"
    using assms by (simp add: drop_take min_def)
  then show ?thesis using assms by (simp add: mem_read_def mem_put_def)
qed

lemma mem_read_put_after:
  assumes "off + length bs \<le> o2" and "off + length bs \<le> length m"
  shows "mem_read (mem_put m off bs) o2 n = mem_read m o2 n"
proof -
  from assms(1) obtain k where o2: "o2 = off + length bs + k" using le_Suc_ex by blast
  show ?thesis using assms(2) by (simp add: o2 mem_read_def mem_put_def ac_simps)
qed

lemma mem_read_append: "mem_read m off (a + b) = mem_read m off a @ mem_read m (off + a) b"
  by (simp add: mem_read_def take_add ac_simps)

lemma mem_read_mem_read: "a + b \<le> n \<Longrightarrow> mem_read (mem_read m off n) a b = mem_read m (off + a) b"
  by (simp add: mem_read_def drop_take min_def ac_simps)

section \<open>Network byte order\<close>

text \<open>
  \<open>htobe32\<close> followed by \<open>memcpy\<close> stores the most significant byte first; \<open>memcpy\<close> followed by
  \<open>be32toh\<close> reads it back. Byte \<open>k\<close> of the value, counted from the least significant one, is
  \<open>(x >> 8 * k) & 0xff\<close>.
\<close>

definition byte_of :: "'a::len word \<Rightarrow> nat \<Rightarrow> u8" where
  "byte_of x k = ucast (drop_bit (8 * k) x)"

definition be_bytes :: "nat \<Rightarrow> 'a::len word \<Rightarrow> u8 list" where
  "be_bytes n x = rev (map (byte_of x) [0..<n])"

definition le_bytes :: "nat \<Rightarrow> 'a::len word \<Rightarrow> u8 list" where
  "le_bytes n x = map (byte_of x) [0..<n]"

primrec le_value :: "u8 list \<Rightarrow> 'a::len word" where
  "le_value [] = 0"
| "le_value (b # bs) = ucast b OR push_bit 8 (le_value bs)"

definition be_value :: "u8 list \<Rightarrow> 'a::len word" where
  "be_value bs = le_value (rev bs)"

lemma length_be_bytes [simp]: "length (be_bytes n x) = n"
  by (simp add: be_bytes_def)

lemma length_le_bytes [simp]: "length (le_bytes n x) = n"
  by (simp add: le_bytes_def)

lemma bit_byte_of: "bit (byte_of x k) i \<longleftrightarrow> i < 8 \<and> bit x (8 * k + i)"
  by (auto simp: byte_of_def bit_ucast_iff bit_drop_bit_eq ac_simps)

lemma bit_le_value:
  "bit (le_value bs :: 'a::len word) i \<longleftrightarrow>
     i < LENGTH('a) \<and> i div 8 < length bs \<and> bit (bs ! (i div 8)) (i mod 8)"
proof (induction bs arbitrary: i)
  case Nil
  then show ?case by simp
next
  case (Cons b bs)
  show ?case
  proof (cases "i < 8")
    case True
    then show ?thesis
      by (auto simp: bit_or_iff bit_ucast_iff bit_push_bit_iff dest: bit_imp_le_length)
  next
    case False
    then have i: "i div 8 = Suc ((i - 8) div 8)" and m: "i mod 8 = (i - 8) mod 8"
      by (simp_all add: le_div_geq le_mod_geq)
    have b: "\<not> bit b i" using False by (auto dest: bit_imp_le_length)
    show ?thesis using False b
      by (auto simp: bit_or_iff bit_ucast_iff bit_push_bit_iff Cons.IH i m dest: bit_imp_le_length)
  qed
qed

lemma le_value_le_bytes:
  fixes x :: "'a::len word"
  assumes "\<And>i. bit x i \<Longrightarrow> i < 8 * n"
  shows "le_value (le_bytes n x) = x"
proof (rule bit_word_eqI)
  fix i assume i: "i < LENGTH('a)"
  have d: "8 * (i div 8) + i mod 8 = i" by simp
  have lt: "i div 8 < n" if "bit x i" using assms [OF that] by simp
  have nth: "bit (map (byte_of x) [0..<n] ! (i div 8)) (i mod 8) = bit x i" if "i div 8 < n"
    using that by (simp add: bit_byte_of d)
  show "bit (le_value (le_bytes n x) :: 'a word) i = bit x i"
    using i lt nth by (auto simp: bit_le_value le_bytes_def)
qed

lemma be_value_be_bytes:
  fixes x :: "'a::len word"
  assumes "\<And>i. bit x i \<Longrightarrow> i < 8 * n"
  shows "be_value (be_bytes n x) = x"
  using le_value_le_bytes [OF assms] by (simp add: be_value_def be_bytes_def le_bytes_def)

lemma be_value_be_bytes_32 [simp]: "be_value (be_bytes 4 (x :: u32)) = x"
  by (rule be_value_be_bytes) (auto dest: bit_imp_le_length)

lemma le_bytes_le_value:
  assumes n: "length bs = n" and w: "8 * n \<le> LENGTH('a::len)"
  shows "le_bytes n (le_value bs :: 'a word) = bs"
proof (rule nth_equalityI)
  show "length (le_bytes n (le_value bs :: 'a word)) = length bs" using n by simp
next
  fix k assume "k < length (le_bytes n (le_value bs :: 'a word))"
  then have k: "k < n" by simp
  show "le_bytes n (le_value bs :: 'a word) ! k = bs ! k"
  proof (rule bit_word_eqI)
    fix i assume i: "i < LENGTH(8)"
    have "8 * k + i < LENGTH('a)" using k i w by simp
    moreover have "(8 * k + i) div 8 = k" and "(8 * k + i) mod 8 = i" using i by simp_all
    ultimately show "bit (le_bytes n (le_value bs :: 'a word) ! k) i = bit (bs ! k) i"
      using k i n by (simp add: le_bytes_def bit_byte_of bit_le_value)
  qed
qed

lemma be_bytes_be_value:
  assumes n: "length bs = n" and w: "8 * n \<le> LENGTH('a::len)"
  shows "be_bytes n (be_value bs :: 'a word) = bs"
proof -
  have "le_bytes n (le_value (rev bs) :: 'a word) = rev bs"
    using n w by (intro le_bytes_le_value) simp_all
  then have "rev (map (byte_of (le_value (rev bs) :: 'a word)) [0..<n]) = bs"
    by (simp add: le_bytes_def)
  then show ?thesis by (simp add: be_bytes_def be_value_def)
qed

lemma be_bytes_inject_32 [simp]: "be_bytes 4 (x :: u32) = be_bytes 4 y \<longleftrightarrow> x = y"
  by (metis be_value_be_bytes_32)

end
