(* ===== verification/Types.thy ===== *)
theory Types
  imports Prelude
begin

text \<open>
  The data of the library: identifiers, packets and interfaces (\<open>include/csp/csp_types.h\<close>,
  \<open>include/csp/csp_interface.h\<close>), error codes and header flags, and the debug counters
  (\<open>src/csp_debug.c\<close>).

  The packet memory. A \<open>csp_packet_t\<close> ends in \<open>header[8]\<close> followed by \<open>data[256]\<close>; code writes frames
  that begin in \<open>header\<close> and continue in \<open>data\<close>, so both are one \<open>area\<close> of 264 bytes in which \<open>data\<close>
  starts at offset 8. \<open>frame_begin\<close> is a pointer: \<open>Own off\<close> points into the packet's own area,
  \<open>Alias b off\<close> into the area of pool buffer \<open>b\<close> (\<open>memcpy\<close> of a whole packet copies the pointer).
  A pointer to a pool buffer or to an interface is a natural number, NULL is \<open>None\<close>.
\<close>

section \<open>Error codes and flags\<close>

definition CSP_ERR_NONE :: int where "CSP_ERR_NONE = 0"
definition CSP_ERR_NOMEM :: int where "CSP_ERR_NOMEM = -1"
definition CSP_ERR_INVAL :: int where "CSP_ERR_INVAL = -2"
definition CSP_ERR_TIMEDOUT :: int where "CSP_ERR_TIMEDOUT = -3"
definition CSP_ERR_USED :: int where "CSP_ERR_USED = -4"
definition CSP_ERR_NOTSUP :: int where "CSP_ERR_NOTSUP = -5"
definition CSP_ERR_ALREADY :: int where "CSP_ERR_ALREADY = -7"
definition CSP_ERR_TX :: int where "CSP_ERR_TX = -10"
definition CSP_ERR_HMAC :: int where "CSP_ERR_HMAC = -100"
definition CSP_ERR_CRC32 :: int where "CSP_ERR_CRC32 = -102"
definition CSP_ERR_SFP :: int where "CSP_ERR_SFP = -103"

lemmas csp_err_defs = CSP_ERR_NONE_def CSP_ERR_NOMEM_def CSP_ERR_INVAL_def CSP_ERR_TIMEDOUT_def
  CSP_ERR_USED_def CSP_ERR_NOTSUP_def CSP_ERR_ALREADY_def CSP_ERR_TX_def CSP_ERR_HMAC_def
  CSP_ERR_CRC32_def CSP_ERR_SFP_def

lemma csp_err_neq [simp]:
  "CSP_ERR_CRC32 \<noteq> CSP_ERR_NONE" "CSP_ERR_NOMEM \<noteq> CSP_ERR_NONE" "CSP_ERR_INVAL \<noteq> CSP_ERR_NONE"
  "CSP_ERR_HMAC \<noteq> CSP_ERR_NONE" "CSP_ERR_NOTSUP \<noteq> CSP_ERR_NONE" "CSP_ERR_TIMEDOUT \<noteq> CSP_ERR_NONE"
  "CSP_ERR_TX \<noteq> CSP_ERR_NONE" "CSP_ERR_SFP \<noteq> CSP_ERR_NONE" "CSP_ERR_USED \<noteq> CSP_ERR_NONE"
  "CSP_ERR_ALREADY \<noteq> CSP_ERR_NONE"
  by (simp_all add: csp_err_defs)

abbreviation (input) CSP_FFRAG :: u8 where "CSP_FFRAG \<equiv> 0x10"
abbreviation (input) CSP_FHMAC :: u8 where "CSP_FHMAC \<equiv> 0x08"
abbreviation (input) CSP_FRDP :: u8 where "CSP_FRDP \<equiv> 0x02"
abbreviation (input) CSP_FCRC32 :: u8 where "CSP_FCRC32 \<equiv> 0x01"

abbreviation (input) CSP_SO_NONE :: u32 where "CSP_SO_NONE \<equiv> 0"
abbreviation (input) CSP_SO_RDPREQ :: u32 where "CSP_SO_RDPREQ \<equiv> 0x0001"
abbreviation (input) CSP_SO_HMACREQ :: u32 where "CSP_SO_HMACREQ \<equiv> 0x0004"
abbreviation (input) CSP_SO_CRC32REQ :: u32 where "CSP_SO_CRC32REQ \<equiv> 0x0040"
abbreviation (input) CSP_SO_CRC32PROHIB :: u32 where "CSP_SO_CRC32PROHIB \<equiv> 0x0080"
abbreviation (input) CSP_SO_CONN_LESS :: u32 where "CSP_SO_CONN_LESS \<equiv> 0x0100"
abbreviation (input) CSP_SO_SAME :: u32 where "CSP_SO_SAME \<equiv> 0x8000"

text \<open>The ports of the services and the priority their client calls use.\<close>

abbreviation (input) CSP_CMP :: u8 where "CSP_CMP \<equiv> 0"
abbreviation (input) CSP_PING :: u8 where "CSP_PING \<equiv> 1"
abbreviation (input) CSP_PS :: u8 where "CSP_PS \<equiv> 2"
abbreviation (input) CSP_MEMFREE :: u8 where "CSP_MEMFREE \<equiv> 3"
abbreviation (input) CSP_REBOOT :: u8 where "CSP_REBOOT \<equiv> 4"
abbreviation (input) CSP_BUF_FREE :: u8 where "CSP_BUF_FREE \<equiv> 5"
abbreviation (input) CSP_UPTIME :: u8 where "CSP_UPTIME \<equiv> 6"
abbreviation (input) CSP_PRIO_NORM :: u8 where "CSP_PRIO_NORM \<equiv> 2"

abbreviation (input) CSP_NO_VIA_ADDRESS :: u16 where "CSP_NO_VIA_ADDRESS \<equiv> 0xFFFF"

text \<open>Build configuration (\<open>include/csp/autoconfig.h\<close>).\<close>

abbreviation (input) CSP_QFIFO_LEN :: nat where "CSP_QFIFO_LEN \<equiv> 16"
abbreviation (input) CSP_PORT_MAX_BIND :: nat where "CSP_PORT_MAX_BIND \<equiv> 32"
abbreviation (input) CSP_CONN_RXQUEUE_LEN :: nat where "CSP_CONN_RXQUEUE_LEN \<equiv> 4"
abbreviation (input) CSP_CONN_MAX :: nat where "CSP_CONN_MAX \<equiv> 1"
abbreviation (input) CSP_BUFFER_SIZE :: nat where "CSP_BUFFER_SIZE \<equiv> 256"
abbreviation (input) CSP_BUFFER_COUNT :: nat where "CSP_BUFFER_COUNT \<equiv> 8"
abbreviation (input) CSP_RTABLE_SIZE :: nat where "CSP_RTABLE_SIZE \<equiv> 4"
abbreviation (input) CSP_PACKET_PADDING_BYTES :: nat where "CSP_PACKET_PADDING_BYTES \<equiv> 8"

section \<open>Identifiers and packets\<close>

record csp_id =
  pri :: u8
  flags :: u8
  src :: u16
  dst :: u16
  dport :: u8
  sport :: u8

datatype frame_ptr = Own nat | Alias nat nat

record csp_packet =
  timestamp_tx :: u32
  conn_ptr :: "nat option"
  rx_count :: u16
  remain :: u16
  cfpid :: u32
  last_used :: u32
  frame_begin :: frame_ptr
  frame_length :: u16
  p_length :: u16
  p_id :: csp_id
  next_ptr :: "nat option"
  area :: "u8 list"

definition csp_id_zero :: csp_id where
  "csp_id_zero = \<lparr>pri = 0, flags = 0, src = 0, dst = 0, dport = 0, sport = 0\<rparr>"

text \<open>\<open>csp_id_copy\<close> and \<open>csp_id_clear\<close> of \<open>csp_io.c\<close> assign field by field.\<close>

definition csp_id_copy :: "csp_id \<Rightarrow> csp_id \<Rightarrow> csp_id" where
  "csp_id_copy target source =
     target\<lparr>pri := pri source, dst := dst source, src := src source, dport := dport source,
            sport := sport source, flags := flags source\<rparr>"

definition csp_id_clear :: "csp_id \<Rightarrow> csp_id" where
  "csp_id_clear target =
     target\<lparr>pri := 0, dst := 0, src := 0, dport := 0, sport := 0, flags := 0\<rparr>"

lemma csp_id_copy_eq [simp]: "csp_id_copy t s = s"
  by (simp add: csp_id_copy_def)

lemma csp_id_clear_eq [simp]: "csp_id_clear t = csp_id_zero"
  by (simp add: csp_id_clear_def csp_id_zero_def)

abbreviation (input) DATA_OFF :: nat where "DATA_OFF \<equiv> CSP_PACKET_PADDING_BYTES"
abbreviation (input) AREA_SIZE :: nat where "AREA_SIZE \<equiv> CSP_PACKET_PADDING_BYTES + CSP_BUFFER_SIZE"

text \<open>The payload: the first \<open>length\<close> bytes of \<open>data\<close>.\<close>

definition payload :: "csp_packet \<Rightarrow> u8 list" where
  "payload p = mem_read (area p) DATA_OFF (unat (p_length p))"

definition packet_ok :: "csp_packet \<Rightarrow> bool" where
  "packet_ok p \<longleftrightarrow> length (area p) = AREA_SIZE \<and> unat (p_length p) \<le> CSP_BUFFER_SIZE"

lemma length_payload [simp]: "packet_ok p \<Longrightarrow> length (payload p) = unat (p_length p)"
  by (simp add: payload_def packet_ok_def)

text \<open>
  Bytes read through \<open>frame_begin\<close>. \<open>None\<close> stands for a read that leaves the packet's own area, which
  no code of the repository performs (it always sets \<open>frame_begin\<close> first).
\<close>

definition frame_read :: "csp_packet \<Rightarrow> nat \<Rightarrow> u8 list option" where
  "frame_read p n =
     (case frame_begin p of
        Own off \<Rightarrow> if off + n \<le> length (area p) then Some (mem_read (area p) off n) else None
      | Alias _ _ \<Rightarrow> None)"

section \<open>Interfaces\<close>

text \<open>
  \<open>nexthop\<close> is a function pointer; the two transmit functions of the repository are \<open>csp_lo_tx\<close> and
  \<open>csp_kiss_tx\<close>, a driver outside it is \<open>NextDriver\<close>. The list link \<open>next\<close> is not a field: the
  interface list is modelled as the sequence of its elements (theory \<open>Iflist\<close>).
\<close>

text \<open>The counter \<open>drop\<close> is \<open>drop_ctr\<close> here: \<open>drop\<close> is a list function.\<close>

datatype nexthop_t = NextLo | NextKiss | NextDriver

record csp_iface =
  addr :: u16
  netmask :: u16
  name :: "string option"
  interface_data :: "nat option"
  driver_data :: "nat option"
  nexthop :: nexthop_t
  is_default :: u8
  tx :: u32
  rx :: u32
  tx_error :: u32
  rx_error :: u32
  drop_ctr :: u32
  autherr :: u32
  frame :: u32
  txbytes :: u32
  rxbytes :: u32
  irq :: u32

section \<open>Global state: configuration, time, debug counters\<close>

text \<open>
  The state of the library is one record, extended by each component with its own variables, so an
  operation of a component applies unchanged to the state of every component built on it.
\<close>

record csp_conf =
  version :: u8
  hostname :: string
  model :: string
  revision :: string
  conn_dfl_so :: u32
  dedup :: u8

definition CSP_DEDUP_OFF :: u8 where "CSP_DEDUP_OFF = 0"
definition CSP_DEDUP_FWD :: u8 where "CSP_DEDUP_FWD = 1"
definition CSP_DEDUP_INCOMING :: u8 where "CSP_DEDUP_INCOMING = 2"
definition CSP_DEDUP_ALL :: u8 where "CSP_DEDUP_ALL = 3"

lemmas csp_dedup_defs = CSP_DEDUP_OFF_def CSP_DEDUP_FWD_def CSP_DEDUP_INCOMING_def CSP_DEDUP_ALL_def

record csp_sys =
  csp_conf :: csp_conf
  ms_from_boot :: u32
  dbg_buffer_out :: u8
  dbg_errno :: u8
  dbg_conn_out :: u8
  dbg_conn_ovf :: u8
  dbg_inval_reply :: u8

definition csp_get_ms :: "('a) csp_sys_scheme \<Rightarrow> u32" where
  "csp_get_ms w = ms_from_boot w"

definition csp_get_s :: "('a) csp_sys_scheme \<Rightarrow> u32" where
  "csp_get_s w = csp_get_ms w div 1000"

definition csp_get_ms_isr :: "('a) csp_sys_scheme \<Rightarrow> u32" where
  "csp_get_ms_isr w = csp_get_ms w"

definition csp_get_s_isr :: "('a) csp_sys_scheme \<Rightarrow> u32" where
  "csp_get_s_isr w = csp_get_s w"

abbreviation (input) CSP_DBG_ERR_CORRUPT_BUFFER :: u8 where "CSP_DBG_ERR_CORRUPT_BUFFER \<equiv> 1"
abbreviation (input) CSP_DBG_ERR_ALREADY_FREE :: u8 where "CSP_DBG_ERR_ALREADY_FREE \<equiv> 3"
abbreviation (input) CSP_DBG_ERR_REFCOUNT :: u8 where "CSP_DBG_ERR_REFCOUNT \<equiv> 4"
abbreviation (input) CSP_DBG_ERR_INVALID_RTABLE_ENTRY :: u8 where "CSP_DBG_ERR_INVALID_RTABLE_ENTRY \<equiv> 6"
abbreviation (input) CSP_DBG_ERR_UNSUPPORTED :: u8 where "CSP_DBG_ERR_UNSUPPORTED \<equiv> 7"
abbreviation (input) CSP_DBG_ERR_INVALID_BIND_PORT :: u8 where "CSP_DBG_ERR_INVALID_BIND_PORT \<equiv> 8"
abbreviation (input) CSP_DBG_ERR_PORT_ALREADY_IN_USE :: u8 where "CSP_DBG_ERR_PORT_ALREADY_IN_USE \<equiv> 9"
abbreviation (input) CSP_DBG_ERR_ALREADY_CLOSED :: u8 where "CSP_DBG_ERR_ALREADY_CLOSED \<equiv> 10"
abbreviation (input) CSP_DBG_ERR_INVALID_POINTER :: u8 where "CSP_DBG_ERR_INVALID_POINTER \<equiv> 11"
abbreviation (input) CSP_DBG_ERR_CLOCK_SET_FAIL :: u8 where "CSP_DBG_ERR_CLOCK_SET_FAIL \<equiv> 12"

end
