(* ===== verification/Csp_Id.thy ===== *)
theory Csp_Id
  imports Types
begin

text \<open>
  The CSP header, versions 1 and 2 (\<open>src/csp_id.c\<close>): packing the identifier into the bytes before the
  data, parsing it back, and the address arithmetic of a version. Versions are dispatched at run time
  on \<open>csp_conf.version\<close>, which is the argument \<open>v\<close>.
\<close>

section \<open>Version 1: 32 bits\<close>

text \<open>The constants have the type that their use gives them.\<close>

abbreviation (input) CSP_ID1_HOST_SIZE :: "'a :: numeral" where "CSP_ID1_HOST_SIZE \<equiv> 5"
abbreviation (input) CSP_ID1_PORT_SIZE :: nat where "CSP_ID1_PORT_SIZE \<equiv> 6"
abbreviation (input) CSP_ID1_PRIO_MASK :: u32 where "CSP_ID1_PRIO_MASK \<equiv> 0x3"
abbreviation (input) CSP_ID1_PRIO_OFFSET :: nat where "CSP_ID1_PRIO_OFFSET \<equiv> 30"
abbreviation (input) CSP_ID1_SRC_MASK :: u32 where "CSP_ID1_SRC_MASK \<equiv> 0x1F"
abbreviation (input) CSP_ID1_SRC_OFFSET :: nat where "CSP_ID1_SRC_OFFSET \<equiv> 25"
abbreviation (input) CSP_ID1_DST_MASK :: u32 where "CSP_ID1_DST_MASK \<equiv> 0x1F"
abbreviation (input) CSP_ID1_DST_OFFSET :: nat where "CSP_ID1_DST_OFFSET \<equiv> 20"
abbreviation (input) CSP_ID1_DPORT_MASK :: u32 where "CSP_ID1_DPORT_MASK \<equiv> 0x3F"
abbreviation (input) CSP_ID1_DPORT_OFFSET :: nat where "CSP_ID1_DPORT_OFFSET \<equiv> 14"
abbreviation (input) CSP_ID1_SPORT_MASK :: u32 where "CSP_ID1_SPORT_MASK \<equiv> 0x3F"
abbreviation (input) CSP_ID1_SPORT_OFFSET :: nat where "CSP_ID1_SPORT_OFFSET \<equiv> 8"
abbreviation (input) CSP_ID1_FLAGS_MASK :: u32 where "CSP_ID1_FLAGS_MASK \<equiv> 0xFF"
abbreviation (input) CSP_ID1_FLAGS_OFFSET :: nat where "CSP_ID1_FLAGS_OFFSET \<equiv> 0"
abbreviation (input) CSP_ID1_HEADER_SIZE :: "'a :: numeral" where "CSP_ID1_HEADER_SIZE \<equiv> 4"

definition id1_raw :: "csp_id \<Rightarrow> u32" where
  "id1_raw i =
     push_bit CSP_ID1_PRIO_OFFSET (ucast (pri i)) OR push_bit CSP_ID1_DST_OFFSET (ucast (dst i)) OR push_bit CSP_ID1_SRC_OFFSET (ucast (src i)) OR
     push_bit CSP_ID1_DPORT_OFFSET (ucast (dport i)) OR push_bit CSP_ID1_SPORT_OFFSET (ucast (sport i)) OR push_bit CSP_ID1_FLAGS_OFFSET (ucast (flags i))"

definition id1_parse :: "u32 \<Rightarrow> csp_id" where
  "id1_parse x =
     \<lparr>pri = ucast (drop_bit CSP_ID1_PRIO_OFFSET x AND CSP_ID1_PRIO_MASK), flags = ucast (drop_bit CSP_ID1_FLAGS_OFFSET x AND CSP_ID1_FLAGS_MASK),
      src = ucast (drop_bit CSP_ID1_SRC_OFFSET x AND CSP_ID1_SRC_MASK), dst = ucast (drop_bit CSP_ID1_DST_OFFSET x AND CSP_ID1_DST_MASK),
      dport = ucast (drop_bit CSP_ID1_DPORT_OFFSET x AND CSP_ID1_DPORT_MASK), sport = ucast (drop_bit CSP_ID1_SPORT_OFFSET x AND CSP_ID1_SPORT_MASK)\<rparr>"

text \<open>
  \<open>cspv1_fixup\<close> stores the word in little-endian order. The frame begins 4 bytes before the data, in
  the header padding.
\<close>

definition csp_id1_prepend :: "bool \<Rightarrow> csp_packet \<Rightarrow> csp_packet" where
  "csp_id1_prepend cspv1_fixup p =
     p\<lparr>frame_begin := Own (DATA_OFF - CSP_ID1_HEADER_SIZE), frame_length := p_length p + CSP_ID1_HEADER_SIZE,
       area := mem_put (area p) (DATA_OFF - CSP_ID1_HEADER_SIZE)
                 (if cspv1_fixup then le_bytes 4 (id1_raw (p_id p)) else be_bytes 4 (id1_raw (p_id p)))\<rparr>"

definition csp_id1_strip :: "bool \<Rightarrow> csp_packet \<Rightarrow> (int \<times> csp_packet) option" where
  "csp_id1_strip cspv1_fixup p =
     (if frame_length p < CSP_ID1_HEADER_SIZE then Some (-1, p)
      else (case frame_read p CSP_ID1_HEADER_SIZE of
              None \<Rightarrow> None
            | Some bs \<Rightarrow>
                let id1 = (if cspv1_fixup then le_value bs else be_value bs)
                in Some (0, p\<lparr>p_length := frame_length p - CSP_ID1_HEADER_SIZE, p_id := id1_parse id1\<rparr>)))"

definition csp_id1_setup_rx :: "csp_packet \<Rightarrow> csp_packet" where
  "csp_id1_setup_rx p = p\<lparr>frame_begin := Own (DATA_OFF - CSP_ID1_HEADER_SIZE), frame_length := 0\<rparr>"

section \<open>Version 2: 48 bits\<close>

abbreviation (input) CSP_ID2_HOST_SIZE :: "'a :: numeral" where "CSP_ID2_HOST_SIZE \<equiv> 14"
abbreviation (input) CSP_ID2_PORT_SIZE :: nat where "CSP_ID2_PORT_SIZE \<equiv> 6"
abbreviation (input) CSP_ID2_PRIO_MASK :: u64 where "CSP_ID2_PRIO_MASK \<equiv> 0x3"
abbreviation (input) CSP_ID2_PRIO_OFFSET :: nat where "CSP_ID2_PRIO_OFFSET \<equiv> 46"
abbreviation (input) CSP_ID2_DST_MASK :: u64 where "CSP_ID2_DST_MASK \<equiv> 0x3FFF"
abbreviation (input) CSP_ID2_DST_OFFSET :: nat where "CSP_ID2_DST_OFFSET \<equiv> 32"
abbreviation (input) CSP_ID2_SRC_MASK :: u64 where "CSP_ID2_SRC_MASK \<equiv> 0x3FFF"
abbreviation (input) CSP_ID2_SRC_OFFSET :: nat where "CSP_ID2_SRC_OFFSET \<equiv> 18"
abbreviation (input) CSP_ID2_DPORT_MASK :: u64 where "CSP_ID2_DPORT_MASK \<equiv> 0x3F"
abbreviation (input) CSP_ID2_DPORT_OFFSET :: nat where "CSP_ID2_DPORT_OFFSET \<equiv> 12"
abbreviation (input) CSP_ID2_SPORT_MASK :: u64 where "CSP_ID2_SPORT_MASK \<equiv> 0x3F"
abbreviation (input) CSP_ID2_SPORT_OFFSET :: nat where "CSP_ID2_SPORT_OFFSET \<equiv> 6"
abbreviation (input) CSP_ID2_FLAGS_MASK :: u64 where "CSP_ID2_FLAGS_MASK \<equiv> 0x3F"
abbreviation (input) CSP_ID2_FLAGS_OFFSET :: nat where "CSP_ID2_FLAGS_OFFSET \<equiv> 0"
abbreviation (input) CSP_ID2_HEADER_SIZE :: "'a :: numeral" where "CSP_ID2_HEADER_SIZE \<equiv> 6"

definition id2_raw :: "csp_id \<Rightarrow> u64" where
  "id2_raw i =
     push_bit CSP_ID2_PRIO_OFFSET (ucast (pri i)) OR push_bit CSP_ID2_DST_OFFSET (ucast (dst i)) OR push_bit CSP_ID2_SRC_OFFSET (ucast (src i)) OR
     push_bit CSP_ID2_DPORT_OFFSET (ucast (dport i)) OR push_bit CSP_ID2_SPORT_OFFSET (ucast (sport i)) OR push_bit CSP_ID2_FLAGS_OFFSET (ucast (flags i))"

definition id2_parse :: "u64 \<Rightarrow> csp_id" where
  "id2_parse x =
     \<lparr>pri = ucast (drop_bit CSP_ID2_PRIO_OFFSET x AND CSP_ID2_PRIO_MASK), flags = ucast (drop_bit CSP_ID2_FLAGS_OFFSET x AND CSP_ID2_FLAGS_MASK),
      src = ucast (drop_bit CSP_ID2_SRC_OFFSET x AND CSP_ID2_SRC_MASK), dst = ucast (drop_bit CSP_ID2_DST_OFFSET x AND CSP_ID2_DST_MASK),
      dport = ucast (drop_bit CSP_ID2_DPORT_OFFSET x AND CSP_ID2_DPORT_MASK), sport = ucast (drop_bit CSP_ID2_SPORT_OFFSET x AND CSP_ID2_SPORT_MASK)\<rparr>"

text \<open>The 48 bits are shifted to the top of a 64-bit word; its first 6 bytes in network order are copied.\<close>

definition csp_id2_prepend :: "csp_packet \<Rightarrow> csp_packet" where
  "csp_id2_prepend p =
     p\<lparr>frame_begin := Own (DATA_OFF - CSP_ID2_HEADER_SIZE), frame_length := p_length p + CSP_ID2_HEADER_SIZE,
       area := mem_put (area p) (DATA_OFF - CSP_ID2_HEADER_SIZE) (take CSP_ID2_HEADER_SIZE (be_bytes 8 (push_bit 16 (id2_raw (p_id p)))))\<rparr>"

definition csp_id2_strip :: "csp_packet \<Rightarrow> (int \<times> csp_packet) option" where
  "csp_id2_strip p =
     (if frame_length p < CSP_ID2_HEADER_SIZE then Some (-1, p)
      else (case frame_read p CSP_ID2_HEADER_SIZE of
              None \<Rightarrow> None
            | Some bs \<Rightarrow>
                let id2 = drop_bit 16 (be_value (bs @ [0, 0]))
                in Some (0, p\<lparr>p_length := frame_length p - CSP_ID2_HEADER_SIZE, p_id := id2_parse id2\<rparr>)))"

definition csp_id2_setup_rx :: "csp_packet \<Rightarrow> csp_packet" where
  "csp_id2_setup_rx p = p\<lparr>frame_begin := Own (DATA_OFF - CSP_ID2_HEADER_SIZE), frame_length := 0\<rparr>"

section \<open>Dispatch and address arithmetic\<close>

definition csp_id_prepend :: "u8 \<Rightarrow> csp_packet \<Rightarrow> csp_packet" where
  "csp_id_prepend v p = (if v = 2 then csp_id2_prepend p else csp_id1_prepend False p)"

definition csp_id_strip :: "u8 \<Rightarrow> csp_packet \<Rightarrow> (int \<times> csp_packet) option" where
  "csp_id_strip v p = (if v = 2 then csp_id2_strip p else csp_id1_strip False p)"

definition csp_id_prepend_fixup_cspv1 :: "u8 \<Rightarrow> csp_packet \<Rightarrow> csp_packet" where
  "csp_id_prepend_fixup_cspv1 v p = (if v = 2 then csp_id2_prepend p else csp_id1_prepend True p)"

definition csp_id_strip_fixup_cspv1 :: "u8 \<Rightarrow> csp_packet \<Rightarrow> (int \<times> csp_packet) option" where
  "csp_id_strip_fixup_cspv1 v p = (if v = 2 then csp_id2_strip p else csp_id1_strip True p)"

definition csp_id_setup_rx :: "u8 \<Rightarrow> csp_packet \<Rightarrow> int \<times> csp_packet" where
  "csp_id_setup_rx v p = (if v = 2 then (CSP_ID2_HEADER_SIZE, csp_id2_setup_rx p) else (CSP_ID1_HEADER_SIZE, csp_id1_setup_rx p))"

definition csp_id_get_host_bits :: "u8 \<Rightarrow> c_uint" where
  "csp_id_get_host_bits v = (if v = 2 then CSP_ID2_HOST_SIZE else CSP_ID1_HOST_SIZE)"

definition csp_id_get_max_nodeid :: "u8 \<Rightarrow> c_uint" where
  "csp_id_get_max_nodeid v = (if v = 2 then push_bit CSP_ID2_HOST_SIZE 1 - 1 else push_bit CSP_ID1_HOST_SIZE 1 - 1)"

definition csp_id_get_max_port :: "u8 \<Rightarrow> c_uint" where
  "csp_id_get_max_port v = (if v = 2 then push_bit CSP_ID2_PORT_SIZE 1 - 1 else push_bit CSP_ID1_PORT_SIZE 1 - 1)"

text \<open>
  \<open>1 << n\<close> with \<open>n\<close> the wrapped difference of the host bits and the netmask. A netmask above the host
  bits shifts by more than the width of \<open>int\<close>, which C leaves undefined; the theorems exclude it.
\<close>

definition csp_id_is_broadcast :: "u8 \<Rightarrow> u16 \<Rightarrow> csp_iface \<Rightarrow> bool" where
  "csp_id_is_broadcast v a iface =
     (let hostmask = push_bit (unat (csp_id_get_host_bits v - netmask iface)) 1 - 1 :: u16;
          nmask = push_bit (unat (csp_id_get_host_bits v)) 1 - 1 - hostmask
      in if a AND hostmask = hostmask \<and> a AND nmask = addr iface AND nmask then True
         else a = csp_id_get_max_nodeid v)"

section \<open>The header as bytes\<close>

text \<open>The header size and the header bytes of a version, and the identifiers its fields can hold.\<close>

definition hdr_size :: "u8 \<Rightarrow> nat" where
  "hdr_size v = (if v = 2 then 6 else 4)"

definition id_bytes :: "u8 \<Rightarrow> csp_id \<Rightarrow> u8 list" where
  "id_bytes v i = (if v = 2 then be_bytes 6 (id2_raw i) else be_bytes 4 (id1_raw i))"

definition id_of_bytes :: "u8 \<Rightarrow> u8 list \<Rightarrow> csp_id" where
  "id_of_bytes v bs = (if v = 2 then id2_parse (be_value bs) else id1_parse (be_value bs))"

definition id_fits :: "u8 \<Rightarrow> csp_id \<Rightarrow> bool" where
  "id_fits v i \<longleftrightarrow>
     (if v = 2 then pri i < 4 \<and> dst i < 0x4000 \<and> src i < 0x4000 \<and> dport i < 64 \<and> sport i < 64 \<and> flags i < 64
      else pri i < 4 \<and> dst i < 32 \<and> src i < 32 \<and> dport i < 64 \<and> sport i < 64)"

lemma hdr_size_le: "hdr_size v \<le> 6" "4 \<le> hdr_size v" "0 < hdr_size v"
  by (auto simp: hdr_size_def)

lemma hdr_size_arith [layout_simps, simp]:
  "8 - hdr_size v + hdr_size v = 8" "hdr_size v + (8 - hdr_size v) = 8" "0 < hdr_size v" "hdr_size v \<le> 264"
  by (auto simp: hdr_size_def)

lemma length_id_bytes [simp]: "length (id_bytes v i) = hdr_size v"
  by (simp add: id_bytes_def hdr_size_def)

lemma bit_less_pow:
  fixes x :: "'a::len word"
  assumes lt: "x < 2 ^ n" and b: "bit x i" and n: "n < LENGTH('a)"
  shows "i < n"
proof (rule ccontr)
  assume ge: "\<not> i < n"
  have "uint x < 2 ^ n" using lt n by (simp add: word_2p_lem word_size)
  then have "take_bit n (uint x) = uint x" by (simp add: take_bit_int_eq_self)
  moreover have "bit (uint x) i" using b by (simp add: bit_uint_iff bit_imp_le_length)
  ultimately have "bit (take_bit n (uint x)) i" by simp
  then show False using ge by (simp add: bit_take_bit_iff)
qed

lemmas bit_field_bounds =
  bit_less_pow [where 'a = 8 and n = 2, simplified]
  bit_less_pow [where 'a = 8 and n = 6, simplified]
  bit_less_pow [where 'a = 16 and n = 5, simplified]
  bit_less_pow [where 'a = 16 and n = 14, simplified]

lemma field_masks:
  "(0x3 :: u32) = mask 2" "(0x1F :: u32) = mask 5" "(0x3F :: u32) = mask 6" "(0xFF :: u32) = mask 8"
  "(0x3 :: u64) = mask 2" "(0x3FFF :: u64) = mask 14" "(0x3F :: u64) = mask 6"
  by (simp_all add: mask_eq_exp_minus_1)

lemma id1_parse_raw:
  assumes "id_fits v i" and "v \<noteq> 2"
  shows "id1_parse (id1_raw i) = i"
proof -
  have b: "bit (pri i) k \<Longrightarrow> k < 2" "bit (dst i) k \<Longrightarrow> k < 5" "bit (src i) k \<Longrightarrow> k < 5"
    "bit (dport i) k \<Longrightarrow> k < 6" "bit (sport i) k \<Longrightarrow> k < 6" "bit (flags i) k \<Longrightarrow> k < 8" for k
    using assms by (auto simp: id_fits_def intro: bit_field_bounds dest: bit_imp_le_length)
  note bits = id1_parse_def id1_raw_def bit_simps field_masks
  have "pri (id1_parse (id1_raw i)) = pri i" "flags (id1_parse (id1_raw i)) = flags i"
    "src (id1_parse (id1_raw i)) = src i" "dst (id1_parse (id1_raw i)) = dst i"
    "dport (id1_parse (id1_raw i)) = dport i" "sport (id1_parse (id1_raw i)) = sport i"
    by (rule bit_word_eqI, fastforce simp: bits dest: b)+
  then show ?thesis by simp
qed

lemma id2_parse_raw:
  assumes "id_fits 2 i"
  shows "id2_parse (id2_raw i) = i"
proof -
  have b: "bit (pri i) k \<Longrightarrow> k < 2" "bit (dst i) k \<Longrightarrow> k < 14" "bit (src i) k \<Longrightarrow> k < 14"
    "bit (dport i) k \<Longrightarrow> k < 6" "bit (sport i) k \<Longrightarrow> k < 6" "bit (flags i) k \<Longrightarrow> k < 6" for k
    using assms by (auto simp: id_fits_def intro: bit_field_bounds)
  note bits = id2_parse_def id2_raw_def bit_simps field_masks
  have "pri (id2_parse (id2_raw i)) = pri i" "flags (id2_parse (id2_raw i)) = flags i"
    "src (id2_parse (id2_raw i)) = src i" "dst (id2_parse (id2_raw i)) = dst i"
    "dport (id2_parse (id2_raw i)) = dport i" "sport (id2_parse (id2_raw i)) = sport i"
    by (rule bit_word_eqI, fastforce simp: bits dest: b)+
  then show ?thesis by simp
qed

lemma bit_id1_raw:
  "bit (id1_raw i) k \<longleftrightarrow> k < 32 \<and>
     (30 \<le> k \<and> bit (pri i) (k - 30) \<or> 20 \<le> k \<and> bit (dst i) (k - 20) \<or> 25 \<le> k \<and> bit (src i) (k - 25) \<or>
      14 \<le> k \<and> bit (dport i) (k - 14) \<or> 8 \<le> k \<and> bit (sport i) (k - 8) \<or> bit (flags i) k)"
  by (auto simp: id1_raw_def bit_simps)

lemma id1_raw_parse: "id1_raw (id1_parse x) = x"
proof (rule bit_word_eqI)
  fix k assume "k < LENGTH(32)"
  then have k: "k < 32" by simp
  have p: "bit (pri (id1_parse x)) j = (j < 2 \<and> bit x (j + 30))"
    "bit (dst (id1_parse x)) j = (j < 5 \<and> bit x (j + 20))"
    "bit (src (id1_parse x)) j = (j < 5 \<and> bit x (j + 25))"
    "bit (dport (id1_parse x)) j = (j < 6 \<and> bit x (j + 14))"
    "bit (sport (id1_parse x)) j = (j < 6 \<and> bit x (j + 8))"
    "bit (flags (id1_parse x)) j = (j < 8 \<and> bit x j)" for j
    by (auto simp: id1_parse_def bit_simps field_masks ac_simps)
  consider "k < 8" | "8 \<le> k" "k < 14" | "14 \<le> k" "k < 20" | "20 \<le> k" "k < 25" | "25 \<le> k" "k < 30" | "30 \<le> k"
    by linarith
  then show "bit (id1_raw (id1_parse x)) k = bit x k"
    using k by cases (auto simp: bit_id1_raw p)
qed

lemma bit_id2_raw:
  "bit (id2_raw i) k \<longleftrightarrow> k < 64 \<and>
     (46 \<le> k \<and> bit (pri i) (k - 46) \<or> 32 \<le> k \<and> bit (dst i) (k - 32) \<or> 18 \<le> k \<and> bit (src i) (k - 18) \<or>
      12 \<le> k \<and> bit (dport i) (k - 12) \<or> 6 \<le> k \<and> bit (sport i) (k - 6) \<or> bit (flags i) k)"
  by (auto simp: id2_raw_def bit_simps)

lemma id2_raw_parse:
  assumes x: "\<And>k. bit x k \<Longrightarrow> k < 48"
  shows "id2_raw (id2_parse x) = x"
proof (rule bit_word_eqI)
  fix k assume "k < LENGTH(64)"
  then have k: "k < 64" by simp
  have p: "bit (pri (id2_parse x)) j = (j < 2 \<and> bit x (j + 46))"
    "bit (dst (id2_parse x)) j = (j < 14 \<and> bit x (j + 32))"
    "bit (src (id2_parse x)) j = (j < 14 \<and> bit x (j + 18))"
    "bit (dport (id2_parse x)) j = (j < 6 \<and> bit x (j + 12))"
    "bit (sport (id2_parse x)) j = (j < 6 \<and> bit x (j + 6))"
    "bit (flags (id2_parse x)) j = (j < 6 \<and> bit x j)" for j
    by (auto simp: id2_parse_def bit_simps field_masks ac_simps)
  consider "k < 6" | "6 \<le> k" "k < 12" | "12 \<le> k" "k < 18" | "18 \<le> k" "k < 32" | "32 \<le> k" "k < 46"
    | "46 \<le> k" "k < 48" | "48 \<le> k"
    by linarith
  then show "bit (id2_raw (id2_parse x)) k = bit x k"
    using k by cases (auto simp: bit_id2_raw p dest: x)
qed

lemma id2_raw_bits: "id_fits 2 i \<Longrightarrow> bit (id2_raw i) k \<Longrightarrow> k < 48"
  by (auto simp: bit_id2_raw id_fits_def dest!: bit_field_bounds)

text \<open>The 6 bytes the code copies out of the shifted 64-bit word are the header's low 48 bits.\<close>

lemma id2_store: "take 6 (be_bytes 8 (push_bit 16 (x :: u64))) = be_bytes 6 x"
proof (rule nth_equalityI)
  show "length (take 6 (be_bytes 8 (push_bit 16 x))) = length (be_bytes 6 x)" by simp
next
  fix k assume "k < length (take 6 (be_bytes 8 (push_bit 16 x)))"
  then have k: "k < 6" by simp
  have "byte_of (push_bit 16 x) (7 - k) = byte_of x (5 - k)"
  proof (rule bit_word_eqI)
    fix j assume "j < LENGTH(8)"
    moreover have "8 * (7 - k) + j - 16 = 8 * (5 - k) + j" using k by linarith
    ultimately show "bit (byte_of (push_bit 16 x) (7 - k)) j = bit (byte_of x (5 - k)) j"
      using k by (auto simp: bit_byte_of bit_push_bit_iff dest: bit_imp_le_length)
  qed
  then show "take 6 (be_bytes 8 (push_bit 16 x)) ! k = be_bytes 6 x ! k"
    using k by (simp add: be_bytes_def rev_nth)
qed

lemma id2_load:
  assumes "length bs = 6"
  shows "drop_bit 16 (be_value (bs @ [0, 0]) :: u64) = be_value bs"
proof (rule bit_word_eqI)
  fix k assume "k < LENGTH(64)"
  then have k: "k < 64" by simp
  have d: "(16 + k) div 8 = Suc (Suc (k div 8))" "(16 + k) mod 8 = k mod 8" by presburger+
  show "bit (drop_bit 16 (be_value (bs @ [0, 0]) :: u64)) k = bit (be_value bs :: u64) k"
    using assms k
    by (auto simp: bit_drop_bit_eq be_value_def bit_le_value d simp del: le_value.simps)
qed

lemma be_value_bits: "bit (be_value bs :: u64) k \<Longrightarrow> k < 8 * length bs"
  by (auto simp: be_value_def bit_le_value)

lemma id_of_bytes_id_bytes: "id_fits v i \<Longrightarrow> id_of_bytes v (id_bytes v i) = i"
  by (auto simp: id_of_bytes_def id_bytes_def id1_parse_raw be_value_be_bytes id2_raw_bits id2_parse_raw)

lemma id_bytes_id_of_bytes:
  assumes n: "length bs = hdr_size v"
  shows "id_bytes v (id_of_bytes v bs) = bs"
proof (cases "v = 2")
  case True
  then have l: "length bs = 6" using n by (simp add: hdr_size_def)
  then have "id2_raw (id2_parse (be_value bs)) = be_value bs"
    using be_value_bits [of bs] by (intro id2_raw_parse) simp
  then show ?thesis using True l by (simp add: id_bytes_def id_of_bytes_def be_bytes_be_value)
next
  case False
  then show ?thesis using n
    by (simp add: id_bytes_def id_of_bytes_def hdr_size_def id1_raw_parse be_bytes_be_value)
qed

section \<open>Packing and parsing packets\<close>

lemma csp_id_prepend_eq:
  "csp_id_prepend v p =
     p\<lparr>frame_begin := Own (DATA_OFF - hdr_size v), frame_length := p_length p + of_nat (hdr_size v),
       area := mem_put (area p) (DATA_OFF - hdr_size v) (id_bytes v (p_id p))\<rparr>"
  by (simp add: csp_id_prepend_def csp_id1_prepend_def csp_id2_prepend_def hdr_size_def id_bytes_def id2_store)

lemma csp_id_strip_eq:
  assumes "hdr_size v \<le> unat (frame_length p)" and "frame_begin p = Own off"
    and "off + hdr_size v \<le> length (area p)"
  shows "csp_id_strip v p =
     Some (0, p\<lparr>p_length := frame_length p - of_nat (hdr_size v),
                p_id := id_of_bytes v (mem_read (area p) off (hdr_size v))\<rparr>)"
  using assms
  by (auto simp: csp_id_strip_def csp_id1_strip_def csp_id2_strip_def hdr_size_def id_of_bytes_def
      frame_read_def word_less_nat_alt id2_load Let_def split: if_splits)

lemma csp_id_strip_short:
  "unat (frame_length p) < hdr_size v \<Longrightarrow> csp_id_strip v p = Some (-1, p)"
  by (auto simp: csp_id_strip_def csp_id1_strip_def csp_id2_strip_def hdr_size_def word_less_nat_alt
      split: if_splits)

lemma csp_id_prepend_fields [simp]:
  "p_length (csp_id_prepend v p) = p_length p" "p_id (csp_id_prepend v p) = p_id p"
  "frame_begin (csp_id_prepend v p) = Own (DATA_OFF - hdr_size v)"
  "frame_length (csp_id_prepend v p) = p_length p + of_nat (hdr_size v)"
  by (simp_all add: csp_id_prepend_eq)

lemma area_csp_id_prepend:
  "area (csp_id_prepend v p) = mem_put (area p) (DATA_OFF - hdr_size v) (id_bytes v (p_id p))"
  by (simp add: csp_id_prepend_eq)

lemma packet_ok_prepend [simp]: "packet_ok (csp_id_prepend v p) = packet_ok p"
proof -
  have "length (area (csp_id_prepend v p)) = AREA_SIZE \<longleftrightarrow> length (area p) = AREA_SIZE"
    using hdr_size_le [of v] by (auto simp: area_csp_id_prepend mem_put_def)
  then show ?thesis by (auto simp: packet_ok_def)
qed

lemma payload_prepend [simp]: "packet_ok p \<Longrightarrow> payload (csp_id_prepend v p) = payload p"
  using hdr_size_le [of v]
  by (simp add: payload_def area_csp_id_prepend packet_ok_def mem_read_put_after)

lemma frame_length_prepend:
  "packet_ok p \<Longrightarrow> unat (p_length p + of_nat (hdr_size v)) = unat (p_length p) + hdr_size v"
  by (auto simp: packet_ok_def hdr_size_def unat_word_ariths)

text \<open>The bytes of the frame after prepending: the header, then the payload.\<close>

definition frame_bytes :: "csp_packet \<Rightarrow> u8 list" where
  "frame_bytes p =
     (case frame_begin p of
        Own off \<Rightarrow> mem_read (area p) off (unat (frame_length p))
      | Alias _ _ \<Rightarrow> [])"

lemma frame_bytes_prepend:
  assumes ok: "packet_ok p"
  shows "frame_bytes (csp_id_prepend v p) = id_bytes v (p_id p) @ payload p"
proof -
  have h: "hdr_size v \<le> 6" by (rule hdr_size_le)
  have "mem_read (area (csp_id_prepend v p)) (8 - hdr_size v) (hdr_size v) = id_bytes v (p_id p)"
    using ok h mem_read_put_same [of "8 - hdr_size v" "id_bytes v (p_id p)" "area p"]
    by (simp add: area_csp_id_prepend packet_ok_def)
  moreover have "mem_read (area (csp_id_prepend v p)) 8 (unat (p_length p)) = payload p"
    using payload_prepend [OF ok, of v] by (simp add: payload_def)
  ultimately show ?thesis
    by (simp add: frame_bytes_def frame_length_prepend [OF ok] add.commute [of "unat _"] mem_read_append)
qed

text \<open>Parsing a packed header returns the identifier and the length, on both versions.\<close>

lemma strip_prepend:
  assumes ok: "packet_ok p" and fits: "id_fits v (p_id p)"
  shows "csp_id_strip v (csp_id_prepend v p) = Some (0, csp_id_prepend v p)"
proof -
  have h: "hdr_size v \<le> 6" by (rule hdr_size_le)
  have rd: "mem_read (area (csp_id_prepend v p)) (8 - hdr_size v) (hdr_size v) = id_bytes v (p_id p)"
    using ok h mem_read_put_same [of "8 - hdr_size v" "id_bytes v (p_id p)" "area p"]
    by (simp add: area_csp_id_prepend packet_ok_def)
  have "length (area (csp_id_prepend v p)) = AREA_SIZE"
    using ok packet_ok_prepend [of v p] by (simp add: packet_ok_def)
  then show ?thesis
    using h csp_id_strip_eq [of v "csp_id_prepend v p" "8 - hdr_size v"] id_of_bytes_id_bytes [OF fits]
    by (simp add: frame_length_prepend [OF ok] rd)
qed

text \<open>Packing again what was parsed from the frame position rewrites the same bytes.\<close>

lemma mem_put_read: "off + n \<le> length m \<Longrightarrow> mem_put m off (mem_read m off n) = m"
  by (simp add: mem_put_def mem_read_def) (metis append_take_drop_id drop_drop add.commute)

lemma prepend_strip:
  assumes "csp_id_strip v p = Some (0, q)" and "frame_begin p = Own (DATA_OFF - hdr_size v)"
    and "length (area p) = AREA_SIZE" and "unat (frame_length p) \<le> hdr_size v + CSP_BUFFER_SIZE"
  shows "csp_id_prepend v q = q"
proof -
  have h: "hdr_size v \<le> 6" by (rule hdr_size_le)
  have fl: "hdr_size v \<le> unat (frame_length p)"
    using assms(1) csp_id_strip_short [of p v] by (cases "unat (frame_length p) < hdr_size v") auto
  have q: "q = p\<lparr>p_length := frame_length p - of_nat (hdr_size v),
                p_id := id_of_bytes v (mem_read (area p) (8 - hdr_size v) (hdr_size v))\<rparr>"
    using csp_id_strip_eq [OF fl assms(2)] assms(1,3) h by simp
  have "mem_put (area p) (8 - hdr_size v)
      (id_bytes v (id_of_bytes v (mem_read (area p) (8 - hdr_size v) (hdr_size v)))) = area p"
    using assms(3) h by (simp add: id_bytes_id_of_bytes mem_put_read)
  then show ?thesis using assms(2) by (simp add: csp_id_prepend_eq q)
qed

text \<open>A concrete identifier and packet, for the witnesses.\<close>

definition ex_id :: csp_id where
  "ex_id = \<lparr>pri = 2, flags = 1, src = 5, dst = 9, dport = 12, sport = 33\<rparr>"

definition ex_packet :: csp_packet where
  "ex_packet =
     \<lparr>timestamp_tx = 0, conn_ptr = None, rx_count = 0, remain = 0, cfpid = 0, last_used = 0,
      frame_begin = Own 0, frame_length = 0, p_length = 3, p_id = ex_id, next_ptr = None,
      area = replicate 264 7\<rparr>"

text \<open>
  \<^bold>\<open>Claim C29.\<close> Packing the header and parsing it back gives the identifier, the length and the payload that
  were packed, on both protocol versions, for every identifier whose fields fit the version.
\<close>

theorem id_header_roundtrip:
  assumes "packet_ok p" and "id_fits v (p_id p)"
  shows "\<exists>q. csp_id_strip v (csp_id_prepend v p) = Some (0, q) \<and> p_id q = p_id p \<and> p_length q = p_length p
           \<and> payload q = payload p \<and> frame_bytes q = id_bytes v (p_id p) @ payload p"
  using strip_prepend [OF assms] frame_bytes_prepend [OF assms(1)] assms(1) by simp

text \<open>The round trip on a concrete packet, under version 2 and version 1.\<close>

theorem id_header_roundtrip_witness:
  "\<exists>q. csp_id_strip 2 (csp_id_prepend 2 ex_packet) = Some (0, q) \<and> p_id q = ex_id
     \<and> frame_bytes q = id_bytes 2 ex_id @ [7, 7, 7]"
proof -
  have "payload ex_packet = [7, 7, 7]"
    by (simp add: payload_def mem_read_def ex_packet_def) (simp add: numeral_eq_Suc)
  moreover have "packet_ok ex_packet" "id_fits 2 (p_id ex_packet)" "p_id ex_packet = ex_id"
    by (simp_all add: packet_ok_def ex_packet_def id_fits_def ex_id_def)
  ultimately show ?thesis using id_header_roundtrip [of ex_packet 2] by auto
qed

text \<open>
  Every frame of a received packet parses, unless it is shorter than the header, and packing
  the parsed packet again gives back the very same frame: parsing loses no bit of the header.
\<close>

theorem id_parse_reproduces_frame:
  assumes "frame_begin p = Own (DATA_OFF - hdr_size v)" and "length (area p) = AREA_SIZE"
    and "unat (frame_length p) \<le> hdr_size v + CSP_BUFFER_SIZE"
  shows "if unat (frame_length p) < hdr_size v then csp_id_strip v p = Some (-1, p)
         else \<exists>q. csp_id_strip v p = Some (0, q) \<and> csp_id_prepend v q = q \<and> area q = area p
                \<and> unat (p_length q) = unat (frame_length p) - hdr_size v"
proof (cases "unat (frame_length p) < hdr_size v")
  case True
  then show ?thesis by (simp add: csp_id_strip_short)
next
  case False
  let ?q = "p\<lparr>p_length := frame_length p - of_nat (hdr_size v),
              p_id := id_of_bytes v (mem_read (area p) (8 - hdr_size v) (hdr_size v))\<rparr>"
  have st: "csp_id_strip v p = Some (0, ?q)"
    using False assms(1,2) by (intro csp_id_strip_eq) auto
  have "unat (of_nat (hdr_size v) :: u16) = hdr_size v" by (simp add: hdr_size_def)
  then have "unat (p_length ?q) = unat (frame_length p) - hdr_size v"
    using False by (simp add: unat_sub word_le_nat_alt)
  then show ?thesis using False st prepend_strip [OF st assms] by simp
qed

theorem id_parse_reproduces_frame_witness:
  "\<exists>q. csp_id_strip 1 (ex_packet\<lparr>frame_begin := Own 4, frame_length := 20\<rparr>) = Some (0, q) \<and>
     csp_id_prepend 1 q = q \<and> unat (p_length q) = 16"
  using id_parse_reproduces_frame [of "ex_packet\<lparr>frame_begin := Own 4, frame_length := 20\<rparr>" 1]
  by (auto simp: ex_packet_def hdr_size_def)

end
