(* ===== verification/Csp_Addr.thy ===== *)
theory Csp_Addr
  imports Csp_Id
begin

text \<open>
  The address arithmetic of \<open>src/csp_id.c\<close>: the host part and the network part of an address under an
  interface's netmask, and what \<open>csp_id_is_broadcast\<close> decides of them.
\<close>

section \<open>Broadcast addresses\<close>

lemma push_bit_1_mask: "push_bit n (1 :: 'a::len word) - 1 = mask n"
  by (simp add: mask_eq_exp_minus_1 push_bit_eq_mult)

lemma mask_diff:
  assumes "h \<le> n"
  shows "mask n - mask h = push_bit h (mask (n - h) :: 'a::len word)"
proof -
  obtain k where n: "n = h + k" using assms le_Suc_ex by blast
  show ?thesis by (simp add: n mask_eq_exp_minus_1 push_bit_eq_mult power_add algebra_simps)
qed

lemma and_shifted_mask:
  "(a :: 'a::len word) AND push_bit h (mask m) = b AND push_bit h (mask m)
     \<longleftrightarrow> take_bit m (drop_bit h a) = take_bit m (drop_bit h b)"
proof
  assume eq: "a AND push_bit h (mask m) = b AND push_bit h (mask m)"
  show "take_bit m (drop_bit h a) = take_bit m (drop_bit h b)"
  proof (rule bit_word_eqI)
    fix i assume "i < LENGTH('a)"
    have "bit (a AND push_bit h (mask m)) (h + i) = bit (b AND push_bit h (mask m)) (h + i)"
      using eq by simp
    then show "bit (take_bit m (drop_bit h a)) i = bit (take_bit m (drop_bit h b)) i"
      by (auto simp: bit_simps dest: bit_imp_le_length)
  qed
next
  assume eq: "take_bit m (drop_bit h a) = take_bit m (drop_bit h b)"
  show "a AND push_bit h (mask m) = b AND push_bit h (mask m)"
  proof (rule bit_word_eqI)
    fix i assume "i < LENGTH('a)"
    have "bit (take_bit m (drop_bit h a)) (i - h) = bit (take_bit m (drop_bit h b)) (i - h)"
      using eq by simp
    then show "bit (a AND push_bit h (mask m)) i = bit (b AND push_bit h (mask m)) i"
      by (auto simp: bit_simps)
  qed
qed

lemma unat_net: "unat (take_bit m (drop_bit h (a :: 'a::len word))) = unat a div 2 ^ h mod 2 ^ m"
proof -
  have "unat (take_bit m (drop_bit h a)) = take_bit m (drop_bit h (unat a))"
    by (simp only: unsigned_take_bit_eq unat_drop_bit_eq)
  then show ?thesis by (simp add: take_bit_eq_mod drop_bit_eq_div)
qed

lemma same_net_iff:
  "(a :: u16) AND push_bit h (mask m) = b AND push_bit h (mask m)
     \<longleftrightarrow> unat a div 2 ^ h mod 2 ^ m = unat b div 2 ^ h mod 2 ^ m"
  unfolding and_shifted_mask by (simp add: word_unat_eq_iff unat_net)

definition host_bits :: "u8 \<Rightarrow> nat" where
  "host_bits v = unat (csp_id_get_host_bits v)"

lemma host_bits_cases: "host_bits v = (if v = 2 then 14 else 5)"
  by (simp add: host_bits_def csp_id_get_host_bits_def)

lemma unat_host_minus: "unat m \<le> host_bits v \<Longrightarrow> unat (csp_id_get_host_bits v - m) = host_bits v - unat m"
  by (simp add: host_bits_def unat_sub word_le_nat_alt)

lemma csp_id_get_max_nodeid_mask: "csp_id_get_max_nodeid v = mask (host_bits v)"
  by (simp add: csp_id_get_max_nodeid_def host_bits_cases mask_eq_exp_minus_1)

lemma unat_mask_16: "n \<le> 16 \<Longrightarrow> unat (mask n :: u16) = 2 ^ n - 1"
proof -
  assume n: "n \<le> 16"
  have "uint (mask n :: u16) = mask n" using n by (simp only: uint_mask_eq) (simp add: min_def)
  then have "nat (uint (mask n :: u16)) = nat (mask n)" by (simp only:)
  then show ?thesis by (simp only: nat_uint_eq) (simp add: mask_eq_exp_minus_1 nat_diff_distrib nat_power_eq)
qed

text \<open>The part of an address below the netmask, and the part above it.\<close>

definition host_part :: "nat \<Rightarrow> u16 \<Rightarrow> nat" where
  "host_part h a = unat a mod 2 ^ h"

definition net_part :: "nat \<Rightarrow> u16 \<Rightarrow> nat" where
  "net_part h a = unat a div 2 ^ h"

lemma host_all_ones:
  assumes h: "h \<le> 16"
  shows "(a :: u16) AND mask h = mask h \<longleftrightarrow> host_part h a = 2 ^ h - 1"
proof -
  have t: "unat (take_bit h a) = unat a mod 2 ^ h"
    by (simp only: unsigned_take_bit_eq) (simp add: take_bit_eq_mod)
  have "(a AND mask h = mask h) = (unat (take_bit h a) = unat (mask h :: u16))"
    by (simp only: word_unat_eq_iff take_bit_eq_mask)
  also have "\<dots> \<longleftrightarrow> unat a mod 2 ^ h = 2 ^ h - 1"
    by (simp only: t unat_mask_16 [OF h])
  finally show ?thesis by (simp add: host_part_def)
qed

lemma net_mod: "unat a < 2 ^ n \<Longrightarrow> h \<le> n \<Longrightarrow> unat a div 2 ^ h mod 2 ^ (n - h) = net_part h a"
  unfolding net_part_def
  by (rule mod_less) (simp add: less_mult_imp_div_less flip: power_add)

text \<open>
  \<^bold>\<open>Claim C30.\<close> An address is a broadcast address of an interface exactly when its host part is all ones
  and its network part is the interface's, or when it is the version's highest address.
\<close>

theorem broadcast_characterised:
  assumes m: "unat (netmask i) \<le> host_bits v"
    and a: "unat a < 2 ^ host_bits v" and i: "unat (addr i) < 2 ^ host_bits v"
  shows "csp_id_is_broadcast v a i \<longleftrightarrow>
     (let h = host_bits v - unat (netmask i)
      in host_part h a = 2 ^ h - 1 \<and> net_part h a = net_part h (addr i)) \<or> unat a = 2 ^ host_bits v - 1"
proof -
  define h where "h = host_bits v - unat (netmask i)"
  have hb: "host_bits v \<le> 16" "h \<le> host_bits v" by (simp_all add: h_def host_bits_cases)
  have max: "a = csp_id_get_max_nodeid v \<longleftrightarrow> unat a = 2 ^ host_bits v - 1"
    by (simp only: word_unat_eq_iff csp_id_get_max_nodeid_mask unat_mask_16 [OF hb(1)])
  have net: "a AND (mask (host_bits v) - mask h) = addr i AND (mask (host_bits v) - mask h)
      \<longleftrightarrow> net_part h a = net_part h (addr i)"
    using net_mod [OF a hb(2)] net_mod [OF i hb(2)] by (simp only: mask_diff [OF hb(2)] same_net_iff)
  have "csp_id_is_broadcast v a i \<longleftrightarrow>
      a AND mask h = mask h \<and> a AND (mask (host_bits v) - mask h) = addr i AND (mask (host_bits v) - mask h)
      \<or> a = csp_id_get_max_nodeid v"
    unfolding csp_id_is_broadcast_def Let_def push_bit_1_mask unat_host_minus [OF m] h_def [symmetric]
      host_bits_def [symmetric] by (simp only: if_bool_eq_conj) blast
  then show ?thesis
    using hb by (simp only: max net host_all_ones Let_def h_def [symmetric])
qed

text \<open>Version 2, an interface 0x1234/8: 0x123F is its broadcast address.\<close>

theorem broadcast_characterised_witness:
  "csp_id_is_broadcast 2 0x123F
     \<lparr>addr = 0x1234, netmask = 8, name = None, interface_data = None, driver_data = None, nexthop = NextDriver,
      is_default = 0, tx = 0, rx = 0, tx_error = 0, rx_error = 0, drop_ctr = 0, autherr = 0, frame = 0,
      txbytes = 0, rxbytes = 0, irq = 0\<rparr>"
  by (subst broadcast_characterised) (simp_all add: host_bits_cases host_part_def net_part_def)

end
