(* ===== verification/Crc32.thy ===== *)
theory Crc32
  imports Csp_Id
begin

text \<open>
  CRC-32C checksums (\<open>src/csp_crc32.c\<close>): the table-driven update over a byte string, and appending and
  verifying the checksum of a packet. The table look-up is related to the bitwise definition of the
  reflected polynomial \<open>0x82F63B78\<close> (Castagnoli), and the checksum is shown to detect every change
  of a single byte.
\<close>

section \<open>The checksum\<close>

definition crc_tab :: "u32 list" where
  "crc_tab = [
   0x00000000, 0xF26B8303, 0xE13B70F7, 0x1350F3F4, 0xC79A971F, 0x35F1141C, 0x26A1E7E8, 0xD4CA64EB,
   0x8AD958CF, 0x78B2DBCC, 0x6BE22838, 0x9989AB3B, 0x4D43CFD0, 0xBF284CD3, 0xAC78BF27, 0x5E133C24,
   0x105EC76F, 0xE235446C, 0xF165B798, 0x030E349B, 0xD7C45070, 0x25AFD373, 0x36FF2087, 0xC494A384,
   0x9A879FA0, 0x68EC1CA3, 0x7BBCEF57, 0x89D76C54, 0x5D1D08BF, 0xAF768BBC, 0xBC267848, 0x4E4DFB4B,
   0x20BD8EDE, 0xD2D60DDD, 0xC186FE29, 0x33ED7D2A, 0xE72719C1, 0x154C9AC2, 0x061C6936, 0xF477EA35,
   0xAA64D611, 0x580F5512, 0x4B5FA6E6, 0xB93425E5, 0x6DFE410E, 0x9F95C20D, 0x8CC531F9, 0x7EAEB2FA,
   0x30E349B1, 0xC288CAB2, 0xD1D83946, 0x23B3BA45, 0xF779DEAE, 0x05125DAD, 0x1642AE59, 0xE4292D5A,
   0xBA3A117E, 0x4851927D, 0x5B016189, 0xA96AE28A, 0x7DA08661, 0x8FCB0562, 0x9C9BF696, 0x6EF07595,
   0x417B1DBC, 0xB3109EBF, 0xA0406D4B, 0x522BEE48, 0x86E18AA3, 0x748A09A0, 0x67DAFA54, 0x95B17957,
   0xCBA24573, 0x39C9C670, 0x2A993584, 0xD8F2B687, 0x0C38D26C, 0xFE53516F, 0xED03A29B, 0x1F682198,
   0x5125DAD3, 0xA34E59D0, 0xB01EAA24, 0x42752927, 0x96BF4DCC, 0x64D4CECF, 0x77843D3B, 0x85EFBE38,
   0xDBFC821C, 0x2997011F, 0x3AC7F2EB, 0xC8AC71E8, 0x1C661503, 0xEE0D9600, 0xFD5D65F4, 0x0F36E6F7,
   0x61C69362, 0x93AD1061, 0x80FDE395, 0x72966096, 0xA65C047D, 0x5437877E, 0x4767748A, 0xB50CF789,
   0xEB1FCBAD, 0x197448AE, 0x0A24BB5A, 0xF84F3859, 0x2C855CB2, 0xDEEEDFB1, 0xCDBE2C45, 0x3FD5AF46,
   0x7198540D, 0x83F3D70E, 0x90A324FA, 0x62C8A7F9, 0xB602C312, 0x44694011, 0x5739B3E5, 0xA55230E6,
   0xFB410CC2, 0x092A8FC1, 0x1A7A7C35, 0xE811FF36, 0x3CDB9BDD, 0xCEB018DE, 0xDDE0EB2A, 0x2F8B6829,
   0x82F63B78, 0x709DB87B, 0x63CD4B8F, 0x91A6C88C, 0x456CAC67, 0xB7072F64, 0xA457DC90, 0x563C5F93,
   0x082F63B7, 0xFA44E0B4, 0xE9141340, 0x1B7F9043, 0xCFB5F4A8, 0x3DDE77AB, 0x2E8E845F, 0xDCE5075C,
   0x92A8FC17, 0x60C37F14, 0x73938CE0, 0x81F80FE3, 0x55326B08, 0xA759E80B, 0xB4091BFF, 0x466298FC,
   0x1871A4D8, 0xEA1A27DB, 0xF94AD42F, 0x0B21572C, 0xDFEB33C7, 0x2D80B0C4, 0x3ED04330, 0xCCBBC033,
   0xA24BB5A6, 0x502036A5, 0x4370C551, 0xB11B4652, 0x65D122B9, 0x97BAA1BA, 0x84EA524E, 0x7681D14D,
   0x2892ED69, 0xDAF96E6A, 0xC9A99D9E, 0x3BC21E9D, 0xEF087A76, 0x1D63F975, 0x0E330A81, 0xFC588982,
   0xB21572C9, 0x407EF1CA, 0x532E023E, 0xA145813D, 0x758FE5D6, 0x87E466D5, 0x94B49521, 0x66DF1622,
   0x38CC2A06, 0xCAA7A905, 0xD9F75AF1, 0x2B9CD9F2, 0xFF56BD19, 0x0D3D3E1A, 0x1E6DCDEE, 0xEC064EED,
   0xC38D26C4, 0x31E6A5C7, 0x22B65633, 0xD0DDD530, 0x0417B1DB, 0xF67C32D8, 0xE52CC12C, 0x1747422F,
   0x49547E0B, 0xBB3FFD08, 0xA86F0EFC, 0x5A048DFF, 0x8ECEE914, 0x7CA56A17, 0x6FF599E3, 0x9D9E1AE0,
   0xD3D3E1AB, 0x21B862A8, 0x32E8915C, 0xC083125F, 0x144976B4, 0xE622F5B7, 0xF5720643, 0x07198540,
   0x590AB964, 0xAB613A67, 0xB831C993, 0x4A5A4A90, 0x9E902E7B, 0x6CFBAD78, 0x7FAB5E8C, 0x8DC0DD8F,
   0xE330A81A, 0x115B2B19, 0x020BD8ED, 0xF0605BEE, 0x24AA3F05, 0xD6C1BC06, 0xC5914FF2, 0x37FACCF1,
   0x69E9F0D5, 0x9B8273D6, 0x88D28022, 0x7AB90321, 0xAE7367CA, 0x5C18E4C9, 0x4F48173D, 0xBD23943E,
   0xF36E6F75, 0x0105EC76, 0x12551F82, 0xE03E9C81, 0x34F4F86A, 0xC69F7B69, 0xD5CF889D, 0x27A40B9E,
   0x79B737BA, 0x8BDCB4B9, 0x988C474D, 0x6AE7C44E, 0xBE2DA0A5, 0x4C4623A6, 0x5F16D052, 0xAD7D5351]"

definition crc32_step :: "u32 \<Rightarrow> u8 \<Rightarrow> u32" where
  "crc32_step crc b = crc_tab ! unat ((crc XOR ucast b) AND 0xFF) XOR drop_bit 8 crc"

definition csp_crc32_init :: u32 where
  "csp_crc32_init = 0xFFFFFFFF"

fun csp_crc32_update :: "u32 \<Rightarrow> u8 list \<Rightarrow> u32" where
  "csp_crc32_update crc [] = crc"
| "csp_crc32_update crc (b # bs) = csp_crc32_update (crc32_step crc b) bs"

definition csp_crc32_final :: "u32 \<Rightarrow> u32" where
  "csp_crc32_final crc = crc XOR 0xFFFFFFFF"

definition csp_crc32_memory :: "u8 list \<Rightarrow> u32" where
  "csp_crc32_memory bs = csp_crc32_final (csp_crc32_update csp_crc32_init bs)"

section \<open>The bitwise reference\<close>

definition crc_bit :: "u32 \<Rightarrow> u32" where
  "crc_bit c = (if bit c 0 then drop_bit 1 c XOR 0x82F63B78 else drop_bit 1 c)"

definition crc_byte :: "u32 \<Rightarrow> u8 \<Rightarrow> u32" where
  "crc_byte c b = (crc_bit ^^ 8) (c XOR ucast b)"

fun crc_bitwise :: "u32 \<Rightarrow> u8 list \<Rightarrow> u32" where
  "crc_bitwise c [] = c"
| "crc_bitwise c (b # bs) = crc_bitwise (crc_byte c b) bs"

lemma length_crc_tab [simp]: "length crc_tab = 256"
  by (simp add: crc_tab_def)

text \<open>The bit step is linear over exclusive or, so the table is determined by its entries at powers of two.\<close>

lemma crc_bit_xor: "crc_bit (x XOR y) = crc_bit x XOR crc_bit y"
  by (auto simp: crc_bit_def bit_xor_iff drop_bit_xor ac_simps)

lemma crc_bit_0 [simp]: "crc_bit 0 = 0"
  by (simp add: crc_bit_def)

lemma crc_bits_xor: "(crc_bit ^^ n) (x XOR y) = (crc_bit ^^ n) x XOR (crc_bit ^^ n) y"
  by (induction n) (simp_all add: crc_bit_xor)

lemma crc_bits_0 [simp]: "(crc_bit ^^ n) 0 = 0"
  by (induction n) simp_all

primrec crc_tab_upto :: "nat \<Rightarrow> u32 list" where
  "crc_tab_upto 0 = [0]"
| "crc_tab_upto (Suc k) =
     crc_tab_upto k @ map (\<lambda>x. x XOR (crc_bit ^^ 8) (push_bit k 1)) (crc_tab_upto k)"

lemma of_nat_xor_top:
  assumes n: "n < 2 ^ k" and k: "k < 32"
  shows "(of_nat (2 ^ k + n) :: u32) = of_nat n XOR push_bit k 1"
proof -
  have "\<not> bit n i" if "k \<le> i" for i
    using n that by (metis bit_take_bit_iff not_less take_bit_nat_eq_self)
  then have "(of_nat n :: u32) AND push_bit k 1 = 0"
    using bit_exp_iff [of k, where 'a = "32 word"]
    by (intro bit_word_eqI) (auto simp: bit_and_iff push_bit_eq_mult bit_of_nat_iff)
  then have "of_nat n XOR push_bit k 1 = (of_nat n + push_bit k 1 :: u32)"
    by (simp add: disjunctive_add_eq_xor)
  then show ?thesis by (simp add: push_bit_eq_mult)
qed

lemma crc_tab_upto_eq: "k \<le> 31 \<Longrightarrow> crc_tab_upto k = map (\<lambda>n. (crc_bit ^^ 8) (of_nat n)) [0..<2 ^ k]"
proof (induction k)
  case 0
  then show ?case by simp
next
  case (Suc k)
  have "[0..<2 ^ Suc k] = [0..<2 ^ k] @ map (\<lambda>n. 2 ^ k + n) [0..<2 ^ k]"
    by (simp add: map_add_upt mult_2 upt_add_eq_append [of 0 "2 ^ k" "2 ^ k", simplified] add.commute)
  moreover have "(crc_bit ^^ 8) (of_nat n) XOR (crc_bit ^^ 8) (push_bit k 1) = (crc_bit ^^ 8) (of_nat (2 ^ k + n))"
    if "n < 2 ^ k" for n
    using that Suc.prems by (simp only: of_nat_xor_top crc_bits_xor)
  ultimately show ?case using Suc by (simp add: o_def)
qed

lemma crc_bits_Suc: "(crc_bit ^^ Suc n) x = (crc_bit ^^ n) (crc_bit x)"
  by (simp add: funpow_Suc_right del: funpow.simps)

lemma crc_bits_8: "(crc_bit ^^ 8) x =
    crc_bit (crc_bit (crc_bit (crc_bit (crc_bit (crc_bit (crc_bit (crc_bit x)))))))"
  by (simp add: numeral_eq_Suc)

lemma crc_tab_basis:
  "(crc_bit ^^ 8) 1 = 0xF26B8303" "(crc_bit ^^ 8) 2 = 0xE13B70F7"
  "(crc_bit ^^ 8) 4 = 0xC79A971F" "(crc_bit ^^ 8) 8 = 0x8AD958CF"
  "(crc_bit ^^ 8) 16 = 0x105EC76F" "(crc_bit ^^ 8) 32 = 0x20BD8EDE"
  "(crc_bit ^^ 8) 64 = 0x417B1DBC" "(crc_bit ^^ 8) 128 = 0x82F63B78"
  by (simp_all only: crc_bits_8) (simp_all add: crc_bit_def)

lemma crc_tab_upto_numeral:
  "crc_tab_upto (numeral m) = crc_tab_upto (pred_numeral m) @
     map (\<lambda>x. x XOR (crc_bit ^^ 8) (push_bit (pred_numeral m) 1)) (crc_tab_upto (pred_numeral m))"
  by (simp add: numeral_eq_Suc)

lemma crc_tab_eq_upto: "crc_tab = crc_tab_upto 8"
  by (simp add: crc_tab_upto_numeral crc_tab_basis crc_tab_def)
lemma crc_tab_nth:
  assumes "n < 256"
  shows "crc_tab ! n = (crc_bit ^^ 8) (of_nat n)"
  using assms by (simp add: crc_tab_eq_upto crc_tab_upto_eq)

lemma crc_bits_low_zero: "(\<And>i. i < n \<Longrightarrow> \<not> bit x i) \<Longrightarrow> (crc_bit ^^ n) x = drop_bit n x"
proof (induction n arbitrary: x)
  case 0
  then show ?case by simp
next
  case (Suc n)
  have "crc_bit x = drop_bit 1 x" using Suc.prems by (simp add: crc_bit_def)
  moreover have "(crc_bit ^^ n) (drop_bit 1 x) = drop_bit n (drop_bit 1 x)"
    using Suc.prems by (intro Suc.IH) (simp add: bit_drop_bit_eq)
  ultimately show ?case by (simp add: crc_bits_Suc drop_bit_drop_bit del: funpow.simps)
qed

text \<open>One look-up in the table is eight steps of the bitwise definition.\<close>

lemma crc32_step_eq: "crc32_step c b = crc_byte c b"
proof -
  let ?x = "c XOR ucast b"
  let ?lo = "?x AND 0xFF" and ?hi = "push_bit 8 (drop_bit 8 ?x)"
  have m: "(0xFF :: u32) = mask 8" by (simp add: mask_eq_exp_minus_1)
  have top: "n < 24" if "bit c (8 + n)" for n using bit_imp_le_length [OF that] by simp
  have split: "?x = ?lo XOR ?hi"
    by (rule bit_word_eqI) (auto simp: m bit_simps)
  have "drop_bit 8 ?x = drop_bit 8 c"
    by (rule bit_word_eqI) (auto simp: bit_simps dest: bit_imp_le_length)
  moreover have "(crc_bit ^^ 8) ?hi = drop_bit 8 ?x"
  proof -
    have "(crc_bit ^^ 8) ?hi = drop_bit 8 ?hi"
      by (rule crc_bits_low_zero) (simp add: bit_simps)
    also have "\<dots> = drop_bit 8 ?x"
      using top by (intro bit_word_eqI) (auto simp: bit_simps)
    finally show ?thesis .
  qed
  moreover have "crc_tab ! unat ?lo = (crc_bit ^^ 8) ?lo"
  proof -
    have "?lo \<le> 0xFF" by (rule word_and_le1)
    then have "unat ?lo < 256" by (simp add: word_le_nat_alt)
    then show ?thesis by (simp add: crc_tab_nth)
  qed
  moreover have "crc_byte c b = (crc_bit ^^ 8) ?lo XOR (crc_bit ^^ 8) ?hi"
    unfolding crc_byte_def by (subst split) (rule crc_bits_xor)
  ultimately show ?thesis by (simp add: crc32_step_def)
qed

lemma csp_crc32_update_eq: "csp_crc32_update c bs = crc_bitwise c bs"
  by (induction bs arbitrary: c) (simp_all add: crc32_step_eq)

lemma csp_crc32_update_append [simp]:
  "csp_crc32_update c (xs @ ys) = csp_crc32_update (csp_crc32_update c xs) ys"
  by (induction xs arbitrary: c) simp_all

section \<open>Error detection\<close>

text \<open>
  A bit step can be undone: the top bit of the result tells whether the polynomial was added. So
  changes of the state and of the input bytes are never lost.
\<close>

lemma xor_cancel_right: "(a :: 'a::len word) XOR c = b XOR c \<Longrightarrow> a = b"
  by (metis xor.assoc xor_self_eq xor.right_neutral)

lemma bit_poly_31: "bit (0x82F63B78 :: u32) 31"
  by simp

lemma crc_bit_31: "bit (crc_bit x) 31 = bit x 0"
proof -
  have "\<not> bit (drop_bit 1 x) 31" by (auto simp: bit_drop_bit_eq dest: bit_imp_le_length)
  then show ?thesis by (simp add: crc_bit_def bit_xor_iff)
qed

lemma crc_bit_inj: "crc_bit x = crc_bit y \<Longrightarrow> x = y"
proof -
  assume eq: "crc_bit x = crc_bit y"
  then have b0: "bit x 0 = bit y 0" by (metis crc_bit_31)
  then have "drop_bit 1 x = drop_bit 1 y"
    using eq by (auto simp: crc_bit_def split: if_splits dest: xor_cancel_right)
  then have "bit x (Suc i) = bit y (Suc i)" for i
    by (metis bit_drop_bit_eq comp_apply plus_1_eq_Suc)
  with b0 have "bit x i = bit y i" for i by (cases i) simp_all
  then show "x = y" by (simp add: bit_eq_iff)
qed

lemma crc_bits_inj: "(crc_bit ^^ n) x = (crc_bit ^^ n) y \<Longrightarrow> x = y"
  by (induction n) (auto dest: crc_bit_inj)

lemma crc_bitwise_state_inj: "crc_bitwise c bs = crc_bitwise d bs \<Longrightarrow> c = d"
proof (induction bs arbitrary: c d)
  case Nil
  then show ?case by simp
next
  case (Cons b bs)
  then have "crc_byte c b = crc_byte d b" by simp
  then show ?case unfolding crc_byte_def by (auto dest!: crc_bits_inj xor_cancel_right)
qed

text \<open>Up to four bytes enter the state as one 32-bit word, so the state determines them.\<close>

lemma crc_bitwise_word:
  "length bs \<le> 4 \<Longrightarrow> crc_bitwise c bs = (crc_bit ^^ (8 * length bs)) (c XOR le_value bs)"
proof (induction bs arbitrary: c)
  case Nil
  then show ?case by simp
next
  case (Cons b bs)
  let ?v = "le_value bs :: u32"
  have hi: "\<not> bit ?v i" if "24 \<le> i" for i
    using that Cons.prems by (auto simp: bit_le_value)
  have "(crc_bit ^^ 8) (push_bit 8 ?v) = drop_bit 8 (push_bit 8 ?v)"
    by (rule crc_bits_low_zero) (simp add: bit_push_bit_iff)
  also have "\<dots> = ?v"
  proof (rule bit_word_eqI)
    fix i assume "i < LENGTH(32)"
    then show "bit (drop_bit 8 (push_bit 8 ?v)) i = bit ?v i"
      using hi [of i] by (cases "24 \<le> i") (auto simp: bit_simps)
  qed
  finally have up: "(crc_bit ^^ 8) (push_bit 8 ?v) = ?v" .
  have dis: "c XOR le_value (b # bs) = (c XOR ucast b) XOR push_bit 8 ?v"
    by (rule bit_word_eqI) (auto simp: bit_simps dest: bit_imp_le_length)
  have "crc_bitwise c (b # bs) = (crc_bit ^^ (8 * length bs)) ((crc_bit ^^ 8) (c XOR ucast b) XOR ?v)"
    using Cons by (simp add: crc_byte_def)
  also have "(crc_bit ^^ 8) (c XOR ucast b) XOR ?v = (crc_bit ^^ 8) (c XOR le_value (b # bs))"
    unfolding dis crc_bits_xor up ..
  also have "(crc_bit ^^ (8 * length bs)) \<dots> = (crc_bit ^^ (8 * length bs + 8)) (c XOR le_value (b # bs))"
    by (simp only: funpow_add comp_apply)
  also have "8 * length bs + 8 = 8 * length (b # bs)" by simp
  finally show ?case .
qed

lemma le_value_inj_32:
  "length bs = length cs \<Longrightarrow> length bs \<le> 4 \<Longrightarrow> (le_value bs :: u32) = le_value cs \<Longrightarrow> bs = cs"
  using le_bytes_le_value [of bs "length bs", where 'a = 32] le_bytes_le_value [of cs "length bs", where 'a = 32]
  by simp

text \<open>
  \<^bold>\<open>Claim C17.\<close> The table-driven checksum is the bitwise CRC-32C (reflected polynomial 0x82F63B78, initial
  value and final inversion all ones) of the message, for every message.
\<close>

theorem crc32_is_crc32c:
  "csp_crc32_memory bs = crc_bitwise 0xFFFFFFFF bs XOR 0xFFFFFFFF"
  by (simp add: csp_crc32_memory_def csp_crc32_final_def csp_crc32_init_def csp_crc32_update_eq)

text \<open>
  \<^bold>\<open>Claim C19.\<close> Two messages of the same length that differ only inside a window of at most four consecutive
  bytes have different checksums: every error burst of up to 32 bits is detected.
\<close>

theorem crc32_detects_burst:
  assumes len: "length bs = length cs" "length bs \<le> 4" and ne: "bs \<noteq> cs"
  shows "csp_crc32_memory (xs @ bs @ ys) \<noteq> csp_crc32_memory (xs @ cs @ ys)"
proof
  let ?c = "csp_crc32_update csp_crc32_init xs"
  assume "csp_crc32_memory (xs @ bs @ ys) = csp_crc32_memory (xs @ cs @ ys)"
  then have "crc_bitwise (crc_bitwise ?c bs) ys = crc_bitwise (crc_bitwise ?c cs) ys"
    by (auto simp: csp_crc32_memory_def csp_crc32_final_def csp_crc32_update_eq [symmetric]
        dest: xor_cancel_right)
  then have "crc_bitwise ?c bs = crc_bitwise ?c cs" by (rule crc_bitwise_state_inj)
  then have "?c XOR le_value bs = ?c XOR le_value cs"
    using len by (auto simp: crc_bitwise_word dest: crc_bits_inj)
  then have "(le_value bs :: u32) = le_value cs"
    by (metis xor_cancel_right xor.commute)
  then show False using le_value_inj_32 len ne by blast
qed

theorem crc32_detects_burst_witness:
  "csp_crc32_memory ([0, 1] @ [2, 3, 4] @ [5]) \<noteq> csp_crc32_memory ([0, 1] @ [2, 9, 4] @ [5])"
  by (rule crc32_detects_burst) simp_all

section \<open>Checksums of packets\<close>

text \<open>
  \<open>CSP_21\<close> is not defined, so appending computes the checksum of the payload only. The sum
  \<open>length + sizeof(crc)\<close> is a \<open>size_t\<close> and does not wrap. Verifying first packs the header again and tries
  the checksum of header and payload, then the checksum of the payload alone.
\<close>

definition csp_crc32_append :: "csp_packet \<Rightarrow> int \<times> csp_packet" where
  "csp_crc32_append p =
     (if CSP_BUFFER_SIZE < unat (p_length p) + 4 then (CSP_ERR_NOMEM, p)
      else let crc = csp_crc32_memory (payload p)
           in (CSP_ERR_NONE,
               p\<lparr>area := mem_put (area p) (DATA_OFF + unat (p_length p)) (be_bytes 4 crc),
                 p_length := p_length p + 4\<rparr>))"

definition crc_field :: "csp_packet \<Rightarrow> u8 list" where
  "crc_field p = mem_read (area p) (DATA_OFF + unat (p_length p) - 4) 4"

definition csp_crc32_verify :: "u8 \<Rightarrow> csp_packet \<Rightarrow> int \<times> csp_packet" where
  "csp_crc32_verify v p =
     (if p_length p < 4 then (CSP_ERR_CRC32, p)
      else
        let p = csp_id_prepend v p;
            n = unat (frame_length p) - 4;
            crc = csp_crc32_memory (take n (frame_bytes p))
        in if crc_field p \<noteq> be_bytes 4 crc
             \<and> crc_field p \<noteq> be_bytes 4 (csp_crc32_memory (mem_read (area p) DATA_OFF (unat (p_length p) - 4)))
           then (CSP_ERR_CRC32, p)
           else (CSP_ERR_NONE, p\<lparr>p_length := p_length p - 4\<rparr>))"

lemma crc32_append_ok:
  assumes ok: "packet_ok p" and fit: "unat (p_length p) + 4 \<le> CSP_BUFFER_SIZE"
  shows "csp_crc32_append p =
    (CSP_ERR_NONE, p\<lparr>area := mem_put (area p) (DATA_OFF + unat (p_length p)) (be_bytes 4 (csp_crc32_memory (payload p))),
                     p_length := p_length p + 4\<rparr>)"
  using fit by (simp add: csp_crc32_append_def Let_def)

lemma crc32_append_packet:
  assumes ok: "packet_ok p" and app: "csp_crc32_append p = (CSP_ERR_NONE, q)"
  shows "packet_ok q" and "unat (p_length q) = unat (p_length p) + 4" and "p_id q = p_id p"
    and "payload q = payload p @ be_bytes 4 (csp_crc32_memory (payload p))"
proof -
  have fit: "unat (p_length p) + 4 \<le> 256"
    using app by (auto simp: csp_crc32_append_def split: if_splits)
  let ?c = "be_bytes 4 (csp_crc32_memory (payload p))"
  have q: "q = p\<lparr>area := mem_put (area p) (8 + unat (p_length p)) ?c, p_length := p_length p + 4\<rparr>"
    using app crc32_append_ok [OF ok] fit by simp
  show len: "unat (p_length q) = unat (p_length p) + 4"
    using fit by (simp add: q unat_word_ariths)
  show "packet_ok q" using ok fit len by (simp add: packet_ok_def q)
  show "p_id q = p_id p" by (simp add: q)
  have "mem_read (area q) (8 + unat (p_length p)) 4 = ?c"
    using ok fit mem_read_put_same [of "8 + unat (p_length p)" ?c "area p"] by (simp add: packet_ok_def q)
  moreover have "mem_read (area q) 8 (unat (p_length p)) = payload p"
    using ok fit by (simp add: payload_def packet_ok_def mem_read_put_before q)
  moreover have "payload q = mem_read (area q) 8 (unat (p_length p)) @ mem_read (area q) (8 + unat (p_length p)) 4"
    by (simp only: payload_def len mem_read_append)
  ultimately show "payload q = payload p @ ?c" by simp
qed

text \<open>What verification accepts, in terms of the payload: the last four bytes are one of two checksums.\<close>

definition crc_good :: "u8 \<Rightarrow> csp_id \<Rightarrow> u8 list \<Rightarrow> bool" where
  "crc_good v i bs \<longleftrightarrow>
     4 \<le> length bs \<and>
     (let body = take (length bs - 4) bs; crc = drop (length bs - 4) bs
      in crc = be_bytes 4 (csp_crc32_memory (id_bytes v i @ body)) \<or> crc = be_bytes 4 (csp_crc32_memory body))"

lemma crc32_verify_spec:
  assumes ok: "packet_ok p"
  shows "csp_crc32_verify v p =
     (if crc_good v (p_id p) (payload p)
      then (CSP_ERR_NONE, (csp_id_prepend v p)\<lparr>p_length := p_length p - 4\<rparr>)
      else (CSP_ERR_CRC32, if 4 \<le> unat (p_length p) then csp_id_prepend v p else p))"
proof (cases "4 \<le> unat (p_length p)")
  case False
  then show ?thesis using ok
    by (simp add: csp_crc32_verify_def crc_good_def word_less_nat_alt)
next
  case True
  let ?q = "csp_id_prepend v p" and ?n = "unat (p_length p)"
  have okq: "packet_ok ?q" using ok by simp
  have fb: "take (unat (p_length p + of_nat (hdr_size v)) - 4) (frame_bytes ?q) = id_bytes v (p_id p) @ take (?n - 4) (payload p)"
    using True ok by (simp add: frame_bytes_prepend frame_length_prepend)
  have body: "mem_read (area ?q) DATA_OFF (?n - 4) = take (?n - 4) (payload p)"
  proof -
    have "take (?n - 4) (payload ?q) = mem_read (area ?q) 8 (?n - 4)"
      by (simp add: payload_def mem_read_def min_def)
    then show ?thesis using ok by simp
  qed
  have crc: "crc_field ?q = drop (?n - 4) (payload p)"
  proof -
    have "drop (?n - 4) (payload ?q) = mem_read (area ?q) (8 + (?n - 4)) 4"
      using True okq mem_read_append [of "area ?q" 8 "?n - 4" 4]
      by (simp add: payload_def packet_ok_def)
    then show ?thesis using ok True by (simp add: crc_field_def)
  qed
  have lt: "\<not> p_length p < 4" using True by (simp add: word_less_nat_alt)
  show ?thesis
    using True ok lt by (auto simp: csp_crc32_verify_def Let_def fb body crc crc_good_def)
qed

text \<open>
  \<^bold>\<open>Claim C18.\<close> A packet with room for the checksum passes verification after it was appended, on both
  protocol versions, and verification gives back the original payload, length and identifier.
\<close>

theorem crc32_append_verify:
  assumes ok: "packet_ok p" and fit: "unat (p_length p) + 4 \<le> CSP_BUFFER_SIZE"
  shows "\<exists>q r. csp_crc32_append p = (CSP_ERR_NONE, q) \<and> csp_crc32_verify v q = (CSP_ERR_NONE, r) \<and>
           payload r = payload p \<and> p_length r = p_length p \<and> p_id r = p_id p"
proof -
  obtain q where app: "csp_crc32_append p = (CSP_ERR_NONE, q)"
    using crc32_append_ok [OF ok fit] by simp
  note q = crc32_append_packet [OF ok app]
  have good: "crc_good v (p_id q) (payload q)"
    using q(4) by (simp add: crc_good_def)
  let ?r = "(csp_id_prepend v q)\<lparr>p_length := p_length q - 4\<rparr>"
  have ver: "csp_crc32_verify v q = (CSP_ERR_NONE, ?r)"
    using crc32_verify_spec [OF q(1)] good by simp
  have l: "unat (p_length q - 4) = unat (p_length p)"
    using q(2) by (simp add: unat_sub word_le_nat_alt)
  have "take (unat (p_length p)) (payload (csp_id_prepend v q)) = payload ?r"
    using q(2) l by (simp add: payload_def mem_read_def min_def)
  then have "payload ?r = payload p" using q(1,4) ok by simp
  moreover have "p_length ?r = p_length p" using l by (simp add: word_unat_eq_iff)
  ultimately show ?thesis using app ver q(3) by auto
qed

text \<open>Appending to and verifying a concrete packet of three bytes.\<close>

theorem crc32_append_verify_witness:
  "\<exists>q r. csp_crc32_append ex_packet = (CSP_ERR_NONE, q) \<and> csp_crc32_verify 2 q = (CSP_ERR_NONE, r) \<and>
     payload r = payload ex_packet"
proof -
  have "packet_ok ex_packet" "unat (p_length ex_packet) + 4 \<le> CSP_BUFFER_SIZE"
    by (simp_all add: packet_ok_def ex_packet_def)
  from crc32_append_verify [OF this, of 2] show ?thesis by blast
qed

end
