(* ===== verification/Mpmc_Queue.thy ===== *)
theory Mpmc_Queue
  imports Prelude
begin

text \<open>
  The static ring-buffer queue (\<open>src/arch/baremetal/mpmp_queue.c\<close>, \<open>include/csp/arch/mpmc_queue.h\<close>) and
  its CSP wrapper (\<open>src/arch/baremetal/csp_queue.c\<close>).

  A \<open>StaticQueue_t\<close> is the record \<open>static_queue\<close>: the byte storage of \<open>uxLength\<close> items is the list of
  its items, \<open>memcpy\<close> of \<open>uxItemSize\<close> bytes is the copy of one item. A handle is a pointer that may be
  NULL: \<open>None\<close>. Interrupts are disabled from the entry to the exit of every operation, so each is one
  step. The indices stay below \<open>uxLength\<close>, so the 32-bit counters are naturals.
  The locale \<open>bounded_fifo\<close> is the contract every client of a queue uses; the model's queue is its
  interpretation \<open>rq\<close>.
\<close>

section \<open>The ring buffer\<close>

record 'a static_queue =
  pucBuffer :: "'a list"
  uxLength :: nat
  uxItemSize :: nat
  head :: nat
  tail :: nat
  count :: nat

type_synonym 'a queue_handle = "'a static_queue option"

definition xQueueCreateStatic ::
  "nat \<Rightarrow> nat \<Rightarrow> 'a list option \<Rightarrow> 'a static_queue option \<Rightarrow> 'a queue_handle" where
  "xQueueCreateStatic len item_size storage q =
     (if len = 0 \<or> item_size = 0 \<or> storage = None \<or> q = None then None
      else Some \<lparr>pucBuffer = the storage, uxLength = len, uxItemSize = item_size,
                 head = 0, tail = 0, count = 0\<rparr>)"

definition xQueueSend :: "'a queue_handle \<Rightarrow> 'a option \<Rightarrow> u32 \<Rightarrow> bool \<times> 'a queue_handle" where
  "xQueueSend h item ignored =
     (case (h, item) of
        (Some q, Some x) \<Rightarrow>
          (if count q < uxLength q
           then let h1 = Suc (head q)
                in (True, Some (q\<lparr>pucBuffer := (pucBuffer q)[head q := x],
                                  head := (if h1 = uxLength q then 0 else h1),
                                  count := Suc (count q)\<rparr>))
           else (False, h))
      | _ \<Rightarrow> (False, h))"

definition xQueueReceive :: "'a queue_handle \<Rightarrow> u32 \<Rightarrow> 'a option \<times> 'a queue_handle" where
  "xQueueReceive h ignored =
     (case h of
        None \<Rightarrow> (None, h)
      | Some q \<Rightarrow>
          (if 0 < count q
           then let t1 = Suc (tail q)
                in (Some (pucBuffer q ! tail q),
                    Some (q\<lparr>tail := (if t1 = uxLength q then 0 else t1), count := count q - 1\<rparr>))
           else (None, h)))"

definition uxQueueMessagesWaiting :: "'a queue_handle \<Rightarrow> nat" where
  "uxQueueMessagesWaiting h = (case h of None \<Rightarrow> 0 | Some q \<Rightarrow> count q)"

definition uxQueueSpacesAvailable :: "'a queue_handle \<Rightarrow> nat" where
  "uxQueueSpacesAvailable h = (case h of None \<Rightarrow> 0 | Some q \<Rightarrow> uxLength q - count q)"

definition xQueueReset :: "'a queue_handle \<Rightarrow> bool \<times> 'a queue_handle" where
  "xQueueReset h =
     (case h of None \<Rightarrow> (False, h) | Some q \<Rightarrow> (True, Some (q\<lparr>head := 0, tail := 0, count := 0\<rparr>)))"

section \<open>The CSP wrapper\<close>

text \<open>
  \<open>CSP_QUEUE_OK\<close> is 0 and \<open>CSP_QUEUE_ERROR\<close> is -1. The timeout is converted to ticks and passed on to
  a port that ignores it (\<open>BSP_TICKS_PER_SEC\<close> is a board constant outside the repository, so the
  conversion is not computed). The \<open>_isr\<close> variants are macros over the same functions, so they
  are the same definitions. A dequeue returns the item it writes to \<open>buf\<close>, or \<open>None\<close> when it returns
  \<open>CSP_QUEUE_ERROR\<close> and leaves \<open>buf\<close> alone.
\<close>

definition CSP_QUEUE_OK :: int where "CSP_QUEUE_OK = 0"
definition CSP_QUEUE_ERROR :: int where "CSP_QUEUE_ERROR = -1"

definition csp_queue_create_static ::
  "nat \<Rightarrow> nat \<Rightarrow> 'a list option \<Rightarrow> 'a static_queue option \<Rightarrow> 'a queue_handle" where
  "csp_queue_create_static len item_size storage q = xQueueCreateStatic len item_size storage q"

definition csp_queue_enqueue :: "'a queue_handle \<Rightarrow> 'a \<Rightarrow> u32 \<Rightarrow> int \<times> 'a queue_handle" where
  "csp_queue_enqueue h v timeout =
     (case xQueueSend h (Some v) timeout of
        (ok, h') \<Rightarrow> (if ok then CSP_QUEUE_OK else CSP_QUEUE_ERROR, h'))"

definition csp_queue_enqueue_isr :: "'a queue_handle \<Rightarrow> 'a \<Rightarrow> int \<times> 'a queue_handle" where
  "csp_queue_enqueue_isr h v =
     (case xQueueSend h (Some v) 0 of
        (ok, h') \<Rightarrow> (if ok then CSP_QUEUE_OK else CSP_QUEUE_ERROR, h'))"

definition csp_queue_dequeue :: "'a queue_handle \<Rightarrow> u32 \<Rightarrow> 'a option \<times> 'a queue_handle" where
  "csp_queue_dequeue h timeout = xQueueReceive h timeout"

definition csp_queue_dequeue_isr :: "'a queue_handle \<Rightarrow> 'a option \<times> 'a queue_handle" where
  "csp_queue_dequeue_isr h = xQueueReceive h 0"

definition csp_queue_size :: "'a queue_handle \<Rightarrow> nat" where
  "csp_queue_size h = uxQueueMessagesWaiting h"

definition csp_queue_size_isr :: "'a queue_handle \<Rightarrow> nat" where
  "csp_queue_size_isr h = uxQueueMessagesWaiting h"

text \<open>\<open>csp_queue_free\<close> frees nothing on this port: it returns the number of free slots.\<close>

definition csp_queue_free :: "'a queue_handle \<Rightarrow> nat" where
  "csp_queue_free h = uxQueueSpacesAvailable h"

definition csp_queue_empty :: "'a queue_handle \<Rightarrow> 'a queue_handle" where
  "csp_queue_empty h = snd (xQueueReset h)"

section \<open>The bounded FIFO contract\<close>

text \<open>
  What a client may rely on: a queue holds a list of items of at most \<open>cap\<close>; enqueue appends or, when
  full, refuses and changes nothing; dequeue takes the oldest. The lemmas of the locale are about runs
  of operations.
\<close>

locale bounded_fifo =
  fixes send :: "'q \<Rightarrow> 'a \<Rightarrow> int \<times> 'q"
    and recv :: "'q \<Rightarrow> 'a option \<times> 'q"
    and items :: "'q \<Rightarrow> 'a list"
    and cap :: "'q \<Rightarrow> nat"
    and ok :: "'q \<Rightarrow> bool"
  assumes items_le_cap: "ok q \<Longrightarrow> length (items q) \<le> cap q"
    and send_ok: "ok q \<Longrightarrow> length (items q) < cap q \<Longrightarrow>
        fst (send q x) = CSP_QUEUE_OK \<and> items (snd (send q x)) = items q @ [x]"
    and send_full: "ok q \<Longrightarrow> length (items q) = cap q \<Longrightarrow> send q x = (CSP_QUEUE_ERROR, q)"
    and recv_empty: "ok q \<Longrightarrow> items q = [] \<Longrightarrow> recv q = (None, q)"
    and recv_Cons: "ok q \<Longrightarrow> items q = x # xs \<Longrightarrow> fst (recv q) = Some x \<and> items (snd (recv q)) = xs"
    and send_inv: "ok q \<Longrightarrow> ok (snd (send q x)) \<and> cap (snd (send q x)) = cap q"
    and recv_inv: "ok q \<Longrightarrow> ok (snd (recv q)) \<and> cap (snd (recv q)) = cap q"
begin

fun send_all :: "'q \<Rightarrow> 'a list \<Rightarrow> 'q" where
  "send_all q [] = q"
| "send_all q (x # xs) = send_all (snd (send q x)) xs"

fun recv_n :: "nat \<Rightarrow> 'q \<Rightarrow> 'a list \<times> 'q" where
  "recv_n 0 q = ([], q)"
| "recv_n (Suc n) q =
     (case recv q of
        (None, q') \<Rightarrow> ([], q')
      | (Some x, q') \<Rightarrow> (case recv_n n q' of (xs, q'') \<Rightarrow> (x # xs, q'')))"

lemma send_items:
  "ok q \<Longrightarrow> items (snd (send q x)) = (if length (items q) < cap q then items q @ [x] else items q)"
  using send_ok [of q x] send_full [of q x] items_le_cap [of q] by (cases "length (items q) < cap q") auto

lemma send_result:
  "ok q \<Longrightarrow> fst (send q x) = (if length (items q) < cap q then CSP_QUEUE_OK else CSP_QUEUE_ERROR)"
  using send_ok [of q x] send_full [of q x] items_le_cap [of q] by (cases "length (items q) < cap q") auto

lemma recv_items: "ok q \<Longrightarrow> items (snd (recv q)) = tl (items q)"
  by (cases "items q") (auto simp: recv_empty dest: recv_Cons)

lemma recv_result: "ok q \<Longrightarrow> fst (recv q) = (case items q of [] \<Rightarrow> None | x # _ \<Rightarrow> Some x)"
  by (cases "items q") (auto simp: recv_empty dest: recv_Cons)

lemma recv_unchanged: "ok q \<Longrightarrow> fst (recv q) = None \<Longrightarrow> snd (recv q) = q"
  by (cases "items q") (auto simp: recv_empty dest: recv_Cons)

lemma send_all_inv: "ok q \<Longrightarrow> ok (send_all q xs) \<and> cap (send_all q xs) = cap q"
  by (induction xs arbitrary: q) (auto simp: send_inv)

lemma send_all_items:
  "ok q \<Longrightarrow> items (send_all q xs) = items q @ take (cap q - length (items q)) xs"
proof (induction xs arbitrary: q)
  case Nil
  then show ?case by simp
next
  case (Cons x xs)
  then have inv: "ok (snd (send q x))" "cap (snd (send q x)) = cap q" by (auto simp: send_inv)
  have le: "length (items q) \<le> cap q" using Cons.prems by (rule items_le_cap)
  show ?case
  proof (cases "length (items q) < cap q")
    case True
    then have "cap q - length (items q) = Suc (cap q - length (items q @ [x]))" by simp
    then show ?thesis using Cons inv True by (simp add: send_items)
  next
    case False
    then show ?thesis using Cons inv le by (simp add: send_items)
  qed
qed

lemma recv_n_items:
  "ok q \<Longrightarrow> fst (recv_n n q) = take n (items q) \<and> items (snd (recv_n n q)) = drop n (items q)
     \<and> ok (snd (recv_n n q))"
proof (induction n arbitrary: q)
  case 0
  then show ?case by simp
next
  case (Suc n)
  show ?case
  proof (cases "items q")
    case Nil
    then show ?thesis using Suc.prems by (simp add: recv_empty)
  next
    case (Cons x xs)
    then have r: "fst (recv q) = Some x" "items (snd (recv q)) = xs" "ok (snd (recv q))"
      using Suc.prems recv_Cons recv_inv by blast+
    obtain q' where q': "recv q = (Some x, q')" using r(1) by (cases "recv q") auto
    have IH: "fst (recv_n n q') = take n xs \<and> items (snd (recv_n n q')) = drop n xs
       \<and> ok (snd (recv_n n q'))"
      using Suc.IH [of q'] r q' by simp
    show ?thesis using IH by (auto simp: Cons q' split: prod.split)
  qed
qed

lemma recv_n_cap: "ok q \<Longrightarrow> cap (snd (recv_n n q)) = cap q"
proof (induction n arbitrary: q)
  case 0
  then show ?case by simp
next
  case (Suc n)
  obtain x q' where r: "recv q = (x, q')" by (cases "recv q")
  then have q': "ok q'" "cap q' = cap q" using Suc.prems recv_inv [of q] by simp_all
  then have "cap (snd (recv_n n q')) = cap q" using Suc.IH [of q'] by simp
  then show ?case using r q' by (cases x) (auto split: prod.split)
qed

theorem fifo_order:
  assumes "ok q" and "items q = []" and "length xs \<le> cap q"
  shows "fst (recv_n (length xs) (send_all q xs)) = xs"
proof -
  have "items (send_all q xs) = xs" using assms by (simp add: send_all_items)
  moreover have "ok (send_all q xs)" using assms(1) send_all_inv by blast
  ultimately show ?thesis by (simp add: recv_n_items)
qed

end

section \<open>The ring buffer implements the contract\<close>

definition q_ok :: "'a static_queue \<Rightarrow> bool" where
  "q_ok q \<longleftrightarrow> 0 < uxLength q \<and> length (pucBuffer q) = uxLength q \<and> tail q < uxLength q
     \<and> count q \<le> uxLength q \<and> head q = (tail q + count q) mod uxLength q"

definition q_list :: "'a static_queue \<Rightarrow> 'a list" where
  "q_list q = map (\<lambda>k. pucBuffer q ! ((tail q + k) mod uxLength q)) [0..<count q]"

definition qh_ok :: "'a queue_handle \<Rightarrow> bool" where
  "qh_ok h = (case h of None \<Rightarrow> True | Some q \<Rightarrow> q_ok q)"

definition qh_items :: "'a queue_handle \<Rightarrow> 'a list" where
  "qh_items h = (case h of None \<Rightarrow> [] | Some q \<Rightarrow> q_list q)"

definition qh_cap :: "'a queue_handle \<Rightarrow> nat" where
  "qh_cap h = (case h of None \<Rightarrow> 0 | Some q \<Rightarrow> uxLength q)"

lemma length_q_list [simp]: "length (q_list q) = count q"
  by (simp add: q_list_def)

lemma q_ok_head: "q_ok q \<Longrightarrow> head q < uxLength q"
  by (simp add: q_ok_def)

lemma q_list_send:
  assumes ok: "q_ok q" and sp: "count q < uxLength q"
  shows "q_list (q\<lparr>pucBuffer := (pucBuffer q)[head q := x], head := h, count := Suc (count q)\<rparr>)
         = q_list q @ [x]"
proof -
  have ne: "(tail q + k) mod uxLength q \<noteq> head q" if "k < count q" for k
    using that ok sp mod_add_inj [of k "uxLength q" "count q" "tail q"] by (auto simp: q_ok_def)
  have "map (\<lambda>k. (pucBuffer q)[head q := x] ! ((tail q + k) mod uxLength q)) [0..<count q] = q_list q"
    using ne by (fastforce simp: q_list_def intro: nth_list_update_neq)
  moreover have "(pucBuffer q)[head q := x] ! ((tail q + count q) mod uxLength q) = x"
    using ok q_ok_head [OF ok] by (simp add: q_ok_def)
  ultimately show ?thesis by (simp add: q_list_def)
qed

lemma q_ok_send:
  assumes ok: "q_ok q" and sp: "count q < uxLength q"
  shows "q_ok (q\<lparr>pucBuffer := b[head q := x],
                 head := (if Suc (head q) = uxLength q then 0 else Suc (head q)),
                 count := Suc (count q)\<rparr>) = (length b = uxLength q)"
proof -
  have "Suc (head q) \<le> uxLength q" using q_ok_head [OF ok] by simp
  then have "(if Suc (head q) = uxLength q then 0 else Suc (head q)) = Suc (head q) mod uxLength q"
    by (simp add: mod_Suc_if)
  also have "\<dots> = (tail q + Suc (count q)) mod uxLength q"
    using ok by (simp add: q_ok_def mod_Suc_eq)
  finally show ?thesis using ok sp by (auto simp: q_ok_def)
qed

lemma q_list_recv:
  assumes ok: "q_ok q" and ne: "0 < count q"
  shows "q_list q = pucBuffer q ! tail q #
           q_list (q\<lparr>tail := (if Suc (tail q) = uxLength q then 0 else Suc (tail q)), count := count q - 1\<rparr>)"
proof -
  have t: "(if Suc (tail q) = uxLength q then 0 else Suc (tail q)) = Suc (tail q) mod uxLength q"
    using ok by (simp add: q_ok_def mod_Suc_if)
  obtain c where c: "count q = Suc c" using ne by (cases "count q") auto
  have idx: "(Suc (tail q) mod uxLength q + k) mod uxLength q = (tail q + Suc k) mod uxLength q" for k
    by (metis add_Suc_shift mod_add_left_eq)
  have "tail q mod uxLength q = tail q" using ok by (simp add: q_ok_def)
  then show ?thesis unfolding t
    by (simp add: q_list_def c idx upt_conv_Cons map_Suc_upt [symmetric] del: upt_Suc)
qed

lemma q_ok_recv:
  assumes ok: "q_ok q" and ne: "0 < count q"
  shows "q_ok (q\<lparr>tail := (if Suc (tail q) = uxLength q then 0 else Suc (tail q)), count := count q - 1\<rparr>)"
proof -
  have t: "(if Suc (tail q) = uxLength q then 0 else Suc (tail q)) = Suc (tail q) mod uxLength q"
    using ok by (simp add: q_ok_def mod_Suc_if)
  obtain c where c: "count q = Suc c" using ne by (cases "count q") auto
  have "(Suc (tail q) mod uxLength q + c) mod uxLength q = (tail q + Suc c) mod uxLength q"
    by (metis add_Suc_shift mod_add_left_eq)
  then show ?thesis using ok unfolding t by (auto simp: q_ok_def c)
qed

lemma qh_items_le_cap: "qh_ok h \<Longrightarrow> length (qh_items h) \<le> qh_cap h"
  by (cases h) (auto simp: qh_ok_def qh_items_def qh_cap_def q_ok_def)

lemma qh_recv_empty: "qh_items h = [] \<Longrightarrow> csp_queue_dequeue h t = (None, h)"
  by (cases h) (auto simp: csp_queue_dequeue_def xQueueReceive_def qh_items_def q_list_def)

lemma qh_recv_Cons:
  "qh_ok h \<Longrightarrow> qh_items h = x # xs \<Longrightarrow>
     fst (csp_queue_dequeue h t) = Some x \<and> qh_items (snd (csp_queue_dequeue h t)) = xs"
proof (cases h)
  case None
  then show "qh_items h = x # xs \<Longrightarrow> ?thesis" by (simp add: qh_items_def)
next
  case (Some q)
  assume ok: "qh_ok h" and it: "qh_items h = x # xs"
  have "length (q_list q) \<noteq> 0" using it Some by (simp add: qh_items_def)
  then have ne: "0 < count q" by simp
  show ?thesis
    using ok it q_list_recv [of q, OF _ ne] ne
    by (simp add: Some qh_ok_def qh_items_def csp_queue_dequeue_def xQueueReceive_def Let_def)
qed

lemma qh_recv_inv:
  "qh_ok h \<Longrightarrow> qh_ok (snd (csp_queue_dequeue h t)) \<and> qh_cap (snd (csp_queue_dequeue h t)) = qh_cap h"
proof (cases h)
  case None
  then show "qh_ok h \<Longrightarrow> ?thesis"
    by (simp add: qh_ok_def qh_cap_def csp_queue_dequeue_def xQueueReceive_def)
next
  case (Some q)
  assume "qh_ok h"
  then show ?thesis
    using q_ok_recv [of q]
    by (auto simp: Some qh_ok_def qh_cap_def csp_queue_dequeue_def xQueueReceive_def Let_def)
qed

lemma qh_send_inv:
  "qh_ok h \<Longrightarrow> qh_ok (snd (csp_queue_enqueue h x t)) \<and> qh_cap (snd (csp_queue_enqueue h x t)) = qh_cap h"
proof (cases h)
  case None
  then show "qh_ok h \<Longrightarrow> ?thesis"
    by (simp add: qh_ok_def qh_cap_def csp_queue_enqueue_def xQueueSend_def)
next
  case (Some q)
  assume "qh_ok h"
  then show ?thesis
    using q_ok_send [of q "pucBuffer q" x]
    by (auto simp: Some qh_ok_def qh_cap_def csp_queue_enqueue_def xQueueSend_def Let_def q_ok_def)
qed

lemma qh_send_ok:
  "qh_ok h \<Longrightarrow> length (qh_items h) < qh_cap h \<Longrightarrow>
     fst (csp_queue_enqueue h x t) = CSP_QUEUE_OK \<and>
     qh_items (snd (csp_queue_enqueue h x t)) = qh_items h @ [x]"
  by (cases h) (simp_all add: qh_ok_def qh_cap_def qh_items_def csp_queue_enqueue_def xQueueSend_def
      Let_def q_list_send)

lemma qh_send_full:
  "length (qh_items h) = qh_cap h \<Longrightarrow> csp_queue_enqueue h x t = (CSP_QUEUE_ERROR, h)"
  by (cases h) (auto simp: qh_cap_def qh_items_def csp_queue_enqueue_def xQueueSend_def)

interpretation rq: bounded_fifo "\<lambda>h x. csp_queue_enqueue h x t" "\<lambda>h. csp_queue_dequeue h t'"
    qh_items qh_cap qh_ok for t t'
  by unfold_locales
    (auto simp: qh_items_le_cap qh_send_ok qh_send_full qh_recv_empty qh_recv_Cons qh_send_inv qh_recv_inv)

lemma csp_queue_size_items [queue_simps]: "csp_queue_size h = length (qh_items h)"
  by (cases h) (auto simp: csp_queue_size_def uxQueueMessagesWaiting_def qh_items_def)

lemma csp_queue_isr_eq [queue_simps]:
  "csp_queue_size_isr h = csp_queue_size h"
  "csp_queue_dequeue_isr h = csp_queue_dequeue h 0"
  "csp_queue_enqueue_isr h v = csp_queue_enqueue h v 0"
  by (simp_all add: csp_queue_size_isr_def csp_queue_size_def csp_queue_dequeue_isr_def
      csp_queue_dequeue_def csp_queue_enqueue_isr_def csp_queue_enqueue_def)

lemma qh_create:
  assumes "0 < n" and "0 < sz" and "length buf = n"
  shows "qh_ok (csp_queue_create_static n sz (Some buf) (Some q)) \<and>
         qh_items (csp_queue_create_static n sz (Some buf) (Some q)) = [] \<and>
         qh_cap (csp_queue_create_static n sz (Some buf) (Some q)) = n"
  using assms by (simp add: csp_queue_create_static_def xQueueCreateStatic_def qh_ok_def q_ok_def
      qh_items_def q_list_def qh_cap_def)

lemma qh_empty: "qh_ok h \<Longrightarrow> qh_ok (csp_queue_empty h) \<and> qh_items (csp_queue_empty h) = []
    \<and> qh_cap (csp_queue_empty h) = qh_cap h"
  by (cases h) (auto simp: csp_queue_empty_def xQueueReset_def qh_ok_def q_ok_def qh_items_def
      q_list_def qh_cap_def)

lemmas queue_inv_simps [queue_simps] =
  rq.send_items rq.send_result rq.recv_items rq.recv_result rq.send_inv rq.recv_inv rq.recv_empty

lemma CSP_QUEUE_OK_neq [simp]: "CSP_QUEUE_OK \<noteq> CSP_QUEUE_ERROR" "CSP_QUEUE_ERROR \<noteq> CSP_QUEUE_OK"
  by (simp_all add: CSP_QUEUE_OK_def CSP_QUEUE_ERROR_def)

section \<open>First in, first out\<close>

definition empty_queue :: "'a static_queue" where
  "empty_queue = \<lparr>pucBuffer = [], uxLength = 0, uxItemSize = 0, head = 0, tail = 0, count = 0\<rparr>"

text \<open>A run of enqueues, counting the accepted items, and a run of dequeues.\<close>

fun enqueue_all :: "'a queue_handle \<Rightarrow> 'a list \<Rightarrow> 'a queue_handle" where
  "enqueue_all h [] = h"
| "enqueue_all h (x # xs) = enqueue_all (snd (csp_queue_enqueue h x 0)) xs"

fun dequeue_n :: "nat \<Rightarrow> 'a queue_handle \<Rightarrow> 'a list \<times> 'a queue_handle" where
  "dequeue_n 0 h = ([], h)"
| "dequeue_n (Suc n) h =
     (case csp_queue_dequeue h 0 of
        (None, h') \<Rightarrow> ([], h')
      | (Some x, h') \<Rightarrow> (case dequeue_n n h' of (xs, h'') \<Rightarrow> (x # xs, h'')))"

lemma enqueue_all_rq: "enqueue_all h xs = rq.send_all 0 h xs"
  by (induction xs arbitrary: h) simp_all

lemma dequeue_n_rq: "dequeue_n n h = rq.recv_n 0 n h"
  by (induction n arbitrary: h) (simp_all split: option.split prod.split)

text \<open>
  \<^bold>\<open>Claim C22.\<close> A ring buffer of \<open>n\<close> slots, created over any storage and used through the wrapper, is a
  bounded FIFO wherever its indices have wrapped to: after \<open>k\<close> items went in and out again, sending
  \<open>xs\<close> and receiving yields exactly the first \<open>n\<close> items of \<open>xs\<close>, in order, and leaves the queue empty.
\<close>

theorem queue_fifo:
  assumes n: "0 < n" "0 < sz" "length buf = n"
    and h0: "h0 = csp_queue_create_static n sz (Some buf) (Some q)"
    and h1: "h1 = snd (dequeue_n (length ws) (enqueue_all h0 ws))" and ws: "length ws \<le> n"
  shows "fst (dequeue_n n (enqueue_all h1 xs)) = take n xs
    \<and> csp_queue_size (snd (dequeue_n n (enqueue_all h1 xs))) = 0"
proof -
  have c: "qh_ok h0" "qh_items h0 = []" "qh_cap h0 = n"
    using qh_create [OF n] by (simp_all add: h0)
  let ?s = "enqueue_all h0 ws"
  have s: "qh_ok ?s" "qh_cap ?s = n" "qh_items ?s = ws"
    using c ws rq.send_all_inv [OF c(1), of 0 ws] rq.send_all_items [OF c(1), of 0 ws]
    by (simp_all add: enqueue_all_rq)
  have r: "qh_ok h1" "qh_items h1 = []"
    using rq.recv_n_items [OF s(1), of 0 "length ws"] s(3) by (simp_all add: h1 dequeue_n_rq)
  have cap: "qh_cap h1 = n"
    using rq.recv_n_cap [OF s(1), of 0 "length ws"] s(2) by (simp add: h1 dequeue_n_rq)
  let ?t = "enqueue_all h1 xs"
  have t: "qh_ok ?t" "qh_items ?t = take n xs"
    using r cap rq.send_all_inv [OF r(1), of 0 xs] rq.send_all_items [OF r(1), of 0 xs]
    by (simp_all add: enqueue_all_rq)
  show ?thesis
    using rq.recv_n_items [OF t(1), of 0 n] t(2) by (simp add: dequeue_n_rq csp_queue_size_items)
qed

theorem queue_fifo_witness:
  "fst (dequeue_n 2 (enqueue_all (snd (dequeue_n 1 (enqueue_all
     (csp_queue_create_static 2 4 (Some [0, 0 :: nat]) (Some empty_queue)) [7]))) [1, 2, 3])) = [1, 2]"
  using conjunct1 [OF queue_fifo [of 2 4 "[0, 0 :: nat]" _ empty_queue _ "[7]" "[1, 2, 3]", OF _ _ _ refl refl]]
  by simp

end
