(* ===== verification/Buffer.thy ===== *)
theory Buffer
  imports Mpmc_Queue Csp_Id "HOL-Library.Multiset"
begin

text \<open>
  The packet buffer pool (\<open>src/csp_buffer.c\<close>): eight reference-counted buffers, the free ones queued in
  \<open>csp_buffers\<close>. A packet pointer is the index of its buffer, so \<open>CONTAINER_OF\<close> is the index itself; a
  corrupted header shows as \<open>skbf_addr\<close> different from the index. The locale \<open>buffer_pool\<close> states the
  contract as ownership of references: \<open>inv M w\<close> says that the references handed out are exactly \<open>M\<close>.
\<close>

section \<open>State and operations\<close>

record csp_skbf =
  refcount :: c_uint
  skbf_addr :: nat
  skbf_data :: csp_packet

record csp_bufs = csp_sys +
  pool :: "nat \<Rightarrow> csp_skbf"
  csp_buffers :: "nat queue_handle"

definition ptr_size :: nat where "ptr_size = 4"

definition pkt :: "('a) csp_bufs_scheme \<Rightarrow> nat \<Rightarrow> csp_packet" where
  "pkt w b = skbf_data (pool w b)"

definition set_pkt :: "nat \<Rightarrow> csp_packet \<Rightarrow> ('a) csp_bufs_scheme \<Rightarrow> ('a) csp_bufs_scheme" where
  "set_pkt b p w = w\<lparr>pool := (pool w)(b := (pool w b)\<lparr>skbf_data := p\<rparr>)\<rparr>"

definition set_errno :: "u8 \<Rightarrow> ('a) csp_sys_scheme \<Rightarrow> ('a) csp_sys_scheme" where
  "set_errno e w = w\<lparr>dbg_errno := e\<rparr>"

text \<open>The pool is not initialised memory: \<open>storage\<close> is what the queue storage holds at boot.\<close>

fun buffer_init_loop :: "nat list \<Rightarrow> ('a) csp_bufs_scheme \<Rightarrow> ('a) csp_bufs_scheme" where
  "buffer_init_loop [] w = w"
| "buffer_init_loop (i # is) w =
     (let w1 = w\<lparr>pool := (pool w)(i := (pool w i)\<lparr>skbf_addr := i\<rparr>)\<rparr>
      in buffer_init_loop is (w1\<lparr>csp_buffers := snd (csp_queue_enqueue (csp_buffers w1) i 0)\<rparr>))"

definition csp_buffer_init ::
  "nat list \<Rightarrow> nat static_queue \<Rightarrow> ('a) csp_bufs_scheme \<Rightarrow> ('a) csp_bufs_scheme" where
  "csp_buffer_init storage q w =
     buffer_init_loop [0..<CSP_BUFFER_COUNT]
       (w\<lparr>csp_buffers := csp_queue_create_static CSP_BUFFER_COUNT ptr_size (Some storage) (Some q)\<rparr>)"

definition packet_zero :: csp_packet where
  "packet_zero = \<lparr>timestamp_tx = 0, conn_ptr = None, rx_count = 0, remain = 0, cfpid = 0, last_used = 0,
     frame_begin = Own 0, frame_length = 0, p_length = 0, p_id = csp_id_zero, next_ptr = None,
     area = replicate AREA_SIZE 0\<rparr>"

text \<open>\<open>CSP_BUFFER_ZERO_CLEAR\<close> is set: the packet is cleared, then its fields are assigned.\<close>

definition csp_packet_init :: "csp_packet \<Rightarrow> csp_packet" where
  "csp_packet_init p =
     packet_zero\<lparr>p_length := 0, frame_begin := Own DATA_OFF, frame_length := 0,
                 p_id := csp_id_clear (p_id packet_zero)\<rparr>"

definition csp_buffer_get_actual ::
  "nat \<Rightarrow> bool \<Rightarrow> ('a) csp_bufs_scheme \<Rightarrow> nat option \<times> ('a) csp_bufs_scheme" where
  "csp_buffer_get_actual reserve isr w =
     (let remain = (if isr then csp_queue_size_isr (csp_buffers w) else csp_queue_size (csp_buffers w))
      in if remain < reserve then (None, w)
         else case (if isr then csp_queue_dequeue_isr (csp_buffers w) else csp_queue_dequeue (csp_buffers w) 0) of
           (None, q) \<Rightarrow> (None, w\<lparr>csp_buffers := q, dbg_buffer_out := dbg_buffer_out w + 1\<rparr>)
         | (Some b, q) \<Rightarrow>
             let w = w\<lparr>csp_buffers := q\<rparr>
             in if skbf_addr (pool w b) \<noteq> b then (None, set_errno CSP_DBG_ERR_CORRUPT_BUFFER w)
                else (Some b, w\<lparr>pool := (pool w)(b :=
                        (pool w b)\<lparr>refcount := 1, skbf_data := csp_packet_init (pkt w b)\<rparr>)\<rparr>))"

text \<open>The two frees differ in the enqueue operation only.\<close>

definition buffer_free_gen ::
  "(nat queue_handle \<Rightarrow> nat \<Rightarrow> int \<times> nat queue_handle) \<Rightarrow> nat option \<Rightarrow>
     ('a) csp_bufs_scheme \<Rightarrow> ('a) csp_bufs_scheme" where
  "buffer_free_gen enq packet w =
     (case packet of
        None \<Rightarrow> w
      | Some b \<Rightarrow>
          if skbf_addr (pool w b) \<noteq> b then set_errno CSP_DBG_ERR_CORRUPT_BUFFER w
          else if refcount (pool w b) = 0 then set_errno CSP_DBG_ERR_ALREADY_FREE w
          else let w = w\<lparr>pool := (pool w)(b := (pool w b)\<lparr>refcount := refcount (pool w b) - 1\<rparr>)\<rparr>
               in if 0 < refcount (pool w b) then set_errno CSP_DBG_ERR_REFCOUNT w
                  else w\<lparr>csp_buffers := snd (enq (csp_buffers w) b)\<rparr>)"

definition csp_buffer_free_isr :: "nat option \<Rightarrow> ('a) csp_bufs_scheme \<Rightarrow> ('a) csp_bufs_scheme" where
  "csp_buffer_free_isr packet w = buffer_free_gen csp_queue_enqueue_isr packet w"

definition csp_buffer_free :: "nat option \<Rightarrow> ('a) csp_bufs_scheme \<Rightarrow> ('a) csp_bufs_scheme" where
  "csp_buffer_free packet w = buffer_free_gen (\<lambda>q b. csp_queue_enqueue q b 0) packet w"

text \<open>
  A whole packet is copied, its \<open>frame_begin\<close> pointer included: unless source and destination are the
  same buffer, a pointer into the source stays a pointer into the source.
\<close>

definition relocate :: "nat \<Rightarrow> nat \<Rightarrow> frame_ptr \<Rightarrow> frame_ptr" where
  "relocate s d f =
     (case f of
        Own off \<Rightarrow> (if s = d then Own off else Alias s off)
      | Alias b off \<Rightarrow> (if b = d then Own off else Alias b off))"

definition csp_buffer_copy ::
  "nat option \<Rightarrow> nat option \<Rightarrow> ('a) csp_bufs_scheme \<Rightarrow> ('a) csp_bufs_scheme" where
  "csp_buffer_copy source target w =
     (case (source, target) of
        (Some s, Some d) \<Rightarrow>
          set_pkt d ((pkt w s)\<lparr>frame_begin := relocate s d (frame_begin (pkt w s))\<rparr>) w
      | _ \<Rightarrow> w)"

definition csp_buffer_refc_inc :: "nat option \<Rightarrow> ('a) csp_bufs_scheme \<Rightarrow> ('a) csp_bufs_scheme" where
  "csp_buffer_refc_inc buffer w =
     (case buffer of
        None \<Rightarrow> set_errno CSP_DBG_ERR_INVALID_POINTER w
      | Some b \<Rightarrow>
          if skbf_addr (pool w b) \<noteq> b then set_errno CSP_DBG_ERR_CORRUPT_BUFFER w
          else w\<lparr>pool := (pool w)(b := (pool w b)\<lparr>refcount := refcount (pool w b) + 1\<rparr>)\<rparr>)"

definition csp_buffer_remaining :: "('a) csp_bufs_scheme \<Rightarrow> nat" where
  "csp_buffer_remaining w = csp_queue_size (csp_buffers w)"

text \<open>Running out of buffers here calls \<open>csp_panic\<close> and then loops for ever: \<open>None\<close>, no return.\<close>

definition csp_buffer_get_always :: "('a) csp_bufs_scheme \<Rightarrow> (nat \<times> ('a) csp_bufs_scheme) option" where
  "csp_buffer_get_always w =
     (case csp_buffer_get_actual 0 False w of (None, _) \<Rightarrow> None | (Some b, w') \<Rightarrow> Some (b, w'))"

definition csp_buffer_get_always_isr :: "('a) csp_bufs_scheme \<Rightarrow> (nat \<times> ('a) csp_bufs_scheme) option" where
  "csp_buffer_get_always_isr w =
     (case csp_buffer_get_actual 0 True w of (None, _) \<Rightarrow> None | (Some b, w') \<Rightarrow> Some (b, w'))"

definition csp_buffer_get :: "('a) csp_bufs_scheme \<Rightarrow> nat option \<times> ('a) csp_bufs_scheme" where
  "csp_buffer_get w = csp_buffer_get_actual 2 False w"

definition csp_buffer_get_isr :: "('a) csp_bufs_scheme \<Rightarrow> nat option \<times> ('a) csp_bufs_scheme" where
  "csp_buffer_get_isr w = csp_buffer_get_actual 2 True w"

definition csp_buffer_clone ::
  "nat option \<Rightarrow> ('a) csp_bufs_scheme \<Rightarrow> nat option \<times> ('a) csp_bufs_scheme" where
  "csp_buffer_clone packet w =
     (case packet of
        None \<Rightarrow> (None, w)
      | Some b \<Rightarrow> (case csp_buffer_get w of (clone, w') \<Rightarrow> (clone, csp_buffer_copy packet clone w')))"

section \<open>The ownership contract\<close>

text \<open>
  A client owns a multiset of references. Getting a buffer adds one reference to a buffer nobody
  referenced; freeing gives one back; a clone is a fresh buffer. The lemmas are what clients use.
\<close>

locale buffer_pool =
  fixes get :: "'w \<Rightarrow> nat option \<times> 'w"
    and free :: "nat option \<Rightarrow> 'w \<Rightarrow> 'w"
    and inc :: "nat option \<Rightarrow> 'w \<Rightarrow> 'w"
    and clone :: "nat option \<Rightarrow> 'w \<Rightarrow> nat option \<times> 'w"
    and inv :: "nat multiset \<Rightarrow> 'w \<Rightarrow> bool"
  assumes get_Some: "inv M w \<Longrightarrow> get w = (Some b, w') \<Longrightarrow> b \<notin># M \<and> inv (add_mset b M) w'"
    and get_None: "inv M w \<Longrightarrow> get w = (None, w') \<Longrightarrow> inv M w'"
    and free_None: "free None w = w"
    and free_Some: "inv (add_mset b M) w \<Longrightarrow> inv M (free (Some b) w)"
    and inc_Some: "inv (add_mset b M) w \<Longrightarrow> Multiset.count M b < 65534 \<Longrightarrow>
        inv (add_mset b (add_mset b M)) (inc (Some b) w)"
    and clone_Some: "inv M w \<Longrightarrow> b \<in># M \<Longrightarrow> clone (Some b) w = (Some c, w') \<Longrightarrow>
        c \<notin># M \<and> inv (add_mset c M) w'"
    and clone_None: "inv M w \<Longrightarrow> b \<in># M \<Longrightarrow> clone (Some b) w = (None, w') \<Longrightarrow> inv M w'"
begin

fun free_all :: "nat list \<Rightarrow> 'w \<Rightarrow> 'w" where
  "free_all [] w = w"
| "free_all (b # bs) w = free_all bs (free (Some b) w)"

lemma free_all_inv: "inv (mset bs + M) w \<Longrightarrow> inv M (free_all bs w)"
  by (induction bs arbitrary: w) (simp_all add: free_Some)

lemma get_free: "inv M w \<Longrightarrow> get w = (Some b, w') \<Longrightarrow> inv M (free (Some b) w')"
  using get_Some free_Some by blast

lemma clone_free:
  "inv M w \<Longrightarrow> b \<in># M \<Longrightarrow> clone (Some b) w = (Some c, w') \<Longrightarrow> inv M (free (Some c) w')"
  using clone_Some free_Some by blast

lemma inc_free:
  "inv (add_mset b M) w \<Longrightarrow> Multiset.count M b < 65534 \<Longrightarrow>
     inv (add_mset b M) (free (Some b) (inc (Some b) w))"
  using inc_Some free_Some by blast

lemma clone_opt:
  assumes "inv M w" and "b \<in># M" and "clone (Some b) w = (c, w')"
  shows "inv (case c of None \<Rightarrow> M | Some c' \<Rightarrow> add_mset c' M) w'"
  using clone_Some [OF assms(1,2)] clone_None [OF assms(1,2)] assms(3) by (cases c) simp_all

end

section \<open>The pool implements the contract\<close>

definition free_list :: "('a) csp_bufs_scheme \<Rightarrow> nat list" where
  "free_list w = qh_items (csp_buffers w)"

definition bufs_inv :: "nat multiset \<Rightarrow> ('a) csp_bufs_scheme \<Rightarrow> bool" where
  "bufs_inv M w \<longleftrightarrow>
     qh_ok (csp_buffers w) \<and> qh_cap (csp_buffers w) = CSP_BUFFER_COUNT \<and>
     distinct (free_list w) \<and>
     set (free_list w) = {b. b < CSP_BUFFER_COUNT \<and> b \<notin># M} \<and>
     (\<forall>b < CSP_BUFFER_COUNT. skbf_addr (pool w b) = b \<and> unat (refcount (pool w b)) = Multiset.count M b) \<and>
     (\<forall>b \<in># M. b < CSP_BUFFER_COUNT \<and> packet_ok (pkt w b))"

lemma bufs_invD:
  assumes "bufs_inv M w"
  shows "qh_ok (csp_buffers w)" "qh_cap (csp_buffers w) = 8" "distinct (free_list w)"
    and "\<And>b. b \<in> set (free_list w) \<longleftrightarrow> b < 8 \<and> b \<notin># M"
    and "\<And>b. b < 8 \<Longrightarrow> skbf_addr (pool w b) = b"
    and "\<And>b. b < 8 \<Longrightarrow> unat (refcount (pool w b)) = Multiset.count M b"
    and "\<And>b. b \<in># M \<Longrightarrow> b < 8" and "\<And>b. b \<in># M \<Longrightarrow> packet_ok (pkt w b)"
  using assms by (auto simp: bufs_inv_def)

lemma packet_ok_init [simp]: "packet_ok (csp_packet_init p)"
  by (simp add: csp_packet_init_def packet_ok_def packet_zero_def)

lemma bufs_inv_set_pkt: "bufs_inv M w \<Longrightarrow> packet_ok p \<Longrightarrow> bufs_inv M (set_pkt b p w)"
  by (auto simp: bufs_inv_def set_pkt_def free_list_def pkt_def)

lemma bufs_inv_errno [simp]: "bufs_inv M (set_errno e w) = bufs_inv M w"
  by (simp add: bufs_inv_def set_errno_def free_list_def pkt_def)

text \<open>The buffers in use, the free ones and the references are three views of one partition.\<close>

lemma get_actual_cases:
  assumes inv: "bufs_inv M w"
  shows "csp_buffer_get_actual r isr w =
     (if length (free_list w) < r then (None, w)
      else case free_list w of
        [] \<Rightarrow> (None, w\<lparr>dbg_buffer_out := dbg_buffer_out w + 1\<rparr>)
      | b # bs \<Rightarrow> (Some b, w\<lparr>csp_buffers := snd (csp_queue_dequeue (csp_buffers w) 0),
                  pool := (pool w)(b := (pool w b)\<lparr>refcount := 1, skbf_data := csp_packet_init (pkt w b)\<rparr>)\<rparr>))"
proof (cases "free_list w")
  case Nil
  then have "csp_queue_dequeue (csp_buffers w) 0 = (None, csp_buffers w)"
    using bufs_invD(1) [OF inv] by (simp add: free_list_def rq.recv_empty)
  then show ?thesis
    by (simp add: csp_buffer_get_actual_def queue_simps free_list_def Nil [unfolded free_list_def])
next
  case (Cons b bs)
  then have b: "b < 8" using bufs_invD(4) [OF inv, of b] by simp
  have "fst (csp_queue_dequeue (csp_buffers w) 0) = Some b"
    using bufs_invD(1) [OF inv] Cons by (simp add: rq.recv_result free_list_def)
  then obtain q where q: "csp_queue_dequeue (csp_buffers w) 0 = (Some b, q)"
    by (cases "csp_queue_dequeue (csp_buffers w) 0") simp
  show ?thesis
    using bufs_invD(5) [OF inv b] Cons
    by (simp add: csp_buffer_get_actual_def queue_simps q free_list_def pkt_def)
qed

lemma get_actual_Some:
  assumes inv: "bufs_inv M w" and get: "csp_buffer_get_actual r isr w = (Some b, w')"
  shows "b \<notin># M" and "bufs_inv (add_mset b M) w'" and "b < 8" and "pkt w' b = csp_packet_init (pkt w b)"
    and "free_list w = b # free_list w'" and "\<And>c. c \<noteq> b \<Longrightarrow> pool w' c = pool w c"
proof -
  note I = bufs_invD [OF inv]
  obtain bs where fl: "free_list w = b # bs" and
    w': "w' = w\<lparr>csp_buffers := snd (csp_queue_dequeue (csp_buffers w) 0),
            pool := (pool w)(b := (pool w b)\<lparr>refcount := 1, skbf_data := csp_packet_init (pkt w b)\<rparr>)\<rparr>"
    using get unfolding get_actual_cases [OF inv] by (auto split: if_splits list.splits)
  show b: "b < 8" and nb: "b \<notin># M" using I(4) [of b] fl by auto
  show "pkt w' b = csp_packet_init (pkt w b)" by (simp add: w' pkt_def)
  show pc: "\<And>c. c \<noteq> b \<Longrightarrow> pool w' c = pool w c" by (simp add: w')
  have fl': "free_list w' = bs"
    using I(1) fl by (simp add: w' free_list_def rq.recv_items)
  then show "free_list w = b # free_list w'" using fl by simp
  have "set (free_list w') = {c. c < 8 \<and> c \<notin># add_mset b M}"
    using I(3,4) fl fl' by auto
  moreover have "unat (refcount (pool w' c)) = Multiset.count (add_mset b M) c" if "c < 8" for c
    using I(6) [OF that] nb by (auto simp: w' count_eq_zero_iff)
  ultimately show "bufs_inv (add_mset b M) w'"
    using I b fl fl' by (auto simp: bufs_inv_def w' rq.recv_inv pkt_def)
qed

lemma get_actual_None:
  assumes inv: "bufs_inv M w" and get: "csp_buffer_get_actual r isr w = (None, w')"
  shows "bufs_inv M w'" and "length (free_list w) < max r 1" and "free_list w' = free_list w"
    and "pool w' = pool w"
  using get inv unfolding get_actual_cases [OF inv]
  by (auto simp: bufs_inv_def free_list_def pkt_def split: if_splits list.splits)

lemma csp_buffer_free_eq_isr: "csp_buffer_free_isr p w = csp_buffer_free p w"
proof -
  have "csp_queue_enqueue_isr = (\<lambda>q b. csp_queue_enqueue q (b :: nat) 0)"
    by (intro ext) (simp add: queue_simps)
  then show ?thesis by (simp add: csp_buffer_free_isr_def csp_buffer_free_def)
qed

lemma free_last:
  assumes inv: "bufs_inv (add_mset b M) w" and last: "b \<notin># M"
  shows "csp_buffer_free (Some b) w =
           w\<lparr>pool := (pool w)(b := (pool w b)\<lparr>refcount := 0\<rparr>),
             csp_buffers := snd (csp_queue_enqueue (csp_buffers w) b 0)\<rparr>"
    and "free_list (csp_buffer_free (Some b) w) = free_list w @ [b]"
proof -
  note I = bufs_invD [OF inv]
  have b: "b < 8" using I(7) by simp
  have "Multiset.count M b = 0" using last by (simp add: count_eq_zero_iff)
  then have "unat (refcount (pool w b)) = 1" using I(6) [OF b] by simp
  then have rc: "refcount (pool w b) = 1" by (simp add: word_unat_eq_iff)
  show eq: "csp_buffer_free (Some b) w = w\<lparr>pool := (pool w)(b := (pool w b)\<lparr>refcount := 0\<rparr>),
             csp_buffers := snd (csp_queue_enqueue (csp_buffers w) b 0)\<rparr>"
    using I(5) [OF b] rc by (simp add: csp_buffer_free_def buffer_free_gen_def)
  have "c \<in> {0..<8} - {b}" if "c \<in> set (free_list w)" for c
    using I(4) [of c] that by simp
  then have "set (free_list w) \<subseteq> {0..<8} - {b}" by (rule subsetI)
  then have "card (set (free_list w)) \<le> card ({0..<8} - {b})" by (rule card_mono [rotated]) simp
  then have "length (free_list w) < 8"
    using distinct_card [OF I(3)] b by simp
  then show "free_list (csp_buffer_free (Some b) w) = free_list w @ [b]"
    using I(1,2) by (simp add: eq free_list_def rq.send_items)
qed

lemma free_shared:
  assumes inv: "bufs_inv (add_mset b M) w" and sh: "b \<in># M"
  shows "csp_buffer_free (Some b) w =
     set_errno CSP_DBG_ERR_REFCOUNT
       (w\<lparr>pool := (pool w)(b := (pool w b)\<lparr>refcount := refcount (pool w b) - 1\<rparr>)\<rparr>)"
    and "unat (refcount (pool w b) - 1) = Multiset.count M b"
proof -
  note I = bufs_invD [OF inv]
  have b: "b < 8" using I(7) by simp
  have rc: "unat (refcount (pool w b)) = Suc (Multiset.count M b)" using I(6) [OF b] by simp
  then have ne: "refcount (pool w b) \<noteq> 0" by auto
  then show u: "unat (refcount (pool w b) - 1) = Multiset.count M b"
    using rc by (simp add: unat_minus_one)
  have "0 < Multiset.count M b" using sh by simp
  then have "0 < refcount (pool w b) - 1" using u by (simp add: word_less_nat_alt)
  then show "csp_buffer_free (Some b) w =
     set_errno CSP_DBG_ERR_REFCOUNT
       (w\<lparr>pool := (pool w)(b := (pool w b)\<lparr>refcount := refcount (pool w b) - 1\<rparr>)\<rparr>)"
    using I(5) [OF b] ne by (simp add: csp_buffer_free_def buffer_free_gen_def)
qed

lemma bufs_inv_free:
  assumes inv: "bufs_inv (add_mset b M) w"
  shows "bufs_inv M (csp_buffer_free (Some b) w)"
proof (cases "b \<in># M")
  case True
  note I = bufs_invD [OF inv] and f = free_shared [OF inv True]
  show ?thesis unfolding f(1) bufs_inv_errno
    using I True f(2) by (auto simp: bufs_inv_def free_list_def pkt_def)
next
  case False
  note I = bufs_invD [OF inv] and f = free_last [OF inv False]
  have b: "b < 8" using I(7) by simp
  have "b \<notin> set (free_list w)" using I(4) by simp
  then show ?thesis
    using I False b f(2) unfolding bufs_inv_def
    by (auto simp: f(1) rq.send_inv pkt_def count_eq_zero_iff split: if_splits)
qed

lemma bufs_inv_inc:
  assumes inv: "bufs_inv (add_mset b M) w" and c: "Multiset.count M b < 65534"
  shows "bufs_inv (add_mset b (add_mset b M)) (csp_buffer_refc_inc (Some b) w)"
proof -
  note I = bufs_invD [OF inv]
  have b: "b < 8" using I(7) by simp
  have "unat (refcount (pool w b) + 1) = Suc (Suc (Multiset.count M b))"
    using I(6) [OF b] c by (simp add: unat_word_ariths)
  then show ?thesis
    using I b by (auto simp: bufs_inv_def csp_buffer_refc_inc_def free_list_def pkt_def)
qed

lemma clone_result:
  assumes inv: "bufs_inv M w" and b: "b \<in># M" and cl: "csp_buffer_clone (Some b) w = (c, w')"
  shows "case c of
      None \<Rightarrow> bufs_inv M w' \<and> pool w' = pool w
    | Some c' \<Rightarrow> c' \<notin># M \<and> bufs_inv (add_mset c' M) w' \<and>
        pkt w' c' = (pkt w b)\<lparr>frame_begin := relocate b c' (frame_begin (pkt w b))\<rparr> \<and>
        (\<forall>d. d \<noteq> c' \<longrightarrow> pool w' d = pool w d)"
proof -
  obtain g w1 where g: "csp_buffer_get w = (g, w1)" by (cases "csp_buffer_get w")
  then have c: "c = g" and w': "w' = csp_buffer_copy (Some b) g w1"
    using cl by (auto simp: csp_buffer_clone_def)
  show ?thesis
  proof (cases g)
    case None
    then show ?thesis using get_actual_None [OF inv, of 2 False w1] g
      by (simp add: c w' csp_buffer_get_def csp_buffer_copy_def)
  next
    case (Some c')
    note G = get_actual_Some [OF inv, of 2 False c' w1]
    have get: "csp_buffer_get_actual 2 False w = (Some c', w1)"
      using g Some by (simp add: csp_buffer_get_def)
    have ne: "b \<noteq> c'" using G(1) [OF get] b by auto
    then have pb: "pkt w1 b = pkt w b" using G(6) [OF get] by (simp add: pkt_def)
    have "packet_ok (pkt w b)" using bufs_invD(8) [OF inv b] .
    then have "packet_ok ((pkt w1 b)\<lparr>frame_begin := relocate b c' (frame_begin (pkt w1 b))\<rparr>)"
      by (simp add: pb packet_ok_def)
    then have "bufs_inv (add_mset c' M) w'"
      using G(2) [OF get] by (simp add: w' Some csp_buffer_copy_def bufs_inv_set_pkt)
    then show ?thesis
      using G(1,6) [OF get] Some pb by (auto simp: c w' csp_buffer_copy_def set_pkt_def pkt_def)
  qed
qed

interpretation bp: buffer_pool csp_buffer_get csp_buffer_free csp_buffer_refc_inc csp_buffer_clone bufs_inv
proof unfold_locales
  fix M :: "nat multiset" and w w' :: "'a csp_bufs_scheme" and b c
  show "bufs_inv M w \<Longrightarrow> csp_buffer_get w = (Some b, w') \<Longrightarrow> b \<notin># M \<and> bufs_inv (add_mset b M) w'"
    using get_actual_Some(1,2) [of M w 2 False b w'] by (simp add: csp_buffer_get_def)
  show "bufs_inv M w \<Longrightarrow> csp_buffer_get w = (None, w') \<Longrightarrow> bufs_inv M w'"
    using get_actual_None(1) [of M w 2 False w'] by (simp add: csp_buffer_get_def)
  show "csp_buffer_free None w = w" by (simp add: csp_buffer_free_def buffer_free_gen_def)
  show "bufs_inv (add_mset b M) w \<Longrightarrow> bufs_inv M (csp_buffer_free (Some b) w)"
    by (rule bufs_inv_free)
  show "bufs_inv (add_mset b M) w \<Longrightarrow> Multiset.count M b < 65534 \<Longrightarrow>
      bufs_inv (add_mset b (add_mset b M)) (csp_buffer_refc_inc (Some b) w)"
    by (rule bufs_inv_inc)
  show "bufs_inv M w \<Longrightarrow> b \<in># M \<Longrightarrow> csp_buffer_clone (Some b) w = (Some c, w') \<Longrightarrow>
      c \<notin># M \<and> bufs_inv (add_mset c M) w'"
    using clone_result [of M w b "Some c" w'] by simp
  show "bufs_inv M w \<Longrightarrow> b \<in># M \<Longrightarrow> csp_buffer_clone (Some b) w = (None, w') \<Longrightarrow> bufs_inv M w'"
    using clone_result [of M w b None w'] by simp
qed

section \<open>Start-up\<close>

lemma buffer_init_loop_props:
  assumes "qh_ok (csp_buffers w)" and "qh_items (csp_buffers w) = xs" and "qh_cap (csp_buffers w) = length xs + length is"
  shows "qh_ok (csp_buffers (buffer_init_loop is w)) \<and> qh_cap (csp_buffers (buffer_init_loop is w)) = length xs + length is
    \<and> qh_items (csp_buffers (buffer_init_loop is w)) = xs @ is
    \<and> (\<forall>b. refcount (pool (buffer_init_loop is w) b) = refcount (pool w b))
    \<and> (\<forall>b. skbf_addr (pool (buffer_init_loop is w) b) = (if b \<in> set is then b else skbf_addr (pool w b)))"
  using assms
proof (induction "is" arbitrary: w xs)
  case Nil
  then show ?case by simp
next
  case (Cons i "is")
  let ?w = "w\<lparr>pool := (pool w)(i := (pool w i)\<lparr>skbf_addr := i\<rparr>),
              csp_buffers := snd (csp_queue_enqueue (csp_buffers w) i 0)\<rparr>"
  have "qh_ok (csp_buffers ?w) \<and> qh_items (csp_buffers ?w) = xs @ [i]
     \<and> qh_cap (csp_buffers ?w) = length (xs @ [i]) + length is"
    using Cons.prems by (simp add: rq.send_inv rq.send_items)
  then show ?case using Cons.IH [of ?w "xs @ [i]"] by (auto simp: Let_def)
qed

text \<open>
  After \<open>csp_buffer_init\<close> the pool is complete and nobody owns a buffer, whatever the queue storage
  held. The reference counts of the pool are not written; the contract starts from zero counts.
\<close>

lemma csp_buffer_init_inv:
  assumes "length storage = CSP_BUFFER_COUNT" and "\<forall>b < CSP_BUFFER_COUNT. refcount (pool w b) = 0"
  shows "bufs_inv {#} (csp_buffer_init storage q w)" and "free_list (csp_buffer_init storage q w) = [0..<CSP_BUFFER_COUNT]"
proof -
  let ?w = "w\<lparr>csp_buffers := csp_queue_create_static CSP_BUFFER_COUNT ptr_size (Some storage) (Some q)\<rparr>"
  have c: "qh_ok (csp_buffers ?w)" "qh_items (csp_buffers ?w) = []" "qh_cap (csp_buffers ?w) = length [] + length [0..<8]"
    using qh_create [of 8 ptr_size storage q] assms(1) by (simp_all add: ptr_size_def)
  note p = buffer_init_loop_props [OF c]
  show fl: "free_list (csp_buffer_init storage q w) = [0..<8]"
    using p by (simp only: free_list_def csp_buffer_init_def) simp
  show "bufs_inv {#} (csp_buffer_init storage q w)"
    using p assms(2) fl by (auto simp: bufs_inv_def csp_buffer_init_def)
qed

section \<open>Any sequence of operations\<close>

text \<open>
  One step of the clients of the pool, with the references they hold. A client frees what it holds, and
  may also free a buffer nobody holds (a double free).
\<close>

inductive pool_step :: "nat multiset \<times> csp_bufs \<Rightarrow> nat multiset \<times> csp_bufs \<Rightarrow> bool" where
  get: "csp_buffer_get_actual r isr w = (Some b, w') \<Longrightarrow> pool_step (M, w) (add_mset b M, w')"
| get_fails: "csp_buffer_get_actual r isr w = (None, w') \<Longrightarrow> pool_step (M, w) (M, w')"
| free: "b \<in># M \<Longrightarrow> pool_step (M, w) (M - {#b#}, csp_buffer_free (Some b) w)"
| free_isr: "b \<in># M \<Longrightarrow> pool_step (M, w) (M - {#b#}, csp_buffer_free_isr (Some b) w)"
| double_free: "b < CSP_BUFFER_COUNT \<Longrightarrow> b \<notin># M \<Longrightarrow> pool_step (M, w) (M, csp_buffer_free (Some b) w)"
| clone: "b \<in># M \<Longrightarrow> csp_buffer_clone (Some b) w = (Some c, w') \<Longrightarrow> pool_step (M, w) (add_mset c M, w')"
| clone_fails: "b \<in># M \<Longrightarrow> csp_buffer_clone (Some b) w = (None, w') \<Longrightarrow> pool_step (M, w) (M, w')"
| refc_inc: "b \<in># M \<Longrightarrow> Multiset.count M b < 65535 \<Longrightarrow>
    pool_step (M, w) (add_mset b M, csp_buffer_refc_inc (Some b) w)"
| write_packet: "b \<in># M \<Longrightarrow> packet_ok p \<Longrightarrow> pool_step (M, w) (M, set_pkt b p w)"

inductive pool_reach :: "nat multiset \<times> csp_bufs \<Rightarrow> nat multiset \<times> csp_bufs \<Rightarrow> bool" where
  pool_refl: "pool_reach s s"
| pool_more: "pool_reach s t \<Longrightarrow> pool_step t u \<Longrightarrow> pool_reach s u"

inductive_cases pool_stepE: "pool_step (M, w) t"

lemma double_free_refused:
  assumes inv: "bufs_inv M w" and b: "b < CSP_BUFFER_COUNT" and nb: "b \<notin># M"
  shows "csp_buffer_free (Some b) w = set_errno CSP_DBG_ERR_ALREADY_FREE w"
proof -
  have "Multiset.count M b = 0" using nb by (simp add: count_eq_zero_iff)
  then have "unat (refcount (pool w b)) = 0" using bufs_invD(6) [OF inv] b by simp
  then have "refcount (pool w b) = 0" by (simp add: word_unat_eq_iff)
  then show ?thesis using bufs_invD(5) [OF inv] b by (simp add: csp_buffer_free_def buffer_free_gen_def)
qed

lemma pool_step_inv:
  assumes "pool_step s t" and "bufs_inv (fst s) (snd s)"
  shows "bufs_inv (fst t) (snd t)"
  using assms
proof (induction rule: pool_step.induct)
  case (get r isr w b w' M)
  then show ?case using get_actual_Some(2) by fastforce
next
  case (get_fails r isr w w' M)
  then show ?case using get_actual_None(1) by fastforce
next
  case (free b M w)
  then show ?case using bufs_inv_free [of b "M - {#b#}" w] by simp
next
  case (free_isr b M w)
  then show ?case using bufs_inv_free [of b "M - {#b#}" w] by (simp add: csp_buffer_free_eq_isr)
next
  case (double_free b M w)
  then show ?case using double_free_refused [of M w b] by simp
next
  case (clone b M w c w')
  then show ?case using bp.clone_Some [of M w b c w'] by simp
next
  case (clone_fails b M w w')
  then show ?case using bp.clone_None [of M w b w'] by simp
next
  case (refc_inc b M w)
  then show ?case using bufs_inv_inc [of b "M - {#b#}" w] by simp
next
  case (write_packet b M p w)
  then show ?case by (simp add: bufs_inv_set_pkt)
qed

lemma pool_reach_inv: "pool_reach s t \<Longrightarrow> bufs_inv (fst s) (snd s) \<Longrightarrow> bufs_inv (fst t) (snd t)"
  by (induction rule: pool_reach.induct) (auto intro: pool_step_inv)

lemma partition_facts:
  assumes inv: "bufs_inv M w"
  shows "distinct (free_list w)" and "set (free_list w) \<inter> set_mset M = {}"
    and "set (free_list w) \<union> set_mset M = {0..<CSP_BUFFER_COUNT}"
    and "\<forall>b < CSP_BUFFER_COUNT. unat (refcount (pool w b)) = Multiset.count M b"
    and "csp_buffer_remaining w + card (set_mset M) = CSP_BUFFER_COUNT"
proof -
  note I = bufs_invD [OF inv]
  show d: "distinct (free_list w)" by (rule I(3))
  show e: "set (free_list w) \<inter> set_mset M = {}" using I(4) by blast
  show u: "set (free_list w) \<union> set_mset M = {0..<8}" using I(4,7) by auto
  show "\<forall>b < 8. unat (refcount (pool w b)) = Multiset.count M b" using I(6) by blast
  have "card (set (free_list w) \<union> set_mset M) = card (set (free_list w)) + card (set_mset M)"
    using e by (intro card_Un_disjoint) auto
  then show "csp_buffer_remaining w + card (set_mset M) = 8"
    by (simp add: u distinct_card [OF d] csp_buffer_remaining_def queue_simps) (simp add: free_list_def)
qed

lemma remaining_free_list: "csp_buffer_remaining w = length (free_list w)"
  by (simp add: csp_buffer_remaining_def queue_simps free_list_def)

lemma get_succeeds_iff:
  assumes inv: "bufs_inv M w"
  shows "(\<exists>b w'. csp_buffer_get_actual r isr w = (Some b, w')) \<longleftrightarrow> max r 1 \<le> csp_buffer_remaining w"
  unfolding get_actual_cases [OF inv] remaining_free_list by (cases "free_list w") auto


text \<open>
  Freeing a buffer that holds no reference any more is refused: it changes nothing but the
  error number, so a double free cannot put a buffer into the free queue twice.
\<close>

theorem buffer_double_free_refused:
  assumes "bufs_inv M w" and "b < CSP_BUFFER_COUNT" and "b \<notin># M"
  shows "csp_buffer_free (Some b) w = w\<lparr>dbg_errno := CSP_DBG_ERR_ALREADY_FREE\<rparr>
    \<and> free_list (csp_buffer_free (Some b) w) = free_list w"
  using double_free_refused [OF assms] by (simp add: set_errno_def free_list_def)

text \<open>
  \<^bold>\<open>Claim C28.\<close> \<open>csp_buffer_get\<close> succeeds exactly when at least two buffers are free, so it keeps one buffer
  in reserve (the comment above it speaks of the last two); \<open>csp_buffer_get_always\<close> takes that one too and
  does not return only when none is left. A buffer obtained was referenced by nobody, and is cleared.
\<close>

theorem buffer_get_reserve:
  assumes inv: "bufs_inv M w"
  shows "((\<exists>b w'. csp_buffer_get w = (Some b, w')) \<longleftrightarrow> 2 \<le> csp_buffer_remaining w)
    \<and> ((\<exists>b w'. csp_buffer_get_always w = Some (b, w')) \<longleftrightarrow> 1 \<le> csp_buffer_remaining w)
    \<and> (\<forall>b w'. csp_buffer_get w = (Some b, w') \<longrightarrow>
        b \<notin># M \<and> pkt w' b = csp_packet_init (pkt w b) \<and> csp_buffer_remaining w' + 1 = csp_buffer_remaining w)"
proof (intro conjI allI impI)
  show "(\<exists>b w'. csp_buffer_get w = (Some b, w')) \<longleftrightarrow> 2 \<le> csp_buffer_remaining w"
    using get_succeeds_iff [OF inv, of 2 False] by (simp add: csp_buffer_get_def numeral_2_eq_2)
  have "(\<exists>b w'. csp_buffer_get_always w = Some (b, w')) \<longleftrightarrow>
      (\<exists>b w'. csp_buffer_get_actual 0 False w = (Some b, w'))"
    by (auto simp: csp_buffer_get_always_def split: prod.splits option.splits)
  then show "(\<exists>b w'. csp_buffer_get_always w = Some (b, w')) \<longleftrightarrow> 1 \<le> csp_buffer_remaining w"
    using get_succeeds_iff [OF inv, of 0 False] by simp
next
  fix b w' assume "csp_buffer_get w = (Some b, w')"
  then have g: "csp_buffer_get_actual 2 False w = (Some b, w')" by (simp add: csp_buffer_get_def)
  show "b \<notin># M" and "pkt w' b = csp_packet_init (pkt w b)"
    and "csp_buffer_remaining w' + 1 = csp_buffer_remaining w"
    using get_actual_Some(1,4,5) [OF inv g] by (simp_all add: remaining_free_list)
qed

section \<open>Instances\<close>

text \<open>A cold start: zeroed memory, the default configuration of \<open>csp_init.c\<close>.\<close>

definition boot_conf :: csp_conf where
  "boot_conf = \<lparr>version = 2, hostname = [], model = [], revision = [], conn_dfl_so = 0, dedup = CSP_DEDUP_OFF\<rparr>"

definition boot_bufs :: csp_bufs where
  "boot_bufs = \<lparr>csp_conf = boot_conf, ms_from_boot = 0, dbg_buffer_out = 0, dbg_errno = 0,
     dbg_conn_out = 0, dbg_conn_ovf = 0, dbg_inval_reply = 0,
     pool = (\<lambda>_. \<lparr>refcount = 0, skbf_addr = 0, skbf_data = packet_zero\<rparr>), csp_buffers = None\<rparr>"

lemma boot_bufs_init:
  "bufs_inv {#} (csp_buffer_init (replicate 8 0) empty_queue boot_bufs)"
  "free_list (csp_buffer_init (replicate 8 0) empty_queue boot_bufs) = [0..<8]"
  using csp_buffer_init_inv [of "replicate 8 0" boot_bufs empty_queue]
  by (simp_all add: boot_bufs_def)


theorem buffer_double_free_refused_witness:
  "free_list (csp_buffer_free (Some 3) (csp_buffer_init (replicate 8 0) empty_queue boot_bufs)) = [0..<8]"
  using conjunct2 [OF buffer_double_free_refused [OF boot_bufs_init(1), of 3]]
  by (simp add: boot_bufs_init(2))

theorem buffer_get_reserve_witness:
  "\<exists>b w'. csp_buffer_get (csp_buffer_init (replicate 8 0) empty_queue boot_bufs) = (Some b, w')"
  using buffer_get_reserve [OF boot_bufs_init(1)] by (simp add: remaining_free_list boot_bufs_init(2))

text \<open>A pool in use: buffer 0 is held once, the others are free.\<close>

definition ready_bufs :: csp_bufs where
  "ready_bufs = boot_bufs\<lparr>
     pool := (\<lambda>b. \<lparr>refcount = (if b = 0 then 1 else 0), skbf_addr = b, skbf_data = packet_zero\<rparr>),
     csp_buffers := Some \<lparr>pucBuffer = [0, 1, 2, 3, 4, 5, 6, 7], uxLength = 8, uxItemSize = ptr_size,
                          head = 0, tail = 1, count = 7\<rparr>\<rparr>"

lemma ready_bufs_fields:
  "qh_ok (csp_buffers ready_bufs)" "qh_cap (csp_buffers ready_bufs) = 8"
  "free_list ready_bufs = [1, 2, 3, 4, 5, 6, 7]"
  by (simp_all add: ready_bufs_def qh_ok_def q_ok_def qh_cap_def free_list_def qh_items_def q_list_def
      upt_conv_Cons)

lemma ready_bufs_inv: "bufs_inv {#0#} ready_bufs"
proof -
  have "set (free_list ready_bufs) = {b. b < 8 \<and> b \<notin># {#0#}}"
    unfolding ready_bufs_fields by (auto simp: numeral_eq_Suc less_Suc_eq)
  then show ?thesis
    unfolding bufs_inv_def using ready_bufs_fields
    by (simp add: ready_bufs_def pkt_def packet_ok_def packet_zero_def)
qed

end
