(* ===== verification/Iflist.thy ===== *)
theory Iflist
  imports Buffer
begin

text \<open>
  The interface list (\<open>src/csp_iflist.c\<close>). The C list is linked through the \<open>next\<close> field of the interfaces
  and starts at the static \<open>interfaces\<close>; it is modelled as the sequence \<open>interfaces\<close> of interface
  numbers over the store \<open>ifaces\<close>. Setting \<open>ifc->next = NULL\<close> on an element cuts the sequence
  after it. An interface pointer is \<open>None\<close> (NULL) or the number of the interface; \<open>csp_if_lo\<close> is number 0.
\<close>

section \<open>State and operations\<close>

record csp_ifs = csp_bufs +
  ifaces :: "nat \<Rightarrow> csp_iface"
  interfaces :: "nat list"

abbreviation (input) csp_if_lo :: nat where "csp_if_lo \<equiv> 0"

definition CSP_IFLIST_NAME_MAX :: nat where "CSP_IFLIST_NAME_MAX = 10"

definition set_iface :: "nat \<Rightarrow> csp_iface \<Rightarrow> ('a) csp_ifs_scheme \<Rightarrow> ('a) csp_ifs_scheme" where
  "set_iface i f w = w\<lparr>ifaces := (ifaces w)(i := f)\<rparr>"

definition csp_iflist_is_within_subnet :: "u8 \<Rightarrow> u16 \<Rightarrow> csp_iface option \<Rightarrow> bool" where
  "csp_iflist_is_within_subnet v a ifc =
     (case ifc of
        None \<Rightarrow> False
      | Some f \<Rightarrow>
          let nmask = push_bit (unat (csp_id_get_host_bits v - netmask f)) (push_bit (unat (netmask f)) 1 - 1);
              network_a = addr f AND nmask;
              network_b = a AND nmask
          in network_a = network_b)"

text \<open>The elements a search visits: from the head, or from the element after a given one.\<close>

fun after :: "nat option \<Rightarrow> nat list \<Rightarrow> nat list" where
  "after None l = l"
| "after (Some i) [] = []"
| "after (Some i) (j # l) = (if j = i then l else after (Some i) l)"

fun subnet_loop :: "('a) csp_ifs_scheme \<Rightarrow> u16 \<Rightarrow> nat list \<Rightarrow> nat option" where
  "subnet_loop w a [] = None"
| "subnet_loop w a (i # is) =
     (if netmask (ifaces w i) = 0 then subnet_loop w a is
      else if csp_iflist_is_within_subnet (version (csp_conf w)) a (Some (ifaces w i)) then Some i
      else subnet_loop w a is)"

definition csp_iflist_get_by_subnet :: "('a) csp_ifs_scheme \<Rightarrow> u16 \<Rightarrow> nat option \<Rightarrow> nat option" where
  "csp_iflist_get_by_subnet w a ifc = subnet_loop w a (after ifc (interfaces w))"

fun isdfl_loop :: "('a) csp_ifs_scheme \<Rightarrow> nat list \<Rightarrow> nat option" where
  "isdfl_loop w [] = None"
| "isdfl_loop w (i # is) = (if is_default (ifaces w i) = 1 then Some i else isdfl_loop w is)"

definition csp_iflist_get_by_isdfl :: "('a) csp_ifs_scheme \<Rightarrow> nat option \<Rightarrow> nat option" where
  "csp_iflist_get_by_isdfl w ifc = isdfl_loop w (after ifc (interfaces w))"

definition csp_iflist_iterate :: "('a) csp_ifs_scheme \<Rightarrow> nat option \<Rightarrow> nat option" where
  "csp_iflist_iterate w ifc = (case after ifc (interfaces w) of [] \<Rightarrow> None | i # _ \<Rightarrow> Some i)"

fun set_default_loop :: "nat list \<Rightarrow> ('a) csp_ifs_scheme \<Rightarrow> ('a) csp_ifs_scheme" where
  "set_default_loop [] w = w"
| "set_default_loop (i # is) w =
     (if i = csp_if_lo then set_default_loop is w
      else set_default_loop is (set_iface i ((ifaces w i)\<lparr>is_default := 1\<rparr>) w))"

definition csp_iflist_check_dfl :: "('a) csp_ifs_scheme \<Rightarrow> ('a) csp_ifs_scheme" where
  "csp_iflist_check_dfl w =
     (if csp_iflist_get_by_isdfl w None \<noteq> None then w else set_default_loop (interfaces w) w)"

fun by_addr_loop :: "('a) csp_ifs_scheme \<Rightarrow> u16 \<Rightarrow> nat list \<Rightarrow> nat option" where
  "by_addr_loop w a [] = None"
| "by_addr_loop w a (i # is) = (if addr (ifaces w i) = a then Some i else by_addr_loop w a is)"

definition csp_iflist_get_by_addr :: "('a) csp_ifs_scheme \<Rightarrow> u16 \<Rightarrow> nat option" where
  "csp_iflist_get_by_addr w a = by_addr_loop w a (interfaces w)"

text \<open>
  \<open>strncmp\<close> of two strings without NUL characters. Listed interfaces have a name: \<open>csp_iflist_add\<close>
  refuses the others.
\<close>

definition same_name :: "string option \<Rightarrow> string option \<Rightarrow> bool" where
  "same_name s t =
     (case (s, t) of
        (Some x, Some y) \<Rightarrow> take CSP_IFLIST_NAME_MAX x = take CSP_IFLIST_NAME_MAX y
      | _ \<Rightarrow> False)"

fun by_name_loop :: "('a) csp_ifs_scheme \<Rightarrow> string \<Rightarrow> nat list \<Rightarrow> nat option" where
  "by_name_loop w n [] = None"
| "by_name_loop w n (i # is) = (if same_name (name (ifaces w i)) (Some n) then Some i else by_name_loop w n is)"

definition csp_iflist_get_by_name :: "('a) csp_ifs_scheme \<Rightarrow> string \<Rightarrow> nat option" where
  "csp_iflist_get_by_name w n = by_name_loop w n (interfaces w)"

text \<open>\<open>while (ifc && idx--)\<close>: a negative index runs to the end of the list.\<close>

definition csp_iflist_get_by_index :: "('a) csp_ifs_scheme \<Rightarrow> int \<Rightarrow> nat option" where
  "csp_iflist_get_by_index w idx =
     (if 0 \<le> idx \<and> nat idx < length (interfaces w) then Some (interfaces w ! nat idx) else None)"

fun cut_after :: "nat \<Rightarrow> nat list \<Rightarrow> nat list" where
  "cut_after i [] = []"
| "cut_after i (j # l) = (if j = i then [j] else j # cut_after i l)"

definition csp_iflist_add :: "nat option \<Rightarrow> ('a) csp_ifs_scheme \<Rightarrow> ('a) csp_ifs_scheme" where
  "csp_iflist_add ifc w =
     (case ifc of
        None \<Rightarrow> w
      | Some i \<Rightarrow>
          if name (ifaces w i) = None then w
          else let w = w\<lparr>interfaces := cut_after i (interfaces w)\<rparr>
               in if interfaces w = [] then w\<lparr>interfaces := [i]\<rparr>
                  else if \<exists>j \<in> set (interfaces w). j = i \<or> same_name (name (ifaces w i)) (name (ifaces w j)) then w
                  else w\<lparr>interfaces := interfaces w @ [i]\<rparr>)"

definition csp_iflist_remove :: "nat option \<Rightarrow> ('a) csp_ifs_scheme \<Rightarrow> ('a) csp_ifs_scheme" where
  "csp_iflist_remove ifc w =
     (case ifc of None \<Rightarrow> w | Some i \<Rightarrow> w\<lparr>interfaces := remove1 i (interfaces w)\<rparr>)"

definition csp_iflist_get :: "('a) csp_ifs_scheme \<Rightarrow> nat option" where
  "csp_iflist_get w = (case interfaces w of [] \<Rightarrow> None | i # _ \<Rightarrow> Some i)"

text \<open>A number of bytes in a unit that suits it: \<open>unsigned long\<close> has 32 bits.\<close>

definition csp_bytesize :: "u32 \<Rightarrow> u32 \<times> char" where
  "csp_bytesize bytes =
     (if 1024 * 1024 \<le> bytes then (bytes div (1024 * 1024), CHR ''M'')
      else if 1024 \<le> bytes then (bytes div 1024, CHR ''K'')
      else (bytes, CHR ''B''))"

section \<open>Searching in steps\<close>

text \<open>
  Every search that continues from the previous hit has the same contract: its next hit is the first
  element after the given one that passes the test. Run from the head until it returns NULL, it then
  visits exactly the elements that pass, each once and in list order.
\<close>

locale stepwise_search =
  fixes elems :: "'s \<Rightarrow> nat list"
    and hit :: "'s \<Rightarrow> nat \<Rightarrow> bool"
    and search :: "'s \<Rightarrow> nat option \<Rightarrow> nat option"
  assumes search_find: "search s c = find (hit s) (after c (elems s))"
begin

fun visit :: "nat \<Rightarrow> 's \<Rightarrow> nat option \<Rightarrow> nat list" where
  "visit 0 s c = []"
| "visit (Suc n) s c = (case search s c of None \<Rightarrow> [] | Some i \<Rightarrow> i # visit n s (Some i))"

end

lemma after_mid: "i \<notin> set xs \<Longrightarrow> after (Some i) (xs @ i # ys) = ys"
  by (induction xs) auto

lemma find_split:
  "find P xs = Some x \<Longrightarrow> \<exists>us vs. xs = us @ x # vs \<and> P x \<and> (\<forall>u \<in> set us. \<not> P u)"
proof (induction xs)
  case (Cons a xs)
  show ?case
  proof (cases "P a")
    case True
    then show ?thesis using Cons.prems by (intro exI [of _ "[]"] exI [of _ xs]) auto
  next
    case False
    then obtain us vs where "xs = us @ x # vs" "P x" "\<forall>u \<in> set us. \<not> P u" using Cons by auto
    then show ?thesis using False by (intro exI [of _ "a # us"] exI [of _ vs]) auto
  qed
qed simp

context stepwise_search
begin

lemma visit_from:
  assumes "distinct (elems s)" and "elems s = pre @ rest" and "after c (elems s) = rest"
    and "length rest \<le> n"
  shows "visit n s c = filter (hit s) rest"
  using assms
proof (induction n arbitrary: c pre rest)
  case 0
  then show ?case by simp
next
  case (Suc n)
  have hd: "search s c = find (hit s) rest" using search_find [of s c] Suc.prems(3) by (simp only:)
  show ?case
  proof (cases "find (hit s) rest")
    case None
    then have "filter (hit s) rest = []" by (simp add: find_None_iff filter_False)
    then show ?thesis using hd None by simp
  next
    case (Some i)
    then obtain us vs where r: "rest = us @ i # vs" and i: "hit s i" and us: "\<forall>u \<in> set us. \<not> hit s u"
      using find_split [OF Some] by auto
    have e: "elems s = (pre @ us) @ i # vs" using Suc.prems(2) r by simp
    have nin: "i \<notin> set (pre @ us)" using Suc.prems(1) unfolding e by auto
    have "after (Some i) (elems s) = vs" unfolding e by (rule after_mid [OF nin])
    moreover have "elems s = (pre @ us @ [i]) @ vs" "length vs \<le> n"
      using e Suc.prems(4) r by simp_all
    ultimately have "visit n s (Some i) = filter (hit s) vs"
      using Suc.IH [OF Suc.prems(1)] by blast
    then show ?thesis
      using Some i us hd by (simp add: r)
  qed
qed

lemma visit_all:
  "distinct (elems s) \<Longrightarrow> length (elems s) \<le> n \<Longrightarrow> visit n s None = filter (hit s) (elems s)"
  by (rule visit_from [of s "[]"]) simp_all

end

definition subnet_hit :: "('a) csp_ifs_scheme \<Rightarrow> u16 \<Rightarrow> nat \<Rightarrow> bool" where
  "subnet_hit w a i \<longleftrightarrow>
     netmask (ifaces w i) \<noteq> 0 \<and> csp_iflist_is_within_subnet (version (csp_conf w)) a (Some (ifaces w i))"

definition dfl_hit :: "('a) csp_ifs_scheme \<Rightarrow> nat \<Rightarrow> bool" where
  "dfl_hit w i \<longleftrightarrow> is_default (ifaces w i) = 1"

lemma subnet_loop_find: "subnet_loop w a l = find (subnet_hit w a) l"
  by (induction l) (auto simp: subnet_hit_def)

lemma isdfl_loop_find: "isdfl_loop w l = find (dfl_hit w) l"
  by (induction l) (auto simp: dfl_hit_def)

interpretation by_subnet: stepwise_search "\<lambda>(w, a). interfaces w" "\<lambda>(w, a). subnet_hit w a"
    "\<lambda>(w, a). csp_iflist_get_by_subnet w a"
  by unfold_locales (auto simp: csp_iflist_get_by_subnet_def subnet_loop_find)

interpretation by_dfl: stepwise_search interfaces dfl_hit csp_iflist_get_by_isdfl
  by unfold_locales (simp add: csp_iflist_get_by_isdfl_def isdfl_loop_find)

interpretation all_ifs: stepwise_search interfaces "\<lambda>w i. True" csp_iflist_iterate
  by unfold_locales (simp add: csp_iflist_iterate_def split: list.split)

text \<open>The loops \<open>while ((ifc = csp_iflist_get_by_...(ifc)))\<close>, with as many rounds as the list is long.\<close>

fun subnet_rounds :: "nat \<Rightarrow> ('a) csp_ifs_scheme \<Rightarrow> u16 \<Rightarrow> nat option \<Rightarrow> nat list" where
  "subnet_rounds 0 w a c = []"
| "subnet_rounds (Suc n) w a c =
     (case csp_iflist_get_by_subnet w a c of None \<Rightarrow> [] | Some i \<Rightarrow> i # subnet_rounds n w a (Some i))"

fun dfl_rounds :: "nat \<Rightarrow> ('a) csp_ifs_scheme \<Rightarrow> nat option \<Rightarrow> nat list" where
  "dfl_rounds 0 w c = []"
| "dfl_rounds (Suc n) w c =
     (case csp_iflist_get_by_isdfl w c of None \<Rightarrow> [] | Some i \<Rightarrow> i # dfl_rounds n w (Some i))"

lemma subnet_rounds_visit: "subnet_rounds n w a c = by_subnet.visit n (w, a) c"
  by (induction n arbitrary: c) (auto split: option.split)

lemma dfl_rounds_visit: "dfl_rounds n w c = by_dfl.visit n w c"
  by (induction n arbitrary: c) (auto split: option.split)

text \<open>The interfaces the two loops visit, in order.\<close>

definition subnet_ifaces :: "('a) csp_ifs_scheme \<Rightarrow> u16 \<Rightarrow> nat list" where
  "subnet_ifaces w a = filter (subnet_hit w a) (interfaces w)"

definition dfl_ifaces :: "('a) csp_ifs_scheme \<Rightarrow> nat list" where
  "dfl_ifaces w = filter (dfl_hit w) (interfaces w)"

lemma subnet_rounds_all:
  "distinct (interfaces w) \<Longrightarrow> length (interfaces w) \<le> n \<Longrightarrow> subnet_rounds n w a None = subnet_ifaces w a"
  using by_subnet.visit_all [of "(w, a)" n] by (simp add: subnet_rounds_visit subnet_ifaces_def)

lemma dfl_rounds_all:
  "distinct (interfaces w) \<Longrightarrow> length (interfaces w) \<le> n \<Longrightarrow> dfl_rounds n w None = dfl_ifaces w"
  using by_dfl.visit_all [of w n] by (simp add: dfl_rounds_visit dfl_ifaces_def)

section \<open>The well-formed list\<close>

text \<open>
  Every listed interface has a name, no interface is listed twice and no two listed names agree on
  their first \<open>CSP_IFLIST_NAME_MAX\<close> characters.
\<close>

definition named :: "('a) csp_ifs_scheme \<Rightarrow> nat \<Rightarrow> bool" where
  "named w i \<longleftrightarrow> name (ifaces w i) \<noteq> None"

definition iflist_ok :: "('a) csp_ifs_scheme \<Rightarrow> bool" where
  "iflist_ok w \<longleftrightarrow>
     distinct (interfaces w) \<and> (\<forall>i \<in> set (interfaces w). named w i) \<and>
     (\<forall>i \<in> set (interfaces w). \<forall>j \<in> set (interfaces w).
        same_name (name (ifaces w i)) (name (ifaces w j)) \<longrightarrow> i = j)"

lemma same_name_sym: "same_name s t = same_name t s"
  by (auto simp: same_name_def split: option.splits)

lemma same_name_refl [simp]: "same_name s s = (s \<noteq> None)"
  by (simp add: same_name_def split: option.split)

lemma cut_after_prefix: "\<exists>ys. l = cut_after i l @ ys"
  by (induction l) auto

lemma set_cut_after: "set (cut_after i l) \<subseteq> set l"
  by (induction l) auto

lemma distinct_cut_after: "distinct l \<Longrightarrow> distinct (cut_after i l)"
  by (induction l) (use set_cut_after in auto)

lemma cut_after_absent [simp]: "i \<notin> set l \<Longrightarrow> cut_after i l = l"
  by (induction l) auto

lemma mem_cut_after: "i \<in> set l \<Longrightarrow> i \<in> set (cut_after i l)"
  by (induction l) auto

lemma cut_after_Nil [simp]: "cut_after i l = [] \<longleftrightarrow> l = []"
  by (cases l) auto

text \<open>What adding does to the sequence, case by case.\<close>

lemma csp_iflist_add_new:
  assumes "named w i" and "i \<notin> set (interfaces w)"
    and "\<And>j. j \<in> set (interfaces w) \<Longrightarrow> \<not> same_name (name (ifaces w i)) (name (ifaces w j))"
  shows "csp_iflist_add (Some i) w = w\<lparr>interfaces := interfaces w @ [i]\<rparr>"
  using assms by (auto simp: csp_iflist_add_def named_def Let_def)

lemma csp_iflist_add_clash:
  assumes i: "i \<notin> set (interfaces w)" and j: "j \<in> set (interfaces w)"
    and nm: "same_name (name (ifaces w i)) (name (ifaces w j))"
  shows "csp_iflist_add (Some i) w = w"
proof -
  have "w\<lparr>interfaces := cut_after i (interfaces w)\<rparr> = w" using i by simp
  moreover have "\<exists>j \<in> set (interfaces w). j = i \<or> same_name (name (ifaces w i)) (name (ifaces w j))"
    using j nm by blast
  moreover have "interfaces w \<noteq> []" using j by auto
  ultimately show ?thesis by (simp only: csp_iflist_add_def option.case Let_def if_True if_False if_cancel)
qed

lemma csp_iflist_add_again:
  assumes i: "i \<in> set (interfaces w)" and nm: "named w i"
  shows "csp_iflist_add (Some i) w = w\<lparr>interfaces := cut_after i (interfaces w)\<rparr>"
proof -
  have "\<exists>j \<in> set (cut_after i (interfaces w)). j = i \<or> same_name (name (ifaces w i)) (name (ifaces w j))"
    using mem_cut_after [OF i] by blast
  moreover have "cut_after i (interfaces w) \<noteq> []" using i by auto
  moreover obtain n where "name (ifaces w i) = Some n" using nm by (auto simp: named_def)
  ultimately show ?thesis by (simp add: csp_iflist_add_def Let_def del: cut_after_Nil)
qed

lemma csp_iflist_add_unnamed: "\<not> named w i \<Longrightarrow> csp_iflist_add (Some i) w = w"
  by (simp add: csp_iflist_add_def named_def)

lemmas csp_iflist_add_simps = csp_iflist_add_new csp_iflist_add_clash csp_iflist_add_again csp_iflist_add_unnamed

lemma iflist_ok_sub:
  assumes "iflist_ok w" and "set l \<subseteq> set (interfaces w)" and "distinct l"
  shows "iflist_ok (w\<lparr>interfaces := l\<rparr>)"
  using assms unfolding iflist_ok_def by (auto simp: named_def subset_iff)

lemma iflist_ok_append:
  assumes ok: "iflist_ok w" and i: "named w i" "i \<notin> set (interfaces w)"
    and new: "\<forall>j \<in> set (interfaces w). \<not> same_name (name (ifaces w i)) (name (ifaces w j))"
  shows "iflist_ok (w\<lparr>interfaces := interfaces w @ [i]\<rparr>)"
  using ok i new unfolding iflist_ok_def named_def by (simp add: same_name_sym [of _ "name (ifaces w i)"])

lemma iflist_ok_add:
  assumes ok: "iflist_ok w"
  shows "iflist_ok (csp_iflist_add ifc w)"
proof (cases ifc)
  case None
  then show ?thesis using ok by (simp add: csp_iflist_add_def)
next
  case (Some i)
  show ?thesis
  proof (cases "named w i \<and> i \<in> set (interfaces w)")
    case True
    then show ?thesis
      using iflist_ok_sub [OF ok set_cut_after distinct_cut_after] ok
      by (simp add: Some csp_iflist_add_again iflist_ok_def [of w])
  next
    case False
    show ?thesis
    proof (cases "named w i \<and> (\<forall>j \<in> set (interfaces w). \<not> same_name (name (ifaces w i)) (name (ifaces w j)))")
      case True
      then show ?thesis using False iflist_ok_append [OF ok] by (simp add: Some csp_iflist_add_new)
    next
      case nF: False
      then have "csp_iflist_add (Some i) w = w"
        using False csp_iflist_add_unnamed csp_iflist_add_clash by blast
      then show ?thesis using ok by (simp add: Some)
    qed
  qed
qed

lemma iflist_ok_remove: "iflist_ok w \<Longrightarrow> iflist_ok (csp_iflist_remove ifc w)"
  using set_remove1_subset
  by (auto simp: csp_iflist_remove_def iflist_ok_def named_def split: option.split)

lemma set_default_loop_frame:
  "interfaces (set_default_loop l w) = interfaces w"
  "name (ifaces (set_default_loop l w) i) = name (ifaces w i)"
  "is_default (ifaces (set_default_loop l w) i)
     = (if i \<in> set l \<and> i \<noteq> csp_if_lo then 1 else is_default (ifaces w i))"
  by (induction l arbitrary: w) (auto simp: set_iface_def)

lemma iflist_ok_check_dfl: "iflist_ok w \<Longrightarrow> iflist_ok (csp_iflist_check_dfl w)"
  by (auto simp: csp_iflist_check_dfl_def iflist_ok_def named_def set_default_loop_frame)


definition no_iface :: csp_iface where
  "no_iface = \<lparr>addr = 0, netmask = 0, name = None, interface_data = None, driver_data = None,
     nexthop = NextDriver, is_default = 0, tx = 0, rx = 0, tx_error = 0, rx_error = 0, drop_ctr = 0,
     autherr = 0, frame = 0, txbytes = 0, rxbytes = 0, irq = 0\<rparr>"

text \<open>Loopback and two more interfaces, 4/10 and 8/10 under version 2.\<close>

definition ex_ifaces :: "nat \<Rightarrow> csp_iface" where
  "ex_ifaces = (\<lambda>i.
     if i = 0 then no_iface\<lparr>name := Some ''LOOP'', nexthop := NextLo\<rparr>
     else if i = 1 then no_iface\<lparr>addr := 20, netmask := 10, name := Some ''KISS'', nexthop := NextKiss,
       interface_data := Some 0, driver_data := Some 0\<rparr>
     else if i = 2 then no_iface\<lparr>addr := 40, netmask := 10, name := Some ''CAN''\<rparr>
     else no_iface)"

definition ex_ifs :: csp_ifs where
  "ex_ifs = csp_bufs.extend ready_bufs \<lparr>ifaces = ex_ifaces, interfaces = []\<rparr>"

definition ex_ifs3 :: csp_ifs where
  "ex_ifs3 = ex_ifs\<lparr>interfaces := [0, 1, 2]\<rparr>"

lemma ex_ifs3_ok: "iflist_ok ex_ifs3"
  by (simp add: iflist_ok_def ex_ifs3_def ex_ifs_def csp_bufs.defs ex_ifaces_def named_def same_name_def
      no_iface_def CSP_IFLIST_NAME_MAX_def)


text \<open>
  \<^bold>\<open>Claim C32.\<close> Adding and removing interfaces and choosing the default ones keep the list well formed. An
  added interface with a fresh name goes last; one whose name is taken changes nothing; a listed one
  stays listed, but everything listed after it is lost.
\<close>

theorem iflist_add_effect:
  assumes ok: "iflist_ok w" and nm: "name (ifaces w i) \<noteq> None"
  shows "iflist_ok (csp_iflist_add (Some i) w) \<and> iflist_ok (csp_iflist_remove (Some i) w) \<and>
     iflist_ok (csp_iflist_check_dfl w) \<and>
     interfaces (csp_iflist_add (Some i) w) =
       (if i \<in> set (interfaces w) then takeWhile (\<lambda>j. j \<noteq> i) (interfaces w) @ [i]
        else if \<exists>j \<in> set (interfaces w). same_name (name (ifaces w i)) (name (ifaces w j)) then interfaces w
        else interfaces w @ [i])"
proof -
  have cut: "i \<in> set l \<Longrightarrow> cut_after i l = takeWhile (\<lambda>j. j \<noteq> i) l @ [i]" for l
    by (induction l) auto
  have "named w i" using nm by (simp add: named_def)
  then have "interfaces (csp_iflist_add (Some i) w) =
       (if i \<in> set (interfaces w) then takeWhile (\<lambda>j. j \<noteq> i) (interfaces w) @ [i]
        else if \<exists>j \<in> set (interfaces w). same_name (name (ifaces w i)) (name (ifaces w j)) then interfaces w
        else interfaces w @ [i])"
    by (auto simp: csp_iflist_add_simps cut)
  then show ?thesis using ok by (simp add: iflist_ok_add iflist_ok_remove iflist_ok_check_dfl)
qed

text \<open>Adding \<open>KISS\<close> a second time drops \<open>CAN\<close> from the list.\<close>

theorem iflist_add_effect_witness:
  "interfaces (csp_iflist_add (Some 1) ex_ifs3) = [0, 1]"
proof -
  have nm: "name (ifaces ex_ifs3 1) \<noteq> None"
    by (simp add: ex_ifs3_def ex_ifs_def csp_bufs.defs ex_ifaces_def)
  have l: "interfaces ex_ifs3 = [0, 1, 2]" by (simp add: ex_ifs3_def)
  show ?thesis using iflist_add_effect [OF ex_ifs3_ok nm] by (simp add: l)
qed

end
