(* ===== verification/Rtable.thy ===== *)
theory Rtable
  imports Iflist Csp_Addr
begin

text \<open>
  The routing table (\<open>src/csp_rtable_cidr.c\<close>): an array of four entries, of which the first
  \<open>rtable_inptr\<close> are in use. A route pointer is the index of its entry. The locale
  \<open>keyed_store\<close> states what a table of keyed entries promises; the routing table implements it as long
  as it has room.
\<close>

section \<open>State and operations\<close>

record csp_route =
  r_address :: u16
  r_netmask :: u16
  r_via :: u16
  r_iface :: "nat option"

record csp_rt = csp_ifs +
  rtable :: "csp_route list"
  rtable_inptr :: nat

fun find_exact_loop :: "u16 \<Rightarrow> u16 \<Rightarrow> nat option \<Rightarrow> csp_route list \<Rightarrow> nat \<Rightarrow> nat option" where
  "find_exact_loop a m ifc [] i = None"
| "find_exact_loop a m ifc (r # rs) i =
     (if r_address r = a \<and> r_netmask r = m \<and> r_iface r = ifc then Some i
      else find_exact_loop a m ifc rs (i + 1))"

definition csp_rtable_find_exact :: "('a) csp_rt_scheme \<Rightarrow> u16 \<Rightarrow> u16 \<Rightarrow> nat option \<Rightarrow> nat option" where
  "csp_rtable_find_exact w a m ifc = find_exact_loop a m ifc (take (rtable_inptr w) (rtable w)) 0"

text \<open>
  The search goes down the whole array from the entry before \<open>start_route\<close>; its loop ends below the first
  entry.
\<close>

fun backward_loop :: "csp_route list \<Rightarrow> csp_route \<Rightarrow> nat \<Rightarrow> nat option" where
  "backward_loop t start 0 = None"
| "backward_loop t start (Suc i) =
     (if r_netmask (t ! i) = r_netmask start \<and> r_address (t ! i) = r_address start then Some i
      else backward_loop t start i)"

definition csp_rtable_search_backward :: "('a) csp_rt_scheme \<Rightarrow> nat option \<Rightarrow> nat option" where
  "csp_rtable_search_backward w start_route =
     (case start_route of
        None \<Rightarrow> None
      | Some s \<Rightarrow> if s = 0 then None else backward_loop (rtable w) (rtable w ! s) s)"

text \<open>\<open>net_a == net_b\<close>: the difference of the host bits and the mask is \<open>unsigned int\<close> arithmetic.\<close>

definition route_match :: "u8 \<Rightarrow> u16 \<Rightarrow> csp_route \<Rightarrow> bool" where
  "route_match v a r =
     (let hostbits = push_bit (unat (csp_id_get_host_bits v - r_netmask r)) 1 - 1 :: u16;
          netbits = NOT hostbits
      in r_address r AND netbits = a AND netbits)"

fun find_route_loop :: "u8 \<Rightarrow> u16 \<Rightarrow> csp_route list \<Rightarrow> nat \<Rightarrow> nat option \<Rightarrow> u16 \<Rightarrow> nat option" where
  "find_route_loop v a [] i best best_mask = best"
| "find_route_loop v a (r # rs) i best best_mask =
     (if route_match v a r \<and> best_mask \<le> r_netmask r then find_route_loop v a rs (i + 1) (Some i) (r_netmask r)
      else find_route_loop v a rs (i + 1) best best_mask)"

definition csp_rtable_find_route :: "('a) csp_rt_scheme \<Rightarrow> u16 \<Rightarrow> nat option" where
  "csp_rtable_find_route w a =
     find_route_loop (version (csp_conf w)) a (take (rtable_inptr w) (rtable w)) 0 None 0"

text \<open>
  A new entry goes to index \<open>rtable_inptr\<close>, which is clamped only after the entry was taken: on a full
  table that is the entry past the end of the array. \<open>None\<close> stands for the write outside the array.
\<close>

definition csp_rtable_set_internal ::
  "u16 \<Rightarrow> u16 \<Rightarrow> nat option \<Rightarrow> u16 \<Rightarrow> ('a) csp_rt_scheme \<Rightarrow> (int \<times> ('a) csp_rt_scheme) option" where
  "csp_rtable_set_internal a m ifc v w =
     (let (entry, w) =
        (case csp_rtable_find_exact w a m ifc of
           Some e \<Rightarrow> (e, w)
         | None \<Rightarrow>
             let e = rtable_inptr w;
                 w = w\<lparr>rtable_inptr := e + 1\<rparr>;
                 w = (if CSP_RTABLE_SIZE < rtable_inptr w then w\<lparr>rtable_inptr := CSP_RTABLE_SIZE\<rparr> else w)
             in (e, w))
      in if CSP_RTABLE_SIZE \<le> entry then None
         else Some (CSP_ERR_NONE,
           w\<lparr>rtable := (rtable w)[entry := \<lparr>r_address = a, r_netmask = m, r_via = v, r_iface = ifc\<rparr>]\<rparr>))"

definition csp_rtable_free :: "('a) csp_rt_scheme \<Rightarrow> ('a) csp_rt_scheme" where
  "csp_rtable_free w =
     w\<lparr>rtable := replicate CSP_RTABLE_SIZE \<lparr>r_address = 0, r_netmask = 0, r_via = 0, r_iface = None\<rparr>,
       rtable_inptr := 0\<rparr>"

definition csp_rtable_clear :: "('a) csp_rt_scheme \<Rightarrow> ('a) csp_rt_scheme" where
  "csp_rtable_clear w = csp_rtable_free w"

definition csp_rtable_set ::
  "u16 \<Rightarrow> int \<Rightarrow> nat option \<Rightarrow> u16 \<Rightarrow> ('a) csp_rt_scheme \<Rightarrow> (int \<times> ('a) csp_rt_scheme) option" where
  "csp_rtable_set a m ifc v w =
     (let hb = uint (csp_id_get_host_bits (version (csp_conf w)));
          m = (if m < 0 \<or> hb < m then hb else m)
      in if ifc = None then Some (CSP_ERR_INVAL, set_errno CSP_DBG_ERR_INVALID_RTABLE_ENTRY w)
         else csp_rtable_set_internal a (word_of_int m) ifc v w)"

text \<open>\<open>csp_rtable_iterate\<close> calls \<open>iter\<close> on every entry in use; what \<open>iter\<close> returns is ignored.\<close>

definition csp_rtable_iterate :: "('c \<Rightarrow> csp_route \<Rightarrow> 'c) \<Rightarrow> 'c \<Rightarrow> ('a) csp_rt_scheme \<Rightarrow> 'c" where
  "csp_rtable_iterate iter ctx w = foldl iter ctx (take (rtable_inptr w) (rtable w))"

section \<open>The contract of a keyed store\<close>

locale keyed_store =
  fixes ok :: "'s \<Rightarrow> bool"
    and get :: "'s \<Rightarrow> 'k \<Rightarrow> 'v option"
    and put :: "'k \<Rightarrow> 'v \<Rightarrow> 's \<Rightarrow> 's option"
    and room :: "'s \<Rightarrow> nat"
    and good :: "'k \<Rightarrow> bool"
  assumes put_ok: "ok s \<Longrightarrow> good k \<Longrightarrow> put k v s = Some s' \<Longrightarrow> ok s'"
    and get_put: "ok s \<Longrightarrow> good k \<Longrightarrow> put k v s = Some s' \<Longrightarrow> get s' = (get s)(k \<mapsto> v)"
    and put_room: "ok s \<Longrightarrow> good k \<Longrightarrow> get s k \<noteq> None \<or> 0 < room s \<Longrightarrow> \<exists>s'. put k v s = Some s'"
    and room_put: "ok s \<Longrightarrow> good k \<Longrightarrow> put k v s = Some s' \<Longrightarrow> room s \<le> room s' + (if get s k = None then 1 else 0)"
begin

fun put_all :: "('k \<times> 'v) list \<Rightarrow> 's \<Rightarrow> 's option" where
  "put_all [] s = Some s"
| "put_all ((k, v) # kvs) s = (case put k v s of None \<Rightarrow> None | Some s' \<Rightarrow> put_all kvs s')"

text \<open>Writing as many entries as there is room for succeeds, and each key then has its last value.\<close>

lemma put_all_get:
  "ok s \<Longrightarrow> \<forall>(k, v) \<in> set kvs. good k \<Longrightarrow> length kvs \<le> room s \<Longrightarrow>
     \<exists>s'. put_all kvs s = Some s' \<and> ok s' \<and> get s' = get s ++ map_of (rev kvs)"
proof (induction kvs arbitrary: s)
  case (Cons kv kvs)
  obtain k v where kv: "kv = (k, v)" by force
  then have g: "good k" using Cons.prems(2) by simp
  obtain s1 where p: "put k v s = Some s1"
    using put_room [OF Cons.prems(1) g] Cons.prems(3) by fastforce
  have "length kvs \<le> room s1"
    using room_put [OF Cons.prems(1) g p] Cons.prems(3) by (auto split: if_splits)
  then obtain s' where "put_all kvs s1 = Some s'" "ok s'" "get s' = get s1 ++ map_of (rev kvs)"
    using Cons.IH [OF put_ok [OF Cons.prems(1) g p]] Cons.prems(2) by auto
  then show ?case
    using p get_put [OF Cons.prems(1) g p] by (simp add: kv map_add_upd_left map_add_def fun_eq_iff split: option.split)
qed simp

end

section \<open>The routing table as a keyed store\<close>

definition r_key :: "csp_route \<Rightarrow> u16 \<times> u16 \<times> nat option" where
  "r_key r = (r_address r, r_netmask r, r_iface r)"

definition routes :: "('a) csp_rt_scheme \<Rightarrow> csp_route list" where
  "routes w = take (rtable_inptr w) (rtable w)"

definition rtable_ok :: "('a) csp_rt_scheme \<Rightarrow> bool" where
  "rtable_ok w \<longleftrightarrow> length (rtable w) = CSP_RTABLE_SIZE \<and> rtable_inptr w \<le> CSP_RTABLE_SIZE \<and>
     distinct (map r_key (routes w))"

text \<open>The via address the table holds for an address, a netmask and an interface.\<close>

definition route_map :: "('a) csp_rt_scheme \<Rightarrow> u16 \<times> u16 \<times> nat option \<Rightarrow> u16 option" where
  "route_map w = map_of (map (\<lambda>r. (r_key r, r_via r)) (routes w))"

definition rtable_room :: "('a) csp_rt_scheme \<Rightarrow> nat" where
  "rtable_room w = CSP_RTABLE_SIZE - rtable_inptr w"

definition rtable_put :: "u16 \<times> u16 \<times> nat option \<Rightarrow> u16 \<Rightarrow> ('a) csp_rt_scheme \<Rightarrow> ('a) csp_rt_scheme option" where
  "rtable_put k v w = (case k of (a, m, ifc) \<Rightarrow> map_option snd (csp_rtable_set_internal a m ifc v w))"

lemma find_exact_loop_None:
  "find_exact_loop a m ifc rs i = None \<longleftrightarrow> (a, m, ifc) \<notin> set (map r_key rs)"
  by (induction rs arbitrary: i) (auto simp: r_key_def)

lemma find_exact_loop_Some:
  "find_exact_loop a m ifc rs i = Some e \<Longrightarrow>
     \<exists>us r vs. rs = us @ r # vs \<and> e = i + length us \<and> r_key r = (a, m, ifc)"
proof (induction rs arbitrary: i)
  case (Cons r rs)
  show ?case
  proof (cases "r_key r = (a, m, ifc)")
    case True
    then show ?thesis using Cons.prems by (intro exI [of _ "[]"] exI [of _ r] exI [of _ rs]) (simp add: r_key_def)
  next
    case False
    then obtain us r' vs where "rs = us @ r' # vs" "e = i + 1 + length us" "r_key r' = (a, m, ifc)"
      using Cons by (fastforce simp: r_key_def)
    then show ?thesis by (intro exI [of _ "r # us"] exI [of _ r'] exI [of _ vs]) simp
  qed
qed simp

lemma length_routes: "rtable_ok w \<Longrightarrow> length (routes w) = rtable_inptr w"
  by (simp add: rtable_ok_def routes_def)

text \<open>Writing an entry that exists replaces it, a new one is appended, and a full table overflows.\<close>

lemma set_internal_existing:
  assumes ok: "rtable_ok w" and r: "routes w = us @ r # vs" and k: "r_key r = (a, m, ifc)"
  shows "\<exists>w'. csp_rtable_set_internal a m ifc v w = Some (CSP_ERR_NONE, w') \<and>
           routes w' = us @ \<lparr>r_address = a, r_netmask = m, r_via = v, r_iface = ifc\<rparr> # vs \<and>
           rtable_inptr w' = rtable_inptr w \<and> length (rtable w') = CSP_RTABLE_SIZE"
proof -
  let ?n = "\<lparr>r_address = a, r_netmask = m, r_via = v, r_iface = ifc\<rparr>"
  have mem: "(a, m, ifc) \<in> set (map r_key (routes w))" by (simp add: r k)
  then obtain e where e: "csp_rtable_find_exact w a m ifc = Some e"
    using find_exact_loop_None [of a m ifc "routes w" 0] by (auto simp: csp_rtable_find_exact_def routes_def)
  then obtain us' r' vs' where s: "routes w = us' @ r' # vs'" "e = length us'" "r_key r' = (a, m, ifc)"
    using find_exact_loop_Some [of a m ifc "routes w" 0 e] by (auto simp: csp_rtable_find_exact_def routes_def)
  have d: "distinct (map r_key (routes w))" using ok by (simp add: rtable_ok_def)
  have len: "length us < length (routes w)" "length us' < length (routes w)"
    using arg_cong [OF r, of length] arg_cong [OF s(1), of length] by simp_all
  have "map r_key (routes w) ! length us = (a, m, ifc)" by (simp add: r k nth_append)
  moreover have "map r_key (routes w) ! length us' = (a, m, ifc)" by (simp add: s(1,3) nth_append)
  ultimately have "map r_key (routes w) ! length us = map r_key (routes w) ! length us'" by simp
  then have "length us = length us'" using nth_eq_iff_index_eq [OF d] len by simp
  then have us: "e = length us" using s(2) by simp
  have lt: "e < rtable_inptr w" using len(1) length_routes [OF ok] us by simp
  then have e4: "e < 4" using ok by (simp add: rtable_ok_def)
  let ?w = "w\<lparr>rtable := (rtable w)[e := ?n]\<rparr>"
  have "csp_rtable_set_internal a m ifc v w = Some (CSP_ERR_NONE, ?w)"
    using e4 by (simp add: csp_rtable_set_internal_def e)
  moreover have "routes ?w = us @ ?n # vs"
  proof -
    have "routes ?w = (routes w)[e := ?n]" by (simp add: routes_def take_update_swap)
    then show ?thesis by (simp add: r us)
  qed
  ultimately show ?thesis using ok by (simp add: rtable_ok_def)
qed

lemma set_internal_new:
  assumes ok: "rtable_ok w" and new: "(a, m, ifc) \<notin> set (map r_key (routes w))"
  shows "if rtable_inptr w = CSP_RTABLE_SIZE then csp_rtable_set_internal a m ifc v w = None
     else \<exists>w'. csp_rtable_set_internal a m ifc v w = Some (CSP_ERR_NONE, w') \<and>
           routes w' = routes w @ [\<lparr>r_address = a, r_netmask = m, r_via = v, r_iface = ifc\<rparr>] \<and>
           rtable_inptr w' = rtable_inptr w + 1 \<and> length (rtable w') = CSP_RTABLE_SIZE"
proof -
  have e: "csp_rtable_find_exact w a m ifc = None"
    using find_exact_loop_None [of a m ifc "routes w" 0] new by (simp add: csp_rtable_find_exact_def routes_def)
  show ?thesis
  proof (cases "rtable_inptr w = 4")
    case True
    then show ?thesis by (simp add: csp_rtable_set_internal_def e)
  next
    case False
    then have lt: "rtable_inptr w < 4" using ok by (simp add: rtable_ok_def)
    let ?n = "\<lparr>r_address = a, r_netmask = m, r_via = v, r_iface = ifc\<rparr>"
    let ?w = "w\<lparr>rtable_inptr := rtable_inptr w + 1, rtable := (rtable w)[rtable_inptr w := ?n]\<rparr>"
    have "csp_rtable_set_internal a m ifc v w = Some (CSP_ERR_NONE, ?w)"
      using lt by (simp add: csp_rtable_set_internal_def e Let_def)
    moreover have "routes ?w = routes w @ [?n]"
      using ok lt by (simp add: routes_def rtable_ok_def take_Suc_conv_app_nth)
    ultimately show ?thesis using False ok by (simp add: rtable_ok_def)
  qed
qed

lemma map_of_replace:
  assumes "distinct (map fst (xs @ (k, u) # ys))"
  shows "map_of (xs @ (k, v) # ys) = (map_of (xs @ (k, u) # ys))(k \<mapsto> v)"
  using assms by (induction xs) (auto simp: fun_upd_twist)

lemma keys_routes: "map fst (map (\<lambda>r. (r_key r, r_via r)) rs) = map r_key rs"
  by simp

text \<open>One write: either the table overflows, or the key has the new value and nothing else changed.\<close>

lemma rtable_put_cases:
  assumes ok: "rtable_ok w"
  shows "if route_map w k = None \<and> rtable_room w = 0 then rtable_put k v w = None
     else \<exists>w'. rtable_put k v w = Some w' \<and> rtable_ok w' \<and> route_map w' = (route_map w)(k \<mapsto> v) \<and>
           rtable_room w' = rtable_room w - (if route_map w k = None then 1 else 0)"
proof -
  obtain a m ifc where k: "k = (a, m, ifc)" by (cases k) auto
  have d: "distinct (map r_key (routes w))" using ok by (simp add: rtable_ok_def)
  let ?n = "\<lparr>r_address = a, r_netmask = m, r_via = v, r_iface = ifc\<rparr>"
  have kn: "r_key ?n = k" by (simp add: r_key_def k)
  show ?thesis
  proof (cases "k \<in> set (map r_key (routes w))")
    case True
    then obtain us r vs where r: "routes w = us @ r # vs" and rk: "r_key r = k"
      using split_list by (fastforce simp: image_iff)
    obtain w' where w': "csp_rtable_set_internal a m ifc v w = Some (CSP_ERR_NONE, w')"
      "routes w' = us @ ?n # vs" "rtable_inptr w' = rtable_inptr w" "length (rtable w') = 4"
      using set_internal_existing [OF ok r] rk k by auto
    have "map r_key (routes w') = map r_key (routes w)" by (simp add: w'(2) r rk kn)
    then have "rtable_ok w'" using w'(3,4) ok by (simp add: rtable_ok_def)
    moreover have "route_map w' = (route_map w)(k \<mapsto> v)"
      using d kn rk unfolding route_map_def w'(2) r map_append list.map(2)
      by (subst map_of_replace [of _ _ "r_via r"]) (auto simp: comp_def)
    moreover have "route_map w k \<noteq> None"
      using True by (auto simp: route_map_def map_of_eq_None_iff image_image)
    ultimately show ?thesis using w' by (auto simp: rtable_put_def k rtable_room_def)
  next
    case False
    have none: "route_map w k = None" using False by (simp add: route_map_def map_of_eq_None_iff image_image)
    have room: "rtable_inptr w = 4 \<longleftrightarrow> rtable_room w = 0" using ok by (auto simp: rtable_room_def rtable_ok_def)
    have new: "(a, m, ifc) \<notin> set (map r_key (routes w))" using False k by simp
    show ?thesis
    proof (cases "rtable_inptr w = 4")
      case True
      then show ?thesis using set_internal_new [OF ok new, of v] none room by (simp add: rtable_put_def k)
    next
      case lt: False
      then obtain w' where w': "csp_rtable_set_internal a m ifc v w = Some (CSP_ERR_NONE, w')"
        "routes w' = routes w @ [?n]" "rtable_inptr w' = rtable_inptr w + 1" "length (rtable w') = 4"
        using set_internal_new [OF ok new, of v] by auto
      have "rtable_ok w'" using w' lt ok d False kn by (auto simp: rtable_ok_def)
      moreover have "route_map w' = (route_map w)(k \<mapsto> v)"
        using none kn by (auto simp: route_map_def w'(2) map_add_def fun_eq_iff r_key_def k split: option.split)
      ultimately show ?thesis using w' lt room none by (auto simp: rtable_put_def k rtable_room_def)
    qed
  qed
qed

interpretation rt: keyed_store rtable_ok route_map rtable_put rtable_room "\<lambda>k. True"
proof (unfold_locales, goal_cases)
  case (1 s k v s')
  then show ?case using rtable_put_cases [of s k v] by (auto split: if_splits)
next
  case (2 s k v s')
  then show ?case using rtable_put_cases [of s k v] by (auto split: if_splits)
next
  case (3 s k v)
  then show ?case using rtable_put_cases [of s k v] by (auto split: if_splits)
next
  case (4 s k v s')
  then show ?case using rtable_put_cases [of s k v] by (auto split: if_splits)
qed

section \<open>Longest prefix match\<close>

lemma NOT_mask_16: "h \<le> 16 \<Longrightarrow> NOT (mask h :: u16) = push_bit h (mask (16 - h))"
proof -
  assume h: "h \<le> 16"
  have "mask 16 = (- 1 :: u16)" using mask_full [where 'a = 16] by simp
  then have "NOT (mask h :: u16) = mask 16 - mask h" by (simp only: not_eq_complement) simp
  then show ?thesis using mask_diff [OF h, where 'a = 16] by simp
qed

text \<open>A route matches when the part of the address above the host bits of its netmask is the route's.\<close>

lemma route_match_iff:
  assumes m: "unat (r_netmask r) \<le> host_bits v"
  shows "route_match v a r \<longleftrightarrow>
     net_part (host_bits v - unat (r_netmask r)) a = net_part (host_bits v - unat (r_netmask r)) (r_address r)"
proof -
  define h where "h = host_bits v - unat (r_netmask r)"
  have h: "h \<le> 16" unfolding h_def by (rule order_trans [OF diff_le_self]) (simp add: host_bits_cases)
  have small: "unat x div 2 ^ h mod 2 ^ (16 - h) = net_part h x" for x :: u16
    using net_mod [of x 16 h] h unsigned_less [of x] by simp
  have "route_match v a r \<longleftrightarrow> r_address r AND NOT (mask h) = a AND NOT (mask h)"
    unfolding route_match_def Let_def push_bit_1_mask unat_host_minus [OF m] h_def [symmetric] ..
  also have "\<dots> \<longleftrightarrow> net_part h (r_address r) = net_part h a"
    by (simp only: NOT_mask_16 [OF h] same_net_iff small)
  finally show ?thesis by (auto simp: h_def)
qed

text \<open>\<open>best i n\<close>: among the first \<open>i\<close> entries, \<open>n\<close> is the last of the matching ones with the longest netmask.\<close>

definition best_match :: "u8 \<Rightarrow> u16 \<Rightarrow> csp_route list \<Rightarrow> nat \<Rightarrow> bool" where
  "best_match v a rs n \<longleftrightarrow>
     n < length rs \<and> route_match v a (rs ! n) \<and>
     (\<forall>k < length rs. route_match v a (rs ! k) \<longrightarrow>
        r_netmask (rs ! k) \<le> r_netmask (rs ! n) \<and> (n < k \<longrightarrow> r_netmask (rs ! k) < r_netmask (rs ! n)))"

definition best_so_far :: "u8 \<Rightarrow> u16 \<Rightarrow> csp_route list \<Rightarrow> nat option \<Rightarrow> u16 \<Rightarrow> bool" where
  "best_so_far v a rs best m \<longleftrightarrow>
     (case best of
        None \<Rightarrow> m = 0 \<and> (\<forall>r \<in> set rs. \<not> route_match v a r)
      | Some n \<Rightarrow> best_match v a rs n \<and> m = r_netmask (rs ! n))"

lemma best_match_snoc_hit:
  assumes b: "best_so_far v a rs best m" and hit: "route_match v a r" "m \<le> r_netmask r"
  shows "best_so_far v a (rs @ [r]) (Some (length rs)) (r_netmask r)"
proof -
  have "r_netmask (rs ! k) \<le> r_netmask r" if "k < length rs" "route_match v a (rs ! k)" for k
    using b hit(2) that by (auto simp: best_so_far_def best_match_def split: option.splits dest: order_trans)
  then show ?thesis
    using hit(1) by (auto simp: best_so_far_def best_match_def nth_append less_Suc_eq)
qed

lemma best_match_snoc_miss:
  assumes b: "best_so_far v a rs best m" and miss: "\<not> (route_match v a r \<and> m \<le> r_netmask r)"
  shows "best_so_far v a (rs @ [r]) best m"
  using b miss
  by (auto simp: best_so_far_def best_match_def nth_append less_Suc_eq not_le split: option.splits
      intro: less_imp_le)

lemma find_route_loop_best:
  "best_so_far v a pre best m \<Longrightarrow>
     \<exists>m'. best_so_far v a (pre @ rs) (find_route_loop v a rs (length pre) best m) m'"
proof (induction rs arbitrary: pre best m)
  case (Cons r rs)
  show ?case
  proof (cases "route_match v a r \<and> m \<le> r_netmask r")
    case True
    then show ?thesis
      using Cons.IH [OF best_match_snoc_hit [OF Cons.prems]] by simp
  next
    case False
    then show ?thesis using Cons.IH [OF best_match_snoc_miss [OF Cons.prems False]] by auto
  qed
qed auto


section \<open>Setting routes\<close>

text \<open>The netmask \<open>csp_rtable_set\<close> stores: an impossible one means a host route.\<close>

definition stored_mask :: "u8 \<Rightarrow> int \<Rightarrow> u16" where
  "stored_mask v m =
     word_of_int (if m < 0 \<or> int (host_bits v) < m then int (host_bits v) else m)"

lemma csp_rtable_set_put:
  "map_option snd (csp_rtable_set a m (Some i) via w) =
     rtable_put (a, stored_mask (version (csp_conf w)) m, Some i) via w"
  by (simp add: csp_rtable_set_def rtable_put_def stored_mask_def host_bits_def Let_def)

lemma csp_rtable_set_internal_code:
  "csp_rtable_set_internal a m ifc via w = Some (r, w') \<Longrightarrow> r = CSP_ERR_NONE"
  by (auto simp: csp_rtable_set_internal_def Let_def split: option.splits if_splits)

text \<open>
  \<^bold>\<open>Claim C33.\<close> Setting a route makes the table hold the new via address for that address, netmask and
  interface and leaves every other route alone, unless the route is new and the table full: then the
  code writes past the end of the table. A missing interface is refused with an error.
\<close>

theorem rtable_set_updates:
  assumes ok: "rtable_ok w"
  shows "(let k = (a, stored_mask (version (csp_conf w)) m, Some i)
     in if route_map w k = None \<and> rtable_inptr w = CSP_RTABLE_SIZE then csp_rtable_set a m (Some i) via w = None
        else \<exists>w'. csp_rtable_set a m (Some i) via w = Some (CSP_ERR_NONE, w') \<and> rtable_ok w' \<and>
               route_map w' = (route_map w)(k \<mapsto> via)) \<and>
     csp_rtable_set a m None via w = Some (CSP_ERR_INVAL, set_errno CSP_DBG_ERR_INVALID_RTABLE_ENTRY w)"
proof -
  let ?k = "(a, stored_mask (version (csp_conf w)) m, Some i)"
  have room: "rtable_room w = 0 \<longleftrightarrow> rtable_inptr w = 4" using ok by (auto simp: rtable_room_def rtable_ok_def)
  have code: "r = CSP_ERR_NONE" if "csp_rtable_set a m (Some i) via w = Some (r, w')" for r w'
    using that by (auto simp: csp_rtable_set_def Let_def dest: csp_rtable_set_internal_code)
  have inval: "csp_rtable_set a m None via w = Some (CSP_ERR_INVAL, set_errno CSP_DBG_ERR_INVALID_RTABLE_ENTRY w)"
    by (simp add: csp_rtable_set_def Let_def)
  show ?thesis
  proof (cases "route_map w ?k = None \<and> rtable_inptr w = 4")
    case True
    then have "rtable_put ?k via w = None" using rtable_put_cases [OF ok, of ?k via] room by simp
    then show ?thesis using True inval csp_rtable_set_put [of a m i via w] by (simp add: Let_def)
  next
    case False
    then obtain w' where w': "rtable_put ?k via w = Some w'" "rtable_ok w'" "route_map w' = (route_map w)(?k \<mapsto> via)"
      using rtable_put_cases [OF ok, of ?k via] room by auto
    then obtain r where "csp_rtable_set a m (Some i) via w = Some (r, w')"
      using csp_rtable_set_put [of a m i via w] by auto
    then show ?thesis using False w'(2,3) inval code by (simp add: Let_def)
  qed
qed

definition empty_routes :: "csp_route list" where
  "empty_routes = replicate CSP_RTABLE_SIZE \<lparr>r_address = 0, r_netmask = 0, r_via = 0, r_iface = None\<rparr>"

definition ex_rt :: csp_rt where
  "ex_rt = csp_ifs.extend ex_ifs3 \<lparr>rtable = empty_routes, rtable_inptr = 0\<rparr>"

lemma ex_rt_ok: "rtable_ok ex_rt" "routes ex_rt = []"
  by (simp_all add: ex_rt_def csp_ifs.defs rtable_ok_def routes_def empty_routes_def)

definition ex_routes :: "csp_route list" where
  "ex_routes =
     [\<lparr>r_address = 0, r_netmask = 0, r_via = 3, r_iface = Some 2\<rparr>, \<lparr>r_address = 8, r_netmask = 10, r_via = 9, r_iface = Some 1\<rparr>]"


theorem rtable_set_updates_witness:
  "\<exists>w'. csp_rtable_set 8 5 (Some 1) 9 ex_rt = Some (CSP_ERR_NONE, w') \<and>
     route_map w' (8, stored_mask (version (csp_conf ex_rt)) 5, Some 1) = Some 9"
  using rtable_set_updates [OF ex_rt_ok(1), of 8 5 1 9] ex_rt_ok(2)
  by (auto simp: Let_def ex_rt_def csp_ifs.defs)

fun rtable_set_all :: "((u16 \<times> u16 \<times> nat option) \<times> u16) list \<Rightarrow> ('a) csp_rt_scheme \<Rightarrow> ('a) csp_rt_scheme option" where
  "rtable_set_all [] w = Some w"
| "rtable_set_all (((a, m, ifc), via) # rs) w =
     (case csp_rtable_set_internal a m ifc via w of None \<Rightarrow> None | Some (_, w') \<Rightarrow> rtable_set_all rs w')"

lemma rtable_put_eq: "rtable_put (a, m, ifc) via w = map_option snd (csp_rtable_set_internal a m ifc via w)"
  by (simp add: rtable_put_def)

lemma rtable_set_all_put: "rtable_set_all rs w = rt.put_all rs w"
  by (induction rs w rule: rtable_set_all.induct) (auto simp: rtable_put_eq split: option.split)

lemma rtable_free_state: "rtable_ok (csp_rtable_free w)" "routes (csp_rtable_free w) = []"
  "rtable_room (csp_rtable_free w) = 4" "route_map (csp_rtable_free w) = Map.empty"
  by (simp_all add: rtable_ok_def routes_def csp_rtable_free_def rtable_room_def route_map_def)

text \<open>
  After the table was cleared, setting up to four routes never overflows it, and the table then
  holds for each address, netmask and interface the via address that was set last.
\<close>

theorem routes_after_clear:
  assumes "length rs \<le> CSP_RTABLE_SIZE"
  shows "\<exists>w'. rtable_set_all rs (csp_rtable_clear w) = Some w' \<and> rtable_ok w' \<and> route_map w' = map_of (rev rs)"
  using rt.put_all_get [of "csp_rtable_free w" rs] assms rtable_free_state [of w]
  by (simp add: rtable_set_all_put csp_rtable_clear_def)

theorem routes_after_clear_witness:
  "\<exists>w'. rtable_set_all [((8, 5, Some 1), 9), ((0, 0, Some 2), 3), ((8, 5, Some 1), 7)] (csp_rtable_clear ex_rt) = Some w' \<and>
     route_map w' (8, 5, Some 1) = Some 7"
  using routes_after_clear [of "[((8, 5, Some 1), 9), ((0, 0, Some 2), 3), ((8, 5, Some 1), 7)]" ex_rt] by auto

end
