(* ===== verification/Qfifo.thy ===== *)
theory Qfifo
  imports Rtable
begin

text \<open>
  The router's input queue (\<open>src/csp_qfifo.c\<close>) and the loopback interface (\<open>src/interfaces/csp_if_lo.c\<close>),
  which sends by putting the packet back into that queue. A packet in the queue is a reference the queue
  owns: writing hands the caller's reference over or frees it, reading hands it to the reader.
\<close>

section \<open>State and operations\<close>

record csp_qfifo =
  qe_iface :: "nat option"
  qe_packet :: "nat option"

record csp_qf = csp_rt +
  qfifo_queue_handle :: "csp_qfifo queue_handle"

definition csp_qfifo_init ::
  "csp_qfifo list \<Rightarrow> csp_qfifo static_queue \<Rightarrow> ('a) csp_qf_scheme \<Rightarrow> ('a) csp_qf_scheme" where
  "csp_qfifo_init storage q w =
     w\<lparr>qfifo_queue_handle := csp_queue_create_static CSP_QFIFO_LEN (2 * ptr_size) (Some storage) (Some q)\<rparr>"

definition csp_qfifo_read :: "('a) csp_qf_scheme \<Rightarrow> int \<times> csp_qfifo option \<times> ('a) csp_qf_scheme" where
  "csp_qfifo_read w =
     (case csp_queue_dequeue (qfifo_queue_handle w) 0xFFFFFFFF of
        (None, q) \<Rightarrow> (CSP_ERR_TIMEDOUT, None, w\<lparr>qfifo_queue_handle := q\<rparr>)
      | (Some e, q) \<Rightarrow> (CSP_ERR_NONE, Some e, w\<lparr>qfifo_queue_handle := q\<rparr>))"

text \<open>
  \<open>isr\<close> stands for a non-NULL \<open>pxTaskWoken\<close>. The callback \<open>csp_qfifo_write_callback\<close> is the weak empty
  function of the file.
\<close>

definition csp_qfifo_write_callback :: "nat option \<Rightarrow> ('a) csp_qf_scheme \<Rightarrow> ('a) csp_qf_scheme" where
  "csp_qfifo_write_callback iface w = w"

definition csp_qfifo_write ::
  "nat option \<Rightarrow> nat option \<Rightarrow> bool \<Rightarrow> ('a) csp_qf_scheme \<Rightarrow> ('a) csp_qf_scheme" where
  "csp_qfifo_write packet iface isr w =
     (if packet = None then set_errno CSP_DBG_ERR_INVALID_POINTER w
      else case iface of
        None \<Rightarrow>
          let w = set_errno CSP_DBG_ERR_INVALID_POINTER w
          in if isr then csp_buffer_free_isr packet w else csp_buffer_free packet w
      | Some i \<Rightarrow>
          let queue_element = \<lparr>qe_iface = iface, qe_packet = packet\<rparr>;
              (result, q) = (if isr then csp_queue_enqueue_isr (qfifo_queue_handle w) queue_element
                             else csp_queue_enqueue (qfifo_queue_handle w) queue_element 1);
              w = w\<lparr>qfifo_queue_handle := q\<rparr>;
              w = (if result \<noteq> CSP_QUEUE_OK then
                     let w = w\<lparr>dbg_conn_ovf := dbg_conn_ovf w + 1\<rparr>;
                         w = set_iface i ((ifaces w i)\<lparr>tx_error := tx_error (ifaces w i) + 1\<rparr>) w
                     in if isr then csp_buffer_free_isr packet w else csp_buffer_free packet w
                   else w)
          in csp_qfifo_write_callback iface w)"

definition csp_qfifo_wake_up :: "('a) csp_qf_scheme \<Rightarrow> ('a) csp_qf_scheme" where
  "csp_qfifo_wake_up w =
     w\<lparr>qfifo_queue_handle :=
         snd (csp_queue_enqueue (qfifo_queue_handle w) \<lparr>qe_iface = None, qe_packet = None\<rparr> 0)\<rparr>"

text \<open>Loopback: the packet goes back to the router, from the loopback interface.\<close>

definition csp_lo_tx :: "nat \<Rightarrow> u16 \<Rightarrow> nat \<Rightarrow> bool \<Rightarrow> ('a) csp_qf_scheme \<Rightarrow> int \<times> ('a) csp_qf_scheme" where
  "csp_lo_tx iface via packet from_me w =
     (CSP_ERR_NONE, csp_qfifo_write (Some packet) (Some csp_if_lo) False w)"

definition csp_if_lo_init :: csp_iface where
  "csp_if_lo_init = no_iface\<lparr>name := Some ''LOOP'', nexthop := NextLo, addr := 0, is_default := 0\<rparr>"

section \<open>Ownership\<close>

text \<open>The references the queue holds: the packets of its elements (a wake-up element has none).\<close>

definition elem_refs :: "csp_qfifo \<Rightarrow> nat multiset" where
  "elem_refs e = (case qe_packet e of None \<Rightarrow> {#} | Some b \<Rightarrow> {#b#})"

definition qf_items :: "('a) csp_qf_scheme \<Rightarrow> csp_qfifo list" where
  "qf_items w = qh_items (qfifo_queue_handle w)"

definition qf_refs :: "('a) csp_qf_scheme \<Rightarrow> nat multiset" where
  "qf_refs w = sum_list (map elem_refs (qf_items w))"

definition qf_ok :: "('a) csp_qf_scheme \<Rightarrow> bool" where
  "qf_ok w \<longleftrightarrow> qh_ok (qfifo_queue_handle w) \<and> qh_cap (qfifo_queue_handle w) = CSP_QFIFO_LEN"

text \<open>Operations of the lower layers leave the queue alone.\<close>

lemma csp_buffer_free_more:
  "csp_buffer_free p w = w\<lparr>pool := pool (csp_buffer_free p w), csp_buffers := csp_buffers (csp_buffer_free p w),
     dbg_errno := dbg_errno (csp_buffer_free p w)\<rparr>"
  by (simp add: csp_buffer_free_def buffer_free_gen_def set_errno_def Let_def split: option.split)

lemma qfifo_frame [frame_simps]:
  "qfifo_queue_handle (csp_buffer_free p w) = qfifo_queue_handle w"
  "qfifo_queue_handle (set_errno e w) = qfifo_queue_handle w"
  "qfifo_queue_handle (set_iface i f w) = qfifo_queue_handle w"
  "qfifo_queue_handle (set_pkt b k w) = qfifo_queue_handle w"
  by (subst csp_buffer_free_more, simp) (simp_all add: set_errno_def set_iface_def set_pkt_def)

lemma bufs_inv_frame [frame_simps]:
  "bufs_inv M (w\<lparr>qfifo_queue_handle := q\<rparr>) = bufs_inv M w"
  "bufs_inv M (set_iface i f w) = bufs_inv M w"
  "bufs_inv M (w\<lparr>dbg_conn_ovf := n\<rparr>) = bufs_inv M w"
  by (simp_all add: bufs_inv_def free_list_def pkt_def set_iface_def)

text \<open>Writing, without the choice of the interrupt variant, which has the same effect.\<close>

lemma qfifo_write_room:
  assumes "qf_ok w" and "length (qf_items w) < CSP_QFIFO_LEN"
  shows "csp_qfifo_write (Some p) (Some i) isr w =
     w\<lparr>qfifo_queue_handle := snd (csp_queue_enqueue (qfifo_queue_handle w) \<lparr>qe_iface = Some i, qe_packet = Some p\<rparr> 0)\<rparr>"
proof -
  have "csp_queue_enqueue q e 1 = csp_queue_enqueue q e 0" for q :: "csp_qfifo queue_handle" and e
    by (simp add: csp_queue_enqueue_def xQueueSend_def)
  moreover have "fst (csp_queue_enqueue (qfifo_queue_handle w) e 0) = CSP_QUEUE_OK" for e
    using assms qh_send_ok [of "qfifo_queue_handle w" e 0] by (simp add: qf_ok_def qf_items_def)
  ultimately show ?thesis
    by (simp add: csp_qfifo_write_def csp_queue_isr_eq csp_qfifo_write_callback_def Let_def case_prod_beta)
qed

lemma qfifo_write_full:
  assumes "qf_ok w" and "length (qf_items w) = CSP_QFIFO_LEN"
  shows "csp_qfifo_write (Some p) (Some i) isr w =
     csp_buffer_free (Some p)
       (set_iface i ((ifaces w i)\<lparr>tx_error := tx_error (ifaces w i) + 1\<rparr>) (w\<lparr>dbg_conn_ovf := dbg_conn_ovf w + 1\<rparr>))"
proof -
  have "csp_queue_enqueue (qfifo_queue_handle w) e t = (CSP_QUEUE_ERROR, qfifo_queue_handle w)" for e t
    using assms by (intro qh_send_full) (simp add: qf_ok_def qf_items_def)
  then show ?thesis
    by (simp add: csp_qfifo_write_def csp_queue_isr_eq csp_qfifo_write_callback_def Let_def
        csp_buffer_free_eq_isr)
qed

lemma qf_items_write:
  assumes "qf_ok w"
  shows "qf_items (csp_qfifo_write (Some p) (Some i) isr w) =
     (if length (qf_items w) < CSP_QFIFO_LEN then qf_items w @ [\<lparr>qe_iface = Some i, qe_packet = Some p\<rparr>]
      else qf_items w)"
    and "qf_ok (csp_qfifo_write (Some p) (Some i) isr w)"
proof -
  have le: "length (qf_items w) \<le> 16"
    using assms qh_items_le_cap [of "qfifo_queue_handle w"] by (simp add: qf_ok_def qf_items_def)
  have full: "\<not> length (qf_items w) < 16 \<Longrightarrow> length (qf_items w) = 16" using le by linarith
  show "qf_items (csp_qfifo_write (Some p) (Some i) isr w) =
     (if length (qf_items w) < CSP_QFIFO_LEN then qf_items w @ [\<lparr>qe_iface = Some i, qe_packet = Some p\<rparr>]
      else qf_items w)"
    using assms full qfifo_write_full [OF assms, of p i isr] qfifo_write_room [OF assms, of p i isr]
      qh_send_ok [of "qfifo_queue_handle w" _ 0]
    by (simp add: qf_items_def frame_simps qf_ok_def)
  show "qf_ok (csp_qfifo_write (Some p) (Some i) isr w)"
    using assms full qfifo_write_full [OF assms, of p i isr] qfifo_write_room [OF assms, of p i isr]
      qh_send_inv [of "qfifo_queue_handle w" _ 0]
    by (cases "length (qf_items w) < 16") (simp_all add: frame_simps qf_ok_def)
qed

text \<open>The caller's reference is consumed on every path: queued, or freed when there is no room or interface.\<close>

lemma qfifo_write_consumes:
  assumes inv: "bufs_inv (add_mset p (X + qf_refs w)) w" and ok: "qf_ok w"
  shows "bufs_inv (X + qf_refs (csp_qfifo_write (Some p) iface isr w)) (csp_qfifo_write (Some p) iface isr w)"
    and "qf_ok (csp_qfifo_write (Some p) iface isr w)"
proof -
  let ?w = "csp_qfifo_write (Some p) iface isr w"
  have nil: "iface = None \<Longrightarrow> ?w = csp_buffer_free (Some p) (set_errno CSP_DBG_ERR_INVALID_POINTER w)"
    by (simp add: csp_qfifo_write_def csp_buffer_free_eq_isr Let_def)
  show "qf_ok ?w"
    using ok qf_items_write(2) [OF ok] nil by (cases iface) (simp_all add: qf_ok_def frame_simps)
  show "bufs_inv (X + qf_refs ?w) ?w"
  proof (cases iface)
    case None
    then have "qf_refs ?w = qf_refs w" using nil by (simp add: qf_refs_def qf_items_def frame_simps)
    then show ?thesis using inv None nil by (simp add: bp.free_Some)
  next
    case (Some i)
    show ?thesis
    proof (cases "length (qf_items w) < 16")
      case True
      have "qf_refs ?w = add_mset p (qf_refs w)"
        using True qf_items_write(1) [OF ok, of p i isr] by (simp add: qf_refs_def Some elem_refs_def)
      then show ?thesis
        using inv True qfifo_write_room [OF ok, of p i isr] by (simp add: Some frame_simps)
    next
      case False
      have "length (qf_items w) \<le> 16"
        using ok qh_items_le_cap [of "qfifo_queue_handle w"] by (simp add: qf_ok_def qf_items_def)
      then have full: "length (qf_items w) = 16" using False by simp
      have "qf_refs ?w = qf_refs w"
        using False qf_items_write(1) [OF ok, of p i isr] by (simp add: qf_refs_def Some)
      then show ?thesis
        using inv qfifo_write_full [OF ok full, of p i isr] by (simp add: Some frame_simps bp.free_Some)
    qed
  qed
qed

lemma qfifo_read_cases:
  assumes "qf_ok w"
  shows "csp_qfifo_read w =
     (case qf_items w of
        [] \<Rightarrow> (CSP_ERR_TIMEDOUT, None, w)
      | e # es \<Rightarrow> (CSP_ERR_NONE, Some e, w\<lparr>qfifo_queue_handle := snd (csp_queue_dequeue (qfifo_queue_handle w) 0xFFFFFFFF)\<rparr>))"
  using assms qh_recv_empty [of "qfifo_queue_handle w" "0xFFFFFFFF"]
    qh_recv_Cons [of "qfifo_queue_handle w", where t = "0xFFFFFFFF"]
  by (cases "csp_queue_dequeue (qfifo_queue_handle w) 0xFFFFFFFF")
    (auto simp: csp_qfifo_read_def qf_ok_def qf_items_def split: list.split)

lemma qfifo_read_hands_over:
  assumes inv: "bufs_inv (X + qf_refs w) w" and ok: "qf_ok w" and it: "qf_items w = e # es"
    and rd: "csp_qfifo_read w = (r, f, w')"
  shows "r = CSP_ERR_NONE" "f = Some e" "qf_items w' = es" "qf_ok w'"
    and "bufs_inv (X + elem_refs e + qf_refs w') w'"
    and "w' = w\<lparr>qfifo_queue_handle := qfifo_queue_handle w'\<rparr>"
proof -
  have w': "w' = w\<lparr>qfifo_queue_handle := snd (csp_queue_dequeue (qfifo_queue_handle w) 0xFFFFFFFF)\<rparr>"
    and rf: "r = CSP_ERR_NONE" "f = Some e"
    using rd it by (simp_all add: qfifo_read_cases [OF ok])
  show "r = CSP_ERR_NONE" "f = Some e" by (fact rf)+
  show es: "qf_items w' = es"
    using it ok qh_recv_Cons [of "qfifo_queue_handle w" e es] by (simp add: w' qf_items_def qf_ok_def)
  show "qf_ok w'" using ok qh_recv_inv [of "qfifo_queue_handle w"] by (simp add: w' qf_ok_def)
  have refs: "X + elem_refs e + qf_refs w' = X + qf_refs w"
    using es it by (simp add: qf_refs_def add.assoc)
  have "bufs_inv (X + qf_refs w) w'" using inv by (simp add: w' frame_simps)
  then show "bufs_inv (X + elem_refs e + qf_refs w') w'" by (simp only: refs)
  show "w' = w\<lparr>qfifo_queue_handle := qfifo_queue_handle w'\<rparr>" by (simp add: w')
qed

text \<open>
  Writing a packet to the router's queue always takes over the caller's reference: with an
  interface and room in the queue the packet goes to the end of it, otherwise the reference is freed.
  Either way the pool's references are again exactly those of the queue and of everybody else.
\<close>

theorem qfifo_write_ownership:
  assumes "bufs_inv (add_mset p (X + qf_refs w)) w" and "qf_ok w"
  shows "(let w' = csp_qfifo_write (Some p) iface isr w
     in qf_ok w' \<and> bufs_inv (X + qf_refs w') w' \<and>
        qf_items w' =
          (if iface \<noteq> None \<and> length (qf_items w) < CSP_QFIFO_LEN
           then qf_items w @ [\<lparr>qe_iface = iface, qe_packet = Some p\<rparr>] else qf_items w))"
proof (cases iface)
  case None
  then have "csp_qfifo_write (Some p) iface isr w = csp_buffer_free (Some p) (set_errno CSP_DBG_ERR_INVALID_POINTER w)"
    by (simp add: csp_qfifo_write_def csp_buffer_free_eq_isr Let_def)
  then have "qf_items (csp_qfifo_write (Some p) iface isr w) = qf_items w"
    by (simp add: qf_items_def frame_simps)
  then show ?thesis using qfifo_write_consumes [OF assms, of iface isr] None by (simp add: Let_def)
next
  case (Some i)
  then show ?thesis
    using qfifo_write_consumes [OF assms, of iface isr] qf_items_write(1) [OF assms(2), of p i isr]
    by (simp add: Let_def)
qed

definition ex_qf :: csp_qf where
  "ex_qf = csp_rt.extend ex_rt \<lparr>qfifo_queue_handle =
     csp_queue_create_static 16 8 (Some (replicate 16 \<lparr>qe_iface = None, qe_packet = None\<rparr>)) (Some empty_queue)\<rparr>"

lemma ex_qf_ok: "qf_ok ex_qf" "qf_items ex_qf = []" "qf_refs ex_qf = {#}"
  using qh_create [of 16 8 "replicate 16 \<lparr>qe_iface = None, qe_packet = None\<rparr>" empty_queue]
  by (simp_all add: ex_qf_def csp_rt.defs qf_ok_def qf_items_def qf_refs_def)

lemma ex_qf_inv: "bufs_inv {#0#} ex_qf"
  using ready_bufs_inv
  by (simp add: bufs_inv_def free_list_def pkt_def ex_qf_def ex_rt_def ex_ifs3_def ex_ifs_def
      csp_rt.defs csp_ifs.defs csp_bufs.defs)

theorem qfifo_write_ownership_witness:
  "qf_items (csp_qfifo_write (Some 0) (Some 1) True ex_qf) = [\<lparr>qe_iface = Some 1, qe_packet = Some 0\<rparr>] \<and>
   bufs_inv {#0#} (csp_qfifo_write (Some 0) (Some 1) True ex_qf)"
  using qfifo_write_ownership [of 0 "{#}" ex_qf "Some 1" True] ex_qf_ok ex_qf_inv
  by (auto simp: Let_def qf_refs_def elem_refs_def)

section \<open>What the operations change\<close>

lemma get_actual_more:
  "csp_buffer_get_actual r isr w = (x, w') \<Longrightarrow>
     w' = w\<lparr>pool := pool w', csp_buffers := csp_buffers w', dbg_errno := dbg_errno w',
            dbg_buffer_out := dbg_buffer_out w'\<rparr>"
  by (auto simp: csp_buffer_get_actual_def set_errno_def Let_def split: if_splits option.splits prod.splits)

lemma buffer_free_upd: "\<exists>p b e. csp_buffer_free x w = w\<lparr>pool := p, csp_buffers := b, dbg_errno := e\<rparr>"
  by (intro exI) (rule csp_buffer_free_more)

lemma qfifo_write_upd_invalid:
  assumes "x = None \<or> i = None"
  shows "\<exists>e n p b f q. csp_qfifo_write x i isr w =
     w\<lparr>dbg_errno := e, dbg_conn_ovf := n, pool := p, csp_buffers := b, ifaces := f, qfifo_queue_handle := q\<rparr>"
proof -
  from assms consider "x = None" | p where "x = Some p" "i = None" by (cases x; cases i) auto
  then show ?thesis
  proof cases
    case 1
    then have "csp_qfifo_write x i isr w = w\<lparr>dbg_errno := CSP_DBG_ERR_INVALID_POINTER\<rparr>"
      by (simp add: csp_qfifo_write_def set_errno_def)
    also have "\<dots> = w\<lparr>dbg_errno := CSP_DBG_ERR_INVALID_POINTER, dbg_conn_ovf := dbg_conn_ovf w, pool := pool w,
      csp_buffers := csp_buffers w, ifaces := ifaces w, qfifo_queue_handle := qfifo_queue_handle w\<rparr>" by simp
    finally show ?thesis by blast
  next
    case 2
    obtain p b e where "csp_buffer_free x (set_errno CSP_DBG_ERR_INVALID_POINTER w) =
        (set_errno CSP_DBG_ERR_INVALID_POINTER w)\<lparr>pool := p, csp_buffers := b, dbg_errno := e\<rparr>"
      using buffer_free_upd by blast
    then have "csp_qfifo_write x i isr w = w\<lparr>dbg_errno := e, dbg_conn_ovf := dbg_conn_ovf w, pool := p,
      csp_buffers := b, ifaces := ifaces w, qfifo_queue_handle := qfifo_queue_handle w\<rparr>"
      using 2 by (simp add: csp_qfifo_write_def csp_buffer_free_eq_isr set_errno_def Let_def)
    then show ?thesis by blast
  qed
qed

lemma qfifo_write_upd_valid:
  assumes "x = Some p" "i = Some j"
  shows "\<exists>e n p b f q. csp_qfifo_write x i isr w =
     w\<lparr>dbg_errno := e, dbg_conn_ovf := n, pool := p, csp_buffers := b, ifaces := f, qfifo_queue_handle := q\<rparr>"
proof -
  obtain r q where enq: "csp_queue_enqueue (qfifo_queue_handle w) \<lparr>qe_iface = i, qe_packet = x\<rparr> (if isr then 0 else 1) = (r, q)"
    by (cases "csp_queue_enqueue (qfifo_queue_handle w) \<lparr>qe_iface = i, qe_packet = x\<rparr> (if isr then 0 else 1)")
  let ?w = "set_iface j ((ifaces w j)\<lparr>tx_error := tx_error (ifaces w j) + 1\<rparr>)
              (w\<lparr>qfifo_queue_handle := q, dbg_conn_ovf := dbg_conn_ovf w + 1\<rparr>)"
  obtain p' b e where fr: "csp_buffer_free x ?w = ?w\<lparr>pool := p', csp_buffers := b, dbg_errno := e\<rparr>"
    using buffer_free_upd by blast
  have "csp_qfifo_write x i isr w = (if r \<noteq> CSP_QUEUE_OK then csp_buffer_free x ?w else w\<lparr>qfifo_queue_handle := q\<rparr>)"
    using enq assms
    by (cases isr) (simp_all add: csp_qfifo_write_def csp_qfifo_write_callback_def csp_queue_isr_eq
        csp_buffer_free_eq_isr Let_def)
  note res = this
  show ?thesis
  proof (cases "r = CSP_QUEUE_OK")
    case True
    then have "csp_qfifo_write x i isr w = w\<lparr>dbg_errno := dbg_errno w, dbg_conn_ovf := dbg_conn_ovf w, pool := pool w,
             csp_buffers := csp_buffers w, ifaces := ifaces w, qfifo_queue_handle := q\<rparr>"
      using res by simp
    then show ?thesis by blast
  next
    case False
    then have "csp_qfifo_write x i isr w = ?w\<lparr>pool := p', csp_buffers := b, dbg_errno := e\<rparr>"
      using res by (simp only: fr if_True simp_thms)
    also have "\<dots> = w\<lparr>dbg_errno := e, dbg_conn_ovf := dbg_conn_ovf w + 1, pool := p', csp_buffers := b,
             ifaces := ifaces ?w, qfifo_queue_handle := q\<rparr>"
      by (simp add: set_iface_def)
    finally show ?thesis by blast
  qed
qed

lemma qfifo_write_upd:
  "\<exists>e n p b f q. csp_qfifo_write x i isr w =
     w\<lparr>dbg_errno := e, dbg_conn_ovf := n, pool := p, csp_buffers := b, ifaces := f, qfifo_queue_handle := q\<rparr>"
  using qfifo_write_upd_invalid [of x i isr w] qfifo_write_upd_valid [of x _ i _ isr w] by (cases x; cases i) (simp_all only: simp_thms option.simps)

end
