(* ===== verification/Kiss.thy ===== *)
theory Kiss
  imports Qfifo Crc32
begin

text \<open>
  The KISS interface (\<open>src/interfaces/csp_if_kiss.c\<close>): framing of packets on a serial line. What the
  transmitter hands to the driver's \<open>tx_func\<close> is logged per driver as the bytes of the line; the lock
  around it has no effect on the state. The receiver is a state machine fed byte by byte. Its two ways to
  stop are \<open>NoReturn\<close> (\<open>csp_buffer_get_always\<close> panics and loops) and \<open>BadAccess\<close> (a null pointer is
  followed or a byte written outside the packet); the second is proved not to happen.
\<close>

section \<open>State and operations\<close>

datatype csp_kiss_mode = KISS_MODE_NOT_STARTED | KISS_MODE_STARTED | KISS_MODE_ESCAPED | KISS_MODE_SKIP_FRAME

record csp_kiss_interface_data =
  has_tx_func :: bool
  rx_mode :: csp_kiss_mode
  rx_length :: c_uint
  rx_first :: bool
  rx_packet :: "nat option"

record csp_ks = csp_qf +
  kiss :: "nat \<Rightarrow> csp_kiss_interface_data"
  line_out :: "nat option \<Rightarrow> u8 list"

datatype rx_stop = NoReturn | BadAccess

abbreviation (input) FEND :: u8 where "FEND \<equiv> 0xC0"
abbreviation (input) FESC :: u8 where "FESC \<equiv> 0xDB"
abbreviation (input) TFEND :: u8 where "TFEND \<equiv> 0xDC"
abbreviation (input) TFESC :: u8 where "TFESC \<equiv> 0xDD"
abbreviation (input) TNC_DATA :: u8 where "TNC_DATA \<equiv> 0x00"

text \<open>\<open>tx_func\<close>: its result is ignored by the transmitter.\<close>

definition tx_func :: "nat option \<Rightarrow> u8 list \<Rightarrow> ('a) csp_ks_scheme \<Rightarrow> ('a) csp_ks_scheme" where
  "tx_func driver bs w = w\<lparr>line_out := (line_out w)(driver := line_out w driver @ bs)\<rparr>"

fun kiss_tx_loop :: "nat option \<Rightarrow> u8 list \<Rightarrow> ('a) csp_ks_scheme \<Rightarrow> ('a) csp_ks_scheme" where
  "kiss_tx_loop driver [] w = w"
| "kiss_tx_loop driver (d # ds) w =
     (if d = FEND then kiss_tx_loop driver ds (tx_func driver [FESC, TFEND] w)
      else if d = FESC then kiss_tx_loop driver ds (tx_func driver [FESC, TFESC] w)
      else kiss_tx_loop driver ds (tx_func driver [d] w))"

text \<open>The result of \<open>csp_crc32_append\<close> is ignored: a packet without room for the checksum goes out without it.\<close>

definition csp_kiss_tx ::
  "nat \<Rightarrow> u16 \<Rightarrow> nat \<Rightarrow> bool \<Rightarrow> ('a) csp_ks_scheme \<Rightarrow> int \<times> ('a) csp_ks_scheme" where
  "csp_kiss_tx iface via packet from_me w =
     (let driver = driver_data (ifaces w iface);
          w = set_pkt packet (snd (csp_crc32_append (pkt w packet))) w;
          w = set_pkt packet (csp_id_prepend (version (csp_conf w)) (pkt w packet)) w;
          w = tx_func driver [FEND, TNC_DATA] w;
          w = kiss_tx_loop driver (frame_bytes (pkt w packet)) w;
          w = tx_func driver [FEND] w;
          w = csp_buffer_free (Some packet) w
      in (CSP_ERR_NONE, w))"

definition set_kiss :: "nat \<Rightarrow> csp_kiss_interface_data \<Rightarrow> ('a) csp_ks_scheme \<Rightarrow> ('a) csp_ks_scheme" where
  "set_kiss d k w = w\<lparr>kiss := (kiss w)(d := k)\<rparr>"

text \<open>\<open>frame_begin[n]\<close> of the packet: its position in the packet's area.\<close>

definition frame_pos :: "csp_packet \<Rightarrow> nat \<Rightarrow> nat option" where
  "frame_pos p n = (case frame_begin p of Own off \<Rightarrow> Some (off + n) | Alias _ _ \<Rightarrow> None)"

text \<open>\<open>frame_begin[rx_length++] = x\<close>\<close>

definition rx_store :: "nat \<Rightarrow> u8 \<Rightarrow> ('a) csp_ks_scheme \<Rightarrow> rx_stop + ('a) csp_ks_scheme" where
  "rx_store d x w =
     (let k = kiss w d
      in case rx_packet k of
        None \<Rightarrow> Inl BadAccess
      | Some b \<Rightarrow>
          (case frame_pos (pkt w b) (unat (rx_length k)) of
             None \<Rightarrow> Inl BadAccess
           | Some n \<Rightarrow>
               (case mem_write (area (pkt w b)) n [x] of
                  None \<Rightarrow> Inl BadAccess
                | Some m \<Rightarrow>
                    Inr (set_kiss d (k\<lparr>rx_length := rx_length k + 1\<rparr>) (set_pkt b ((pkt w b)\<lparr>area := m\<rparr>) w)))))"

definition rx_overrun :: "nat \<Rightarrow> ('a) csp_ks_scheme \<Rightarrow> bool" where
  "rx_overrun d w =
     (case rx_packet (kiss w d) of
        None \<Rightarrow> False
      | Some b \<Rightarrow> (case frame_pos (pkt w b) (unat (rx_length (kiss w d))) of
          None \<Rightarrow> False
        | Some n \<Rightarrow> DATA_OFF + CSP_BUFFER_SIZE \<le> n))"

definition rx_not_started :: "bool \<Rightarrow> nat \<Rightarrow> nat \<Rightarrow> u8 \<Rightarrow> ('a) csp_ks_scheme \<Rightarrow> rx_stop + ('a) csp_ks_scheme" where
  "rx_not_started isr iface d inputbyte w =
     (if inputbyte \<noteq> FEND then Inr w
      else case (if rx_packet (kiss w d) = None then
                   (case (if isr then csp_buffer_get_always_isr w else csp_buffer_get_always w) of
                      None \<Rightarrow> Inl NoReturn
                    | Some (b, w) \<Rightarrow> Inr (set_kiss d ((kiss w d)\<lparr>rx_packet := Some b\<rparr>) w))
                 else Inr w) of
        Inl e \<Rightarrow> Inl e
      | Inr w \<Rightarrow>
          (case rx_packet (kiss w d) of
             None \<Rightarrow>
               Inr (set_iface iface ((ifaces w iface)\<lparr>drop_ctr := drop_ctr (ifaces w iface) + 1\<rparr>)
                     (set_kiss d ((kiss w d)\<lparr>rx_mode := KISS_MODE_SKIP_FRAME\<rparr>) w))
           | Some b \<Rightarrow>
               let w = set_pkt b (snd (csp_id_setup_rx (version (csp_conf w)) (pkt w b))) w
               in Inr (set_kiss d ((kiss w d)\<lparr>rx_length := 0, rx_mode := KISS_MODE_STARTED, rx_first := True\<rparr>) w)))"

definition rx_bad_frame :: "nat \<Rightarrow> nat \<Rightarrow> ('a) csp_ks_scheme \<Rightarrow> ('a) csp_ks_scheme" where
  "rx_bad_frame iface d w =
     set_kiss d ((kiss w d)\<lparr>rx_mode := KISS_MODE_NOT_STARTED\<rparr>)
       (set_iface iface ((ifaces w iface)\<lparr>frame := frame (ifaces w iface) + 1\<rparr>) w)"

text \<open>The end of a frame that has bytes: parse the header, check the checksum, hand the packet to the router.\<close>

definition rx_accept :: "bool \<Rightarrow> nat \<Rightarrow> nat \<Rightarrow> nat \<Rightarrow> ('a) csp_ks_scheme \<Rightarrow> rx_stop + ('a) csp_ks_scheme" where
  "rx_accept isr iface d b w =
     (let w = set_pkt b ((pkt w b)\<lparr>frame_length := rx_length (kiss w d)\<rparr>) w
      in case csp_id_strip (version (csp_conf w)) (pkt w b) of
        None \<Rightarrow> Inl BadAccess
      | Some (r, p) \<Rightarrow>
          let w = set_pkt b p w
          in if r < 0 then Inr (rx_bad_frame iface d w)
             else (case csp_crc32_verify (version (csp_conf w)) (pkt w b) of
               (r, p) \<Rightarrow>
                 let w = set_pkt b p w
                 in if r \<noteq> CSP_ERR_NONE then Inr (rx_bad_frame iface d w)
                    else let w = csp_qfifo_write (Some b) (Some iface) isr w
                         in Inr (set_kiss d ((kiss w d)\<lparr>rx_packet := None, rx_mode := KISS_MODE_NOT_STARTED\<rparr>) w)))"

definition rx_started :: "bool \<Rightarrow> nat \<Rightarrow> nat \<Rightarrow> u8 \<Rightarrow> ('a) csp_ks_scheme \<Rightarrow> rx_stop + ('a) csp_ks_scheme" where
  "rx_started isr iface d inputbyte w =
     (if inputbyte = FESC then Inr (set_kiss d ((kiss w d)\<lparr>rx_mode := KISS_MODE_ESCAPED\<rparr>) w)
      else if inputbyte = FEND then
        (if 0 < rx_length (kiss w d) then
           (case rx_packet (kiss w d) of
              None \<Rightarrow> Inl BadAccess
            | Some b \<Rightarrow> rx_accept isr iface d b w)
         else Inr w)
      else if rx_first (kiss w d) then Inr (set_kiss d ((kiss w d)\<lparr>rx_first := False\<rparr>) w)
      else rx_store d inputbyte w)"

definition rx_escaped :: "nat \<Rightarrow> u8 \<Rightarrow> ('a) csp_ks_scheme \<Rightarrow> rx_stop + ('a) csp_ks_scheme" where
  "rx_escaped d inputbyte w =
     (case (if inputbyte = TFESC then rx_store d FESC w
            else if inputbyte = TFEND then rx_store d FEND w
            else Inr w) of
        Inl e \<Rightarrow> Inl e
      | Inr w \<Rightarrow> Inr (set_kiss d ((kiss w d)\<lparr>rx_mode := KISS_MODE_STARTED\<rparr>) w))"

definition kiss_rx_byte :: "bool \<Rightarrow> nat \<Rightarrow> nat \<Rightarrow> u8 \<Rightarrow> ('a) csp_ks_scheme \<Rightarrow> rx_stop + ('a) csp_ks_scheme" where
  "kiss_rx_byte isr iface d inputbyte w =
     (let w = (if rx_overrun d w then
                 set_kiss d ((kiss w d)\<lparr>rx_mode := KISS_MODE_NOT_STARTED, rx_length := 0\<rparr>)
                   (set_iface iface ((ifaces w iface)\<lparr>rx_error := rx_error (ifaces w iface) + 1\<rparr>) w)
               else w)
      in case rx_mode (kiss w d) of
        KISS_MODE_NOT_STARTED \<Rightarrow> rx_not_started isr iface d inputbyte w
      | KISS_MODE_STARTED \<Rightarrow> rx_started isr iface d inputbyte w
      | KISS_MODE_ESCAPED \<Rightarrow> rx_escaped d inputbyte w
      | KISS_MODE_SKIP_FRAME \<Rightarrow>
          Inr (if inputbyte = FEND then set_kiss d ((kiss w d)\<lparr>rx_mode := KISS_MODE_NOT_STARTED\<rparr>) w else w))"

fun kiss_rx_loop :: "bool \<Rightarrow> nat \<Rightarrow> nat \<Rightarrow> u8 list \<Rightarrow> ('a) csp_ks_scheme \<Rightarrow> rx_stop + ('a) csp_ks_scheme" where
  "kiss_rx_loop isr iface d [] w = Inr w"
| "kiss_rx_loop isr iface d (x # xs) w =
     (case kiss_rx_byte isr iface d x w of Inl e \<Rightarrow> Inl e | Inr w' \<Rightarrow> kiss_rx_loop isr iface d xs w')"

definition csp_kiss_rx :: "nat \<Rightarrow> u8 list \<Rightarrow> bool \<Rightarrow> ('a) csp_ks_scheme \<Rightarrow> rx_stop + ('a) csp_ks_scheme" where
  "csp_kiss_rx iface buf isr w =
     (case interface_data (ifaces w iface) of
        None \<Rightarrow> (if buf = [] then Inr w else Inl BadAccess)
      | Some d \<Rightarrow> kiss_rx_loop isr iface d buf w)"

definition csp_kiss_add_interface :: "nat option \<Rightarrow> ('a) csp_ks_scheme \<Rightarrow> int \<times> ('a) csp_ks_scheme" where
  "csp_kiss_add_interface iface w =
     (case iface of
        None \<Rightarrow> (CSP_ERR_INVAL, w)
      | Some i \<Rightarrow>
          (case (name (ifaces w i), interface_data (ifaces w i)) of
             (Some _, Some d) \<Rightarrow>
               if \<not> has_tx_func (kiss w d) then (CSP_ERR_INVAL, w)
               else let w = set_kiss d ((kiss w d)\<lparr>rx_length := 0, rx_mode := KISS_MODE_NOT_STARTED,
                                                    rx_first := False, rx_packet := None\<rparr>) w;
                        w = set_iface i ((ifaces w i)\<lparr>nexthop := NextKiss\<rparr>) w
                    in (CSP_ERR_NONE, csp_iflist_add iface w)
           | _ \<Rightarrow> (CSP_ERR_INVAL, w)))"

section \<open>What the operations leave alone\<close>

lemma kiss_frame [frame_simps]:
  "kiss (csp_qfifo_write p iface isr w) = kiss w"
  "kiss (set_kiss d k w) = (kiss w)(d := k)"
  "kiss (set_pkt b q w) = kiss w"
  "kiss (set_iface i f w) = kiss w"
  "kiss (csp_buffer_free p w) = kiss w"
  "kiss (w\<lparr>line_out := l\<rparr>) = kiss w"
  using qfifo_write_upd [of p iface isr w] buffer_free_upd [of p w]
  by (auto simp: set_kiss_def set_pkt_def set_iface_def)

lemma pkt_frame [frame_simps]:
  "pkt (set_kiss d k w) b = pkt w b"
  "pkt (set_pkt c p w) b = (if b = c then p else pkt w b)"
  "pkt (set_iface i f w) b = pkt w b"
  by (simp_all add: pkt_def set_kiss_def set_pkt_def set_iface_def)

lemma kiss_state_frame [frame_simps]:
  "bufs_inv M (set_kiss d k w) = bufs_inv M w"
  "qfifo_queue_handle (set_kiss d k w) = qfifo_queue_handle w"
  "csp_conf (set_kiss d k w) = csp_conf w"
  "csp_conf (set_pkt b p w) = csp_conf w"
  "csp_conf (set_iface i f w) = csp_conf w"
  "interfaces (set_kiss d k w) = interfaces w"
  "ifaces (set_kiss d k w) = ifaces w"
  "ifaces (set_pkt b p w) = ifaces w"
  by (simp_all add: set_kiss_def set_pkt_def set_iface_def bufs_inv_def free_list_def pkt_def)

lemma qf_frame [frame_simps]:
  "qf_items (set_kiss d k w) = qf_items w" "qf_items (set_pkt b p w) = qf_items w"
  "qf_items (set_iface i f w) = qf_items w"
  "qf_refs (set_kiss d k w) = qf_refs w" "qf_refs (set_pkt b p w) = qf_refs w"
  "qf_refs (set_iface i f w) = qf_refs w"
  "qf_ok (set_kiss d k w) = qf_ok w" "qf_ok (set_pkt b p w) = qf_ok w"
  "qf_ok (set_iface i f w) = qf_ok w"
  by (simp_all add: qf_items_def qf_refs_def qf_ok_def frame_simps)

section \<open>Receiver invariant\<close>

text \<open>
  The packet being received is a reference the receiver owns; its frame begins where the header of the
  version begins, and the bytes stored so far lie inside the packet.
\<close>

definition kiss_ref :: "nat \<Rightarrow> ('a) csp_ks_scheme \<Rightarrow> nat multiset" where
  "kiss_ref d w = (case rx_packet (kiss w d) of None \<Rightarrow> {#} | Some b \<Rightarrow> {#b#})"

definition kiss_ok :: "nat \<Rightarrow> ('a) csp_ks_scheme \<Rightarrow> bool" where
  "kiss_ok d w \<longleftrightarrow>
     (let k = kiss w d; h = hdr_size (version (csp_conf w))
      in case rx_packet k of
        None \<Rightarrow> rx_mode k = KISS_MODE_NOT_STARTED \<or> rx_mode k = KISS_MODE_SKIP_FRAME
      | Some b \<Rightarrow> frame_begin (pkt w b) = Own (DATA_OFF - h) \<and> unat (rx_length k) \<le> h + CSP_BUFFER_SIZE)"

definition kiss_inv :: "nat multiset \<Rightarrow> nat \<Rightarrow> ('a) csp_ks_scheme \<Rightarrow> bool" where
  "kiss_inv X d w \<longleftrightarrow> bufs_inv (X + kiss_ref d w + qf_refs w) w \<and> qf_ok w \<and> kiss_ok d w"

text \<open>What one byte may do: keep the invariant, or stop because the pool has no buffer left.\<close>

definition step_ok :: "nat multiset \<Rightarrow> nat \<Rightarrow> ('a) csp_ks_scheme \<Rightarrow> rx_stop + ('a) csp_ks_scheme \<Rightarrow> bool" where
  "step_ok X d w r \<longleftrightarrow>
     (case r of Inl e \<Rightarrow> e = NoReturn \<and> csp_buffer_remaining w = 0 | Inr w' \<Rightarrow> kiss_inv X d w')"

lemma rx_area:
  assumes "kiss_inv X d w" and "rx_packet (kiss w d) = Some b"
  shows "packet_ok (pkt w b)" and "length (area (pkt w b)) = AREA_SIZE"
proof -
  have "bufs_inv (X + kiss_ref d w + qf_refs w) w" using assms(1) by (simp add: kiss_inv_def)
  moreover have "b \<in># X + kiss_ref d w + qf_refs w" using assms(2) by (simp add: kiss_ref_def)
  ultimately show "packet_ok (pkt w b)" using bufs_invD(8) by blast
  then show "length (area (pkt w b)) = AREA_SIZE" by (simp add: packet_ok_def)
qed

lemma kiss_inv_mode:
  assumes "kiss_inv X d w" and "rx_packet k = rx_packet (kiss w d)"
    and "rx_packet (kiss w d) = None \<Longrightarrow> rx_mode k = KISS_MODE_NOT_STARTED \<or> rx_mode k = KISS_MODE_SKIP_FRAME"
    and "unat (rx_length k) \<le> unat (rx_length (kiss w d))"
  shows "kiss_inv X d (set_kiss d k w)"
  using assms unfolding kiss_inv_def kiss_ok_def kiss_ref_def
  by (auto simp: frame_simps Let_def split: option.splits)

lemma kiss_inv_iface: "kiss_inv X d (set_iface i f w) = kiss_inv X d w"
  by (simp add: kiss_inv_def kiss_ok_def kiss_ref_def frame_simps Let_def split: option.split)

lemma kiss_inv_pkt:
  assumes "kiss_inv X d w" and b: "rx_packet (kiss w d) = Some b"
    and "packet_ok p" and "frame_begin p = frame_begin (pkt w b)"
  shows "kiss_inv X d (set_pkt b p w)"
  using assms unfolding kiss_inv_def kiss_ok_def kiss_ref_def
  by (simp add: frame_simps bufs_inv_set_pkt)

lemma setup_rx_packet:
  "snd (csp_id_setup_rx v p) = p\<lparr>frame_begin := Own (DATA_OFF - hdr_size v), frame_length := 0\<rparr>"
  by (simp add: csp_id_setup_rx_def csp_id1_setup_rx_def csp_id2_setup_rx_def hdr_size_def)

lemma start_frame_ok:
  assumes "bufs_inv (add_mset b (X + qf_refs w)) w" and "qf_ok w" and b: "rx_packet (kiss w d) = Some b"
  shows "kiss_inv X d
     (set_kiss d ((kiss w d)\<lparr>rx_length := 0, rx_mode := KISS_MODE_STARTED, rx_first := True\<rparr>)
       (set_pkt b (snd (csp_id_setup_rx (version (csp_conf w)) (pkt w b))) w))"
proof -
  have "b \<in># add_mset b (X + qf_refs w)" by simp
  from bufs_invD(8) [OF assms(1) this]
  have "packet_ok (snd (csp_id_setup_rx (version (csp_conf w)) (pkt w b)))"
    by (simp add: setup_rx_packet packet_ok_def)
  then have "bufs_inv (add_mset b (X + qf_refs w)) (set_pkt b (snd (csp_id_setup_rx (version (csp_conf w)) (pkt w b))) w)"
    using assms(1) by (rule bufs_inv_set_pkt [rotated])
  then show ?thesis
    using assms(2) b
    by (simp add: kiss_inv_def kiss_ok_def kiss_ref_def frame_simps setup_rx_packet)
qed

lemma get_always_result:
  assumes inv: "bufs_inv M w" and g: "(if isr then csp_buffer_get_always_isr w else csp_buffer_get_always w) = r"
  shows "case r of
      None \<Rightarrow> csp_buffer_remaining w = 0
    | Some (b, w') \<Rightarrow> bufs_inv (add_mset b M) w' \<and> kiss w' = kiss w \<and> qfifo_queue_handle w' = qfifo_queue_handle w \<and>
        csp_conf w' = csp_conf w"
proof -
  obtain x w' where a: "csp_buffer_get_actual 0 isr w = (x, w')" by (cases "csp_buffer_get_actual 0 isr w")
  have r: "r = (case x of None \<Rightarrow> None | Some b \<Rightarrow> Some (b, w'))"
    using g a by (cases isr) (auto simp: csp_buffer_get_always_def csp_buffer_get_always_isr_def split: option.split)
  show ?thesis
  proof (cases x)
    case None
    then have "\<not> 1 \<le> csp_buffer_remaining w"
      using get_succeeds_iff [OF inv, of 0 isr] a by auto
    then show ?thesis by (simp add: r None)
  next
    case (Some b)
    have w': "w' = w\<lparr>pool := pool w', csp_buffers := csp_buffers w', dbg_errno := dbg_errno w',
            dbg_buffer_out := dbg_buffer_out w'\<rparr>"
      by (rule get_actual_more [OF a])
    have "kiss w' = kiss w" "qfifo_queue_handle w' = qfifo_queue_handle w" "csp_conf w' = csp_conf w"
      by (subst w', simp)+
    then show ?thesis using get_actual_Some(2) [OF inv] a Some by (simp add: r)
  qed
qed

lemma rx_not_started_ok:
  assumes inv: "kiss_inv X d w"
  shows "step_ok X d w (rx_not_started isr i d x w)"
proof (cases "x = FEND")
  case False
  then show ?thesis using inv by (simp add: rx_not_started_def step_ok_def)
next
  case fend: True
  show ?thesis
  proof (cases "rx_packet (kiss w d)")
    case (Some b)
    then have "bufs_inv (add_mset b (X + qf_refs w)) w" "qf_ok w"
      using inv by (simp_all add: kiss_inv_def kiss_ref_def)
    from start_frame_ok [OF this Some] show ?thesis
      using fend Some by (simp add: rx_not_started_def step_ok_def Let_def frame_simps)
  next
    case None
    define r where "r = (if isr then csp_buffer_get_always_isr w else csp_buffer_get_always w)"
    have "bufs_inv (X + qf_refs w) w" "qf_ok w" using inv None by (simp_all add: kiss_inv_def kiss_ref_def)
    note G = get_always_result [OF this(1) r_def [symmetric]]
    show ?thesis
    proof (cases r)
      case rN: None
      then show ?thesis using fend None G by (simp add: rx_not_started_def step_ok_def flip: r_def)
    next
      case (Some bw)
      then obtain b w1 where bw: "r = Some (b, w1)" by (cases bw) auto
      let ?w = "set_kiss d ((kiss w1 d)\<lparr>rx_packet := Some b\<rparr>) w1"
      have "qf_refs w1 = qf_refs w" using G bw by (simp add: qf_refs_def qf_items_def)
      then have "bufs_inv (add_mset b (X + qf_refs ?w)) ?w"
        using G bw by (simp add: frame_simps)
      moreover have "qf_ok ?w" using G bw \<open>qf_ok w\<close> by (simp add: frame_simps) (simp add: qf_ok_def)
      moreover have "rx_packet (kiss ?w d) = Some b" by (simp add: frame_simps)
      ultimately have "kiss_inv X d
         (set_kiss d ((kiss ?w d)\<lparr>rx_length := 0, rx_mode := KISS_MODE_STARTED, rx_first := True\<rparr>)
           (set_pkt b (snd (csp_id_setup_rx (version (csp_conf ?w)) (pkt ?w b))) ?w))"
        by (rule start_frame_ok)
      then show ?thesis
        using fend None bw \<open>rx_packet (kiss ?w d) = Some b\<close>
        by (simp add: rx_not_started_def step_ok_def Let_def frame_simps flip: r_def)
    qed
  qed
qed

text \<open>Between the overrun test and the next one there is room for one byte.\<close>

definition rx_room :: "nat \<Rightarrow> ('a) csp_ks_scheme \<Rightarrow> bool" where
  "rx_room d w \<longleftrightarrow>
     (case rx_packet (kiss w d) of
        None \<Rightarrow> True
      | Some b \<Rightarrow> unat (rx_length (kiss w d)) < hdr_size (version (csp_conf w)) + CSP_BUFFER_SIZE)"

lemma rx_frame_pos:
  assumes "kiss_inv X d w" and "rx_packet (kiss w d) = Some b"
  shows "frame_pos (pkt w b) n = Some (DATA_OFF - hdr_size (version (csp_conf w)) + n)"
  using assms by (simp add: kiss_inv_def kiss_ok_def frame_pos_def Let_def)

lemma rx_overrun_room: "kiss_inv X d w \<Longrightarrow> rx_overrun d w \<longleftrightarrow> \<not> rx_room d w"
proof (cases "rx_packet (kiss w d)")
  case (Some b)
  moreover assume inv: "kiss_inv X d w"
  moreover have "hdr_size (version (csp_conf w)) \<le> 6" by (rule hdr_size_le)
  ultimately show ?thesis
    by (simp add: rx_overrun_def rx_room_def rx_frame_pos [OF inv Some]) arith
qed (simp add: rx_overrun_def rx_room_def)

lemma rx_store_eq:
  assumes inv: "kiss_inv X d w" and b: "rx_packet (kiss w d) = Some b" and room: "rx_room d w"
  shows "rx_store d x w =
     Inr (set_kiss d ((kiss w d)\<lparr>rx_length := rx_length (kiss w d) + 1\<rparr>)
           (set_pkt b ((pkt w b)\<lparr>area := mem_put (area (pkt w b))
              (DATA_OFF - hdr_size (version (csp_conf w)) + unat (rx_length (kiss w d))) [x]\<rparr>) w))"
proof -
  let ?n = "DATA_OFF - hdr_size (version (csp_conf w)) + unat (rx_length (kiss w d))"
  have "hdr_size (version (csp_conf w)) \<le> 6" by (rule hdr_size_le)
  then have "?n + length [x] \<le> length (area (pkt w b))"
    using room b rx_area [OF inv b] by (simp add: rx_room_def)
  then show ?thesis
    by (simp add: rx_store_def b rx_frame_pos [OF inv b] mem_write_put Let_def del: One_nat_def)
qed

lemma rx_store_ok:
  assumes inv: "kiss_inv X d w" and b: "rx_packet (kiss w d) \<noteq> None" and room: "rx_room d w"
  shows "\<exists>w'. rx_store d x w = Inr w' \<and> kiss_inv X d w'"
proof -
  obtain b where b: "rx_packet (kiss w d) = Some b" using b by blast
  let ?n = "DATA_OFF - hdr_size (version (csp_conf w)) + unat (rx_length (kiss w d))"
  let ?p = "(pkt w b)\<lparr>area := mem_put (area (pkt w b)) ?n [x]\<rparr>"
  let ?w = "set_pkt b ?p w"
  have h: "hdr_size (version (csp_conf w)) \<le> 6" by (rule hdr_size_le)
  then have "?n + length [x] \<le> length (area (pkt w b))"
    using room b rx_area [OF inv b] by (simp add: rx_room_def)
  then have ok: "kiss_inv X d ?w"
    using kiss_inv_pkt [OF inv b, of ?p] rx_area [OF inv b] by (simp add: packet_ok_def)
  have "unat (rx_length (kiss w d) + 1) = unat (rx_length (kiss w d)) + 1"
    using room b h by (simp add: rx_room_def unat_word_ariths)
  then have "kiss_inv X d (set_kiss d ((kiss w d)\<lparr>rx_length := rx_length (kiss w d) + 1\<rparr>) ?w)"
    using ok room b unfolding kiss_inv_def kiss_ok_def kiss_ref_def rx_room_def
    by (simp add: frame_simps)
  then show ?thesis using rx_store_eq [OF inv b room] by simp
qed

lemma csp_id_strip_frame:
  assumes "csp_id_strip v p = Some (r, q)"
  shows "frame_begin q = frame_begin p" "area q = area p"
  using assms
  by (auto simp: csp_id_strip_def csp_id1_strip_def csp_id2_strip_def Let_def split: if_splits option.splits)

lemma crc32_verify_packet_ok:
  assumes ok: "packet_ok p" and ver: "csp_crc32_verify v p = (r, q)" and pre: "packet_ok (csp_id_prepend v p)"
  shows "packet_ok q"
proof (cases "crc_good v (p_id p) (payload p)")
  case True
  then have "4 \<le> unat (p_length p)" using ok by (simp add: crc_good_def)
  then have "unat (p_length p - 4) \<le> unat (p_length p)" by (simp add: unat_sub word_le_nat_alt)
  then show ?thesis
    using True ver pre crc32_verify_spec [OF ok, of v] by (auto simp: packet_ok_def)
next
  case False
  then show ?thesis using ver ok pre crc32_verify_spec [OF ok, of v] by (auto split: if_splits)
qed

lemma csp_crc32_verify_frame:
  assumes "packet_ok p" and "frame_begin p = Own (DATA_OFF - hdr_size v)" and "csp_crc32_verify v p = (r, q)"
  shows "frame_begin q = frame_begin p" "packet_ok q"
proof -
  have ok: "packet_ok (csp_id_prepend v p)" using assms(1) by simp
  show "frame_begin q = frame_begin p"
    using assms crc32_verify_spec [OF assms(1), of v] by (auto split: if_splits)
  show "packet_ok q"
    using crc32_verify_packet_ok [OF assms(1,3) ok] .
qed

text \<open>Parsing what was received: the packet stays in place and its payload fits.\<close>

lemma received_strip:
  assumes fb: "frame_begin p = Own (DATA_OFF - hdr_size v)" and ok: "packet_ok p"
    and fl: "unat (frame_length p) \<le> hdr_size v + CSP_BUFFER_SIZE"
  shows "\<exists>r q. csp_id_strip v p = Some (r, q) \<and> frame_begin q = frame_begin p \<and> packet_ok q"
proof (cases "unat (frame_length p) < hdr_size v")
  case True
  then show ?thesis using fb ok by (simp add: csp_id_strip_short)
next
  case False
  have h: "hdr_size v \<le> 6" by (rule hdr_size_le)
  have "unat (of_nat (hdr_size v) :: u16) = hdr_size v" by (simp add: hdr_size_def)
  then have "unat (frame_length p - of_nat (hdr_size v)) = unat (frame_length p) - hdr_size v"
    using False by (simp add: unat_sub word_le_nat_alt)
  then show ?thesis
    using False fl h ok csp_id_strip_eq [of v p "DATA_OFF - hdr_size v"] fb by (simp add: packet_ok_def)
qed

lemma rx_bad_frame_ok:
  assumes "kiss_inv X d w"
  shows "kiss_inv X d (rx_bad_frame i d w)"
proof -
  have "kiss_inv X d (set_iface i ((ifaces w i)\<lparr>frame := frame (ifaces w i) + 1\<rparr>) w)"
    using assms by (simp add: kiss_inv_iface)
  then show ?thesis unfolding rx_bad_frame_def by (rule kiss_inv_mode) (simp_all add: frame_simps)
qed

lemma rx_handed_over:
  assumes inv: "kiss_inv X d w" and b: "rx_packet (kiss w d) = Some b" and w': "w' = csp_qfifo_write (Some b) (Some i) isr w"
  shows "kiss_inv X d (set_kiss d ((kiss w' d)\<lparr>rx_packet := None, rx_mode := KISS_MODE_NOT_STARTED\<rparr>) w')"
proof -
  have "bufs_inv (add_mset b (X + qf_refs w)) w" "qf_ok w"
    using inv b by (simp_all add: kiss_inv_def kiss_ref_def)
  from qfifo_write_consumes [OF this] have "bufs_inv (X + qf_refs w') w'" "qf_ok w'" by (simp_all add: w')
  then show ?thesis by (simp add: kiss_inv_def kiss_ref_def kiss_ok_def frame_simps)
qed

lemma rx_accept_ok:
  assumes inv: "kiss_inv X d w" and b: "rx_packet (kiss w d) = Some b"
  shows "\<exists>w'. rx_accept isr i d b w = Inr w' \<and> kiss_inv X d w'"
proof -
  let ?v = "version (csp_conf w)"
  define w1 where "w1 = set_pkt b ((pkt w b)\<lparr>frame_length := rx_length (kiss w d)\<rparr>) w"
  have i1: "kiss_inv X d w1"
    using kiss_inv_pkt [OF inv b] rx_area [OF inv b] by (simp add: w1_def packet_ok_def)
  have p1: "pkt w1 b = (pkt w b)\<lparr>frame_length := rx_length (kiss w d)\<rparr>" "kiss w1 = kiss w" "csp_conf w1 = csp_conf w"
    by (simp_all add: w1_def frame_simps)
  have k: "frame_begin (pkt w b) = Own (DATA_OFF - hdr_size ?v)" "unat (rx_length (kiss w d)) \<le> hdr_size ?v + CSP_BUFFER_SIZE"
    using inv b by (simp_all add: kiss_inv_def kiss_ok_def Let_def)
  obtain r q where st: "csp_id_strip ?v (pkt w1 b) = Some (r, q)" "frame_begin q = frame_begin (pkt w b)" "packet_ok q"
    using received_strip [of "pkt w1 b" ?v] rx_area [OF i1] b k by (auto simp: p1)
  define w2 where "w2 = set_pkt b q w1"
  have i2: "kiss_inv X d w2"
    unfolding w2_def by (rule kiss_inv_pkt [OF i1]) (simp_all add: p1 b st)
  have p2: "pkt w2 b = q" "kiss w2 = kiss w" "csp_conf w2 = csp_conf w"
    by (simp_all add: w2_def frame_simps p1)
  show ?thesis
  proof (cases "r < 0")
    case True
    then have "rx_accept isr i d b w = Inr (rx_bad_frame i d w2)"
      using st by (simp add: rx_accept_def w1_def [symmetric] w2_def [symmetric] p1)
    then show ?thesis using rx_bad_frame_ok [OF i2] by simp
  next
    case False
    obtain r' q' where ver: "csp_crc32_verify ?v q = (r', q')" by (cases "csp_crc32_verify ?v q")
    define w3 where "w3 = set_pkt b q' w2"
    have "frame_begin q' = frame_begin q" "packet_ok q'"
      using csp_crc32_verify_frame [OF st(3) _ ver] st(2) k(1) by simp_all
    then have i3: "kiss_inv X d w3"
      unfolding w3_def using kiss_inv_pkt [OF i2, of b q'] b p2 by simp
    have p3: "kiss w3 = kiss w" "csp_conf w3 = csp_conf w" by (simp_all add: w3_def frame_simps p2)
    show ?thesis
    proof (cases "r' = CSP_ERR_NONE")
      case bad: False
      then have "rx_accept isr i d b w = Inr (rx_bad_frame i d w3)"
        using st False ver
        by (simp add: rx_accept_def w1_def [symmetric] w2_def [symmetric] w3_def [symmetric] p1 p2)
      then show ?thesis using rx_bad_frame_ok [OF i3] by simp
    next
      case True
      define w4 where "w4 = csp_qfifo_write (Some b) (Some i) isr w3"
      have "rx_accept isr i d b w =
          Inr (set_kiss d ((kiss w4 d)\<lparr>rx_packet := None, rx_mode := KISS_MODE_NOT_STARTED\<rparr>) w4)"
        using st False ver True
        by (simp add: rx_accept_def w1_def [symmetric] w2_def [symmetric] w3_def [symmetric] w4_def [symmetric] p1 p2)
      then show ?thesis using rx_handed_over [OF i3 _ w4_def] b by (simp add: p3)
    qed
  qed
qed

lemma kiss_packet_present:
  assumes "kiss_inv X d w" and "rx_mode (kiss w d) = KISS_MODE_STARTED \<or> rx_mode (kiss w d) = KISS_MODE_ESCAPED"
  shows "rx_packet (kiss w d) \<noteq> None"
  using assms by (auto simp: kiss_inv_def kiss_ok_def Let_def split: option.splits)

lemma rx_started_ok:
  assumes inv: "kiss_inv X d w" and room: "rx_room d w" and st: "rx_mode (kiss w d) = KISS_MODE_STARTED"
  shows "\<exists>w'. rx_started isr i d x w = Inr w' \<and> kiss_inv X d w'"
proof -
  have ne: "rx_packet (kiss w d) \<noteq> None" using kiss_packet_present [OF inv] st by simp
  then obtain b where b: "rx_packet (kiss w d) = Some b" by blast
  have m: "kiss_inv X d (set_kiss d ((kiss w d)\<lparr>rx_mode := KISS_MODE_ESCAPED\<rparr>) w)"
    "kiss_inv X d (set_kiss d ((kiss w d)\<lparr>rx_first := False\<rparr>) w)"
    using b by (auto intro!: kiss_inv_mode [OF inv])
  show ?thesis
    using m inv rx_accept_ok [OF inv b, of isr i] rx_store_ok [OF inv ne room, of x]
    by (simp add: rx_started_def b)
qed

lemma rx_escaped_ok:
  assumes inv: "kiss_inv X d w" and room: "rx_room d w" and st: "rx_mode (kiss w d) = KISS_MODE_ESCAPED"
  shows "\<exists>w'. rx_escaped d x w = Inr w' \<and> kiss_inv X d w'"
proof -
  have ne: "rx_packet (kiss w d) \<noteq> None" using kiss_packet_present [OF inv] st by simp
  obtain b where b: "rx_packet (kiss w d) = Some b" using ne by blast
  have store: "\<exists>w1. rx_store d y w = Inr w1 \<and> kiss_inv X d w1 \<and> rx_packet (kiss w1 d) \<noteq> None" for y
    using rx_store_ok [OF inv ne room, of y] rx_store_eq [OF inv b room, of y] b by (auto simp: frame_simps)
  have "\<exists>w1. (if x = TFESC then rx_store d FESC w else if x = TFEND then rx_store d FEND w else Inr w) = Inr w1 \<and>
      kiss_inv X d w1 \<and> rx_packet (kiss w1 d) \<noteq> None"
  proof (cases "x = TFESC \<or> x = TFEND")
    case True
    then show ?thesis using store [of FESC] store [of FEND] by auto
  qed (use inv ne in simp)
  then obtain w1 where
    w1: "(if x = TFESC then rx_store d FESC w else if x = TFEND then rx_store d FEND w else Inr w) = Inr w1"
    and i1: "kiss_inv X d w1" and p1: "rx_packet (kiss w1 d) \<noteq> None" by blast
  have "kiss_inv X d (set_kiss d ((kiss w1 d)\<lparr>rx_mode := KISS_MODE_STARTED\<rparr>) w1)"
    using p1 by (intro kiss_inv_mode [OF i1]) simp_all
  then show ?thesis using w1 by (simp add: rx_escaped_def)
qed

lemma kiss_rx_byte_ok:
  assumes inv: "kiss_inv X d w"
  shows "case kiss_rx_byte isr i d x w of
      Inl e \<Rightarrow> e = NoReturn \<and> csp_buffer_remaining w = 0 | Inr w' \<Rightarrow> kiss_inv X d w'"
proof -
  define w1 where "w1 = (if rx_overrun d w then
                 set_kiss d ((kiss w d)\<lparr>rx_mode := KISS_MODE_NOT_STARTED, rx_length := 0\<rparr>)
                   (set_iface i ((ifaces w i)\<lparr>rx_error := rx_error (ifaces w i) + 1\<rparr>) w)
               else w)"
  have w1: "kiss_inv X d w1 \<and> rx_room d w1 \<and> csp_buffer_remaining w1 = csp_buffer_remaining w"
  proof (cases "rx_overrun d w")
    case True
    let ?w = "set_iface i ((ifaces w i)\<lparr>rx_error := rx_error (ifaces w i) + 1\<rparr>) w"
    have "kiss_inv X d ?w" using inv by (simp add: kiss_inv_iface)
    then have "kiss_inv X d w1"
      unfolding w1_def using True by (simp, intro kiss_inv_mode) (simp_all add: frame_simps)
    moreover have "rx_room d w1"
      using True hdr_size_le [of "version (csp_conf w)"] by (simp add: w1_def rx_room_def frame_simps split: option.split)
    moreover have "csp_buffer_remaining w1 = csp_buffer_remaining w"
      using True by (simp add: w1_def csp_buffer_remaining_def set_kiss_def set_iface_def)
    ultimately show ?thesis by blast
  qed (use inv rx_overrun_room [OF inv] in \<open>simp add: w1_def\<close>)
  then have i1: "kiss_inv X d w1" and r1: "rx_room d w1" by blast+
  have eq: "kiss_rx_byte isr i d x w = (case rx_mode (kiss w1 d) of
        KISS_MODE_NOT_STARTED \<Rightarrow> rx_not_started isr i d x w1
      | KISS_MODE_STARTED \<Rightarrow> rx_started isr i d x w1
      | KISS_MODE_ESCAPED \<Rightarrow> rx_escaped d x w1
      | KISS_MODE_SKIP_FRAME \<Rightarrow>
          Inr (if x = FEND then set_kiss d ((kiss w1 d)\<lparr>rx_mode := KISS_MODE_NOT_STARTED\<rparr>) w1 else w1))"
    by (simp only: kiss_rx_byte_def Let_def w1_def)
  show ?thesis
  proof (cases "rx_mode (kiss w1 d)")
    case KISS_MODE_NOT_STARTED
    then show ?thesis using rx_not_started_ok [OF i1, of isr i x] w1
      by (simp add: eq step_ok_def split: sum.splits)
  next
    case KISS_MODE_STARTED
    then show ?thesis using rx_started_ok [OF i1 r1, of isr i x] by (auto simp: eq)
  next
    case KISS_MODE_ESCAPED
    then show ?thesis using rx_escaped_ok [OF i1 r1, of x] by (auto simp: eq)
  next
    case KISS_MODE_SKIP_FRAME
    then have "kiss_inv X d (set_kiss d ((kiss w1 d)\<lparr>rx_mode := KISS_MODE_NOT_STARTED\<rparr>) w1)"
      by (intro kiss_inv_mode [OF i1]) simp_all
    then show ?thesis using KISS_MODE_SKIP_FRAME i1 by (simp add: eq)
  qed
qed

section \<open>Runs of a byte-driven machine\<close>

locale byte_machine =
  fixes step :: "'x \<Rightarrow> 's \<Rightarrow> 'e + 's"
    and inv :: "'s \<Rightarrow> bool"
    and may_stop :: "'s \<Rightarrow> 'e \<Rightarrow> bool"
  assumes step_inv: "inv s \<Longrightarrow> step x s = Inr s' \<Longrightarrow> inv s'"
    and step_stop: "inv s \<Longrightarrow> step x s = Inl e \<Longrightarrow> may_stop s e"
begin

fun run :: "'x list \<Rightarrow> 's \<Rightarrow> 'e + 's" where
  "run [] s = Inr s"
| "run (x # xs) s = (case step x s of Inl e \<Rightarrow> Inl e | Inr s' \<Rightarrow> run xs s')"

lemma run_append: "run (xs @ ys) s = (case run xs s of Inl e \<Rightarrow> Inl e | Inr s' \<Rightarrow> run ys s')"
  by (induction xs arbitrary: s) (auto split: sum.split)

lemma run_inv: "inv s \<Longrightarrow> run xs s = Inr s' \<Longrightarrow> inv s'"
  by (induction xs arbitrary: s) (auto split: sum.splits dest: step_inv)

lemma run_stop:
  "inv s \<Longrightarrow> run xs s = Inl e \<Longrightarrow>
     \<exists>ys x zs s'. xs = ys @ x # zs \<and> run ys s = Inr s' \<and> step x s' = Inl e \<and> may_stop s' e"
proof (induction xs arbitrary: s)
  case (Cons x xs)
  show ?case
  proof (cases "step x s")
    case (Inl e')
    then show ?thesis using Cons.prems step_stop by (intro exI [of _ "[]"]) auto
  next
    case (Inr s1)
    then have "inv s1" using Cons.prems(1) by (rule step_inv [rotated])
    moreover have "run xs s1 = Inl e" using Cons.prems(2) Inr by simp
    ultimately obtain ys y zs s' where "xs = ys @ y # zs" "run ys s1 = Inr s'" "step y s' = Inl e" "may_stop s' e"
      using Cons.IH by blast
    then show ?thesis using Inr by (intro exI [of _ "x # ys"]) auto
  qed
qed simp

end

interpretation km: byte_machine "kiss_rx_byte isr i d" "kiss_inv X d"
    "\<lambda>w e. e = NoReturn \<and> csp_buffer_remaining w = 0" for isr i d X
proof
  fix w w' :: "'a csp_ks_scheme" and x e
  assume inv: "kiss_inv X d w"
  note K = kiss_rx_byte_ok [OF inv, of isr i x]
  show "kiss_rx_byte isr i d x w = Inr w' \<Longrightarrow> kiss_inv X d w'" using K by simp
  show "kiss_rx_byte isr i d x w = Inl e \<Longrightarrow> e = NoReturn \<and> csp_buffer_remaining w = 0" using K by simp
qed

lemma kiss_rx_loop_run: "kiss_rx_loop isr i d bs w = km.run isr i d bs w"
  by (induction bs arbitrary: w) (auto split: sum.split)

text \<open>
  Whatever bytes arrive on the line, the receiver never follows a null pointer and never writes
  outside its packet, and it keeps every buffer accounted for. It fails to return only when a frame begins
  while no buffer at all is free.
\<close>

theorem kiss_rx_safe:
  assumes d: "interface_data (ifaces w i) = Some d" and inv: "kiss_inv X d w"
  shows "case csp_kiss_rx i bytes isr w of
     Inl e \<Rightarrow> e = NoReturn \<and>
       (\<exists>ys x zs w'. bytes = ys @ x # zs \<and> csp_kiss_rx i ys isr w = Inr w' \<and> csp_buffer_remaining w' = 0)
   | Inr w' \<Rightarrow> kiss_inv X d w'"
proof (cases "csp_kiss_rx i bytes isr w")
  case (Inr w')
  then show ?thesis using d km.run_inv [OF inv, of isr i bytes w'] by (simp add: csp_kiss_rx_def kiss_rx_loop_run)
next
  case (Inl e)
  then show ?thesis
    using d km.run_stop [OF inv, of isr i bytes e]
    by (fastforce simp: csp_kiss_rx_def kiss_rx_loop_run)
qed

end
