(* ===== verification/Kiss_Link.thy ===== *)
theory Kiss_Link
  imports Kiss
begin

text \<open>
  A KISS transmitter connected to a KISS receiver: the bytes \<open>csp_kiss_tx\<close> puts on the line, and what
  \<open>csp_kiss_rx\<close> makes of them.
\<close>

section \<open>What the transmitter sends\<close>

definition escape :: "u8 \<Rightarrow> u8 list" where
  "escape d = (if d = FEND then [FESC, TFEND] else if d = FESC then [FESC, TFESC] else [d])"

definition kiss_line :: "u8 list \<Rightarrow> u8 list" where
  "kiss_line fr = [FEND, TNC_DATA] @ concat (map escape fr) @ [FEND]"

lemma line_out_tx: "line_out (tx_func v bs w) = (line_out w)(v := line_out w v @ bs)"
  by (simp add: tx_func_def)

lemma line_out_tx_loop: "line_out (kiss_tx_loop v ds w) = (line_out w)(v := line_out w v @ concat (map escape ds))"
  by (induction ds arbitrary: w) (auto simp: line_out_tx escape_def)

lemma line_frame [frame_simps]:
  "line_out (set_pkt b p w) = line_out w"
  "line_out (csp_buffer_free x w) = line_out w"
  "pkt (tx_func v bs w) = pkt w"
  using buffer_free_upd [of x w] by (auto simp: set_pkt_def tx_func_def pkt_def [abs_def])

lemma tx_loop_frame [frame_simps]: "pkt (kiss_tx_loop v ds w) = pkt w"
  by (induction ds arbitrary: w) (simp_all add: frame_simps)

text \<open>The frame on the line: header, payload and, when there is room, the checksum of the payload.\<close>

definition sent_frame :: "u8 \<Rightarrow> csp_packet \<Rightarrow> u8 list" where
  "sent_frame v p =
     id_bytes v (p_id p) @ payload p @
       (if unat (p_length p) + 4 \<le> CSP_BUFFER_SIZE then be_bytes 4 (csp_crc32_memory (payload p)) else [])"

lemma frame_bytes_appended:
  assumes ok: "packet_ok p"
  shows "frame_bytes (csp_id_prepend v (snd (csp_crc32_append p))) = sent_frame v p"
proof (cases "unat (p_length p) + 4 \<le> CSP_BUFFER_SIZE")
  case True
  obtain q where app: "csp_crc32_append p = (CSP_ERR_NONE, q)" using crc32_append_ok [OF ok True] by simp
  note Q = crc32_append_packet [OF ok app]
  show ?thesis using frame_bytes_prepend [OF Q(1), of v] True by (simp add: app Q sent_frame_def)
next
  case False
  then have "snd (csp_crc32_append p) = p" by (simp add: csp_crc32_append_def)
  then show ?thesis using frame_bytes_prepend [OF ok, of v] False by (simp add: sent_frame_def)
qed

lemma csp_kiss_tx_line:
  assumes ok: "packet_ok (pkt w p)" and tx: "csp_kiss_tx i via p me w = (r, w')"
  shows "r = CSP_ERR_NONE"
    and "line_out w' = (line_out w)(driver_data (ifaces w i) :=
           line_out w (driver_data (ifaces w i)) @ kiss_line (sent_frame (version (csp_conf w)) (pkt w p)))"
  using tx frame_bytes_appended [OF ok, of "version (csp_conf w)"]
  by (auto simp: csp_kiss_tx_def Let_def line_out_tx line_out_tx_loop frame_simps kiss_line_def)

section \<open>What the receiver makes of it\<close>

text \<open>The receiver in the middle of a frame: \<open>bs\<close> has been decoded so far; nothing else changed since \<open>w0\<close>.\<close>

definition rx_at ::
  "nat multiset \<Rightarrow> nat \<Rightarrow> nat \<Rightarrow> ('a) csp_ks_scheme \<Rightarrow> u8 list \<Rightarrow> ('a) csp_ks_scheme \<Rightarrow> bool" where
  "rx_at X d b w0 bs w \<longleftrightarrow>
     kiss_inv X d w \<and> rx_packet (kiss w d) = Some b \<and> rx_mode (kiss w d) = KISS_MODE_STARTED \<and>
     \<not> rx_first (kiss w d) \<and> unat (rx_length (kiss w d)) = length bs \<and>
     mem_read (area (pkt w b)) (DATA_OFF - hdr_size (version (csp_conf w))) (length bs) = bs \<and>
     csp_conf w = csp_conf w0 \<and> qf_items w = qf_items w0"

lemma rx_at_room: "rx_at X d b w0 bs w \<Longrightarrow> length bs < hdr_size (version (csp_conf w0)) + CSP_BUFFER_SIZE \<Longrightarrow>
    rx_room d w \<and> \<not> rx_overrun d w"
  using rx_overrun_room [of X d w] by (auto simp: rx_at_def rx_room_def)

lemma rx_at_store:
  assumes at: "rx_at X d b w0 bs w" and lt: "length bs < hdr_size (version (csp_conf w0)) + CSP_BUFFER_SIZE"
  shows "\<exists>w'. rx_store d x w = Inr w' \<and> rx_at X d b w0 (bs @ [x]) w'"
proof -
  have inv: "kiss_inv X d w" and b: "rx_packet (kiss w d) = Some b" and len: "unat (rx_length (kiss w d)) = length bs"
    and rd: "mem_read (area (pkt w b)) (DATA_OFF - hdr_size (version (csp_conf w))) (length bs) = bs"
    and cf: "csp_conf w = csp_conf w0"
    using at unfolding rx_at_def by blast+
  let ?h = "hdr_size (version (csp_conf w))"
  let ?n = "DATA_OFF - ?h + length bs"
  let ?a = "mem_put (area (pkt w b)) ?n [x]"
  let ?w' = "set_kiss d ((kiss w d)\<lparr>rx_length := rx_length (kiss w d) + 1\<rparr>) (set_pkt b ((pkt w b)\<lparr>area := ?a\<rparr>) w)"
  have room: "rx_room d w" using rx_at_room [OF at lt] by blast
  have st: "rx_store d x w = Inr ?w'" using rx_store_eq [OF inv b room, of x] by (simp add: len)
  then have inv': "kiss_inv X d ?w'" using rx_store_ok [OF inv _ room, of x] b by auto
  have h: "?h \<le> 6" by (rule hdr_size_le)
  have fits: "?n + length [x] \<le> length (area (pkt w b))"
    using lt h rx_area [OF inv b] by (simp add: cf)
  have "mem_read ?a (DATA_OFF - ?h) (length bs) = bs"
    using fits rd by (simp add: mem_read_put_before)
  moreover have "mem_read ?a ?n 1 = [x]" using mem_read_put_same [OF fits] by simp
  ultimately have "mem_read ?a (DATA_OFF - ?h) (length bs + 1) = bs @ [x]"
    by (simp only: mem_read_append)
  moreover have "unat (rx_length (kiss w d) + 1) = length bs + 1"
    using lt h by (simp add: len unat_word_ariths cf)
  ultimately have "rx_at X d b w0 (bs @ [x]) ?w'"
    using at inv' by (simp add: rx_at_def frame_simps)
  then show ?thesis using st by blast
qed

lemma rx_mode_only:
  assumes at: "rx_at X d b w0 bs w"
  shows "kiss_inv X d (set_kiss d ((kiss w d)\<lparr>rx_mode := m\<rparr>) w)"
  using at by (intro kiss_inv_mode) (simp_all add: rx_at_def)

text \<open>One byte of the frame, escaped or not, is decoded to itself.\<close>

lemma rx_at_escape:
  assumes at: "rx_at X d b w0 bs w" and lt: "length bs < hdr_size (version (csp_conf w0)) + CSP_BUFFER_SIZE"
  shows "\<exists>w'. kiss_rx_loop isr i d (escape x) w = Inr w' \<and> rx_at X d b w0 (bs @ [x]) w'"
proof (cases "x = FEND \<or> x = FESC")
  case False
  have "kiss_rx_byte isr i d x w = rx_store d x w"
    using False at rx_at_room [OF at lt] by (simp add: kiss_rx_byte_def rx_at_def rx_started_def)
  then show ?thesis using rx_at_store [OF at lt, of x] False by (auto simp: escape_def)
next
  case True
  define w1 where "w1 = set_kiss d ((kiss w d)\<lparr>rx_mode := KISS_MODE_ESCAPED\<rparr>) w"
  have s1: "kiss_rx_byte isr i d FESC w = Inr w1"
    using at rx_at_room [OF at lt] by (simp add: kiss_rx_byte_def rx_at_def rx_started_def w1_def)
  have i1: "kiss_inv X d w1" unfolding w1_def by (rule rx_mode_only [OF at])
  have room: "rx_room d w1"
    using rx_at_room [OF at lt] by (simp add: w1_def rx_room_def frame_simps split: option.splits)
  then have no: "\<not> rx_overrun d w1" using rx_overrun_room [OF i1] by simp
  have "\<exists>w2. rx_store d x w1 = Inr w2 \<and>
      rx_at X d b w0 (bs @ [x]) (set_kiss d ((kiss w2 d)\<lparr>rx_mode := KISS_MODE_STARTED\<rparr>) w2)"
  proof -
    have b: "rx_packet (kiss w d) = Some b" "rx_packet (kiss w1 d) = Some b"
      using at by (simp_all add: rx_at_def w1_def frame_simps)
    have inv: "kiss_inv X d w" "rx_room d w" using at rx_at_room [OF at lt] by (simp_all add: rx_at_def)
    obtain w' where st: "rx_store d x w = Inr w'" "rx_at X d b w0 (bs @ [x]) w'"
      using rx_at_store [OF at lt] by blast
    then have w': "w' = set_kiss d ((kiss w d)\<lparr>rx_length := rx_length (kiss w d) + 1\<rparr>)
      (set_pkt b ((pkt w b)\<lparr>area := mem_put (area (pkt w b))
         (DATA_OFF - hdr_size (version (csp_conf w)) + unat (rx_length (kiss w d))) [x]\<rparr>) w)"
      using rx_store_eq [OF inv(1) b(1) inv(2), of x] by simp
    have "rx_store d x w1 = Inr (set_kiss d ((kiss w1 d)\<lparr>rx_length := rx_length (kiss w1 d) + 1\<rparr>)
      (set_pkt b ((pkt w1 b)\<lparr>area := mem_put (area (pkt w1 b))
         (DATA_OFF - hdr_size (version (csp_conf w1)) + unat (rx_length (kiss w1 d))) [x]\<rparr>) w1))" (is "_ = Inr ?w2")
      by (rule rx_store_eq [OF i1 b(2) room])
    moreover have "(kiss w d)\<lparr>rx_length := n, rx_mode := KISS_MODE_STARTED\<rparr> = (kiss w d)\<lparr>rx_length := n\<rparr>" for n
      using at by (cases "kiss w d") (simp add: rx_at_def)
    then have "set_kiss d ((kiss ?w2 d)\<lparr>rx_mode := KISS_MODE_STARTED\<rparr>) ?w2 = w'"
      unfolding w' w1_def by (simp add: set_kiss_def set_pkt_def pkt_def)
    ultimately show ?thesis using st(2) by auto
  qed
  then obtain w2 where w2: "rx_store d x w1 = Inr w2"
      "rx_at X d b w0 (bs @ [x]) (set_kiss d ((kiss w2 d)\<lparr>rx_mode := KISS_MODE_STARTED\<rparr>) w2)" by blast
  have m: "rx_mode (kiss w1 d) = KISS_MODE_ESCAPED" by (simp add: w1_def frame_simps)
  have "kiss_rx_byte isr i d (if x = FEND then TFEND else TFESC) w1 =
      Inr (set_kiss d ((kiss w2 d)\<lparr>rx_mode := KISS_MODE_STARTED\<rparr>) w2)"
    using True w2(1) no m by (auto simp: kiss_rx_byte_def rx_escaped_def)
  then show ?thesis using True s1 w2(2) by (auto simp: escape_def)
qed

lemma kiss_rx_loop_append:
  "kiss_rx_loop isr i d (xs @ ys) w =
     (case kiss_rx_loop isr i d xs w of Inl e \<Rightarrow> Inl e | Inr w' \<Rightarrow> kiss_rx_loop isr i d ys w')"
  by (simp add: kiss_rx_loop_run km.run_append split: sum.split)

lemma rx_at_escapes:
  assumes at: "rx_at X d b w0 bs w"
    and le: "length bs + length xs \<le> hdr_size (version (csp_conf w0)) + CSP_BUFFER_SIZE"
  shows "\<exists>w'. kiss_rx_loop isr i d (concat (map escape xs)) w = Inr w' \<and> rx_at X d b w0 (bs @ xs) w'"
  using at le
proof (induction xs arbitrary: bs w)
  case (Cons x xs)
  obtain w1 where w1: "kiss_rx_loop isr i d (escape x) w = Inr w1" "rx_at X d b w0 (bs @ [x]) w1"
    using rx_at_escape [OF Cons.prems(1), of isr i x] Cons.prems(2) by auto
  obtain w2 where "kiss_rx_loop isr i d (concat (map escape xs)) w1 = Inr w2" "rx_at X d b w0 ((bs @ [x]) @ xs) w2"
    using Cons.IH [OF w1(2)] Cons.prems(2) by auto
  then show ?case using w1(1) by (simp add: kiss_rx_loop_append)
qed simp

section \<open>The whole frame\<close>

text \<open>The two bytes that open a frame, from an idle receiver.\<close>

definition rx_idle :: "nat \<Rightarrow> ('a) csp_ks_scheme \<Rightarrow> bool" where
  "rx_idle d w \<longleftrightarrow> rx_packet (kiss w d) = None \<and> rx_mode (kiss w d) = KISS_MODE_NOT_STARTED"

lemma rx_at_start:
  assumes inv: "kiss_inv X d w" and idle: "rx_idle d w" and buf: "0 < csp_buffer_remaining w"
  shows "\<exists>w' b. kiss_rx_loop isr i d [FEND, TNC_DATA] w = Inr w' \<and> rx_at X d b w [] w' \<and> b \<notin># X + qf_refs w"
proof -
  define r where "r = (if isr then csp_buffer_get_always_isr w else csp_buffer_get_always w)"
  have refs: "bufs_inv (X + qf_refs w) w"
    using inv idle by (simp add: kiss_inv_def kiss_ref_def rx_idle_def)
  note G = get_always_result [OF refs r_def [symmetric]]
  then obtain b w1 where r: "r = Some (b, w1)" using buf by (cases r) auto
  have nb: "b \<notin># X + qf_refs w"
  proof -
    obtain w2 where "csp_buffer_get_actual 0 isr w = (Some b, w2)"
      using r by (cases isr) (auto simp: r_def csp_buffer_get_always_def csp_buffer_get_always_isr_def
          split: prod.splits option.splits)
    then show ?thesis by (rule get_actual_Some(1) [OF refs])
  qed
  have no: "\<not> rx_overrun d w" using idle by (simp add: rx_overrun_def rx_idle_def)
  define k where "k = (kiss w d)\<lparr>rx_packet := Some b\<rparr>"
  define w2 where "w2 = set_kiss d (k\<lparr>rx_length := 0, rx_mode := KISS_MODE_STARTED, rx_first := True\<rparr>)
     (set_pkt b (snd (csp_id_setup_rx (version (csp_conf w)) (pkt w1 b))) (set_kiss d k w1))"
  have s1: "kiss_rx_byte isr i d FEND w = Inr w2"
    using idle no G r by (simp add: kiss_rx_byte_def rx_idle_def rx_not_started_def w2_def k_def Let_def
        frame_simps flip: r_def)
  have i2: "kiss_inv X d w2" using kiss_rx_byte_ok [OF inv, of isr i FEND] by (simp add: s1)
  have k2: "kiss w2 d = k\<lparr>rx_length := 0, rx_mode := KISS_MODE_STARTED, rx_first := True\<rparr>"
    by (simp add: w2_def frame_simps)
  have c2: "csp_conf w2 = csp_conf w" "qf_items w2 = qf_items w"
    using G r by (simp_all add: w2_def frame_simps) (simp add: qf_items_def)
  have "rx_room d w2" using hdr_size_le [of "version (csp_conf w)"] by (simp add: rx_room_def k2 c2 split: option.split)
  then have no2: "\<not> rx_overrun d w2" using rx_overrun_room [OF i2] by simp
  define w3 where "w3 = set_kiss d ((kiss w2 d)\<lparr>rx_first := False\<rparr>) w2"
  have s2: "kiss_rx_byte isr i d TNC_DATA w2 = Inr w3"
    using no2 by (simp add: kiss_rx_byte_def k2 rx_started_def w3_def)
  have "kiss_inv X d w3" using kiss_rx_byte_ok [OF i2, of isr i TNC_DATA] by (simp add: s2)
  then have "rx_at X d b w [] w3"
    using c2 by (simp add: rx_at_def w3_def frame_simps k2 k_def)
  then show ?thesis using s1 s2 nb by auto
qed

text \<open>The closing byte: a frame whose checksum is right goes to the router as the packet it encodes.\<close>

lemma strip_received:
  assumes fb: "frame_begin p = Own (DATA_OFF - hdr_size v)" and ar: "length (area p) = AREA_SIZE"
    and rd: "mem_read (area p) (DATA_OFF - hdr_size v) n = id_bytes v i @ body"
    and fl: "unat (frame_length p) = n" and n: "n \<le> hdr_size v + CSP_BUFFER_SIZE" and i: "id_fits v i"
    and len: "n = hdr_size v + length body"
  shows "\<exists>q. csp_id_strip v p = Some (0, q) \<and> packet_ok q \<and> p_id q = i \<and> payload q = body \<and> length (area q) = AREA_SIZE"
proof -
  have h: "hdr_size v \<le> 6" by (rule hdr_size_le)
  let ?q = "p\<lparr>p_length := frame_length p - of_nat (hdr_size v),
              p_id := id_of_bytes v (mem_read (area p) (DATA_OFF - hdr_size v) (hdr_size v))\<rparr>"
  have st: "csp_id_strip v p = Some (0, ?q)"
    using fb fl len h ar by (intro csp_id_strip_eq) auto
  have split: "mem_read (area p) (DATA_OFF - hdr_size v) (hdr_size v) @ mem_read (area p) DATA_OFF (length body) = id_bytes v i @ body"
    using rd mem_read_append [of "area p" "DATA_OFF - hdr_size v" "hdr_size v" "length body"] len by simp
  then have parts: "mem_read (area p) (DATA_OFF - hdr_size v) (hdr_size v) = id_bytes v i"
    "mem_read (area p) DATA_OFF (length body) = body"
    using h ar by (simp_all add: append_eq_append_conv)
  have "unat (of_nat (hdr_size v) :: u16) = hdr_size v" by (simp add: hdr_size_def)
  then have pl: "unat (frame_length p - of_nat (hdr_size v)) = length body"
    using fl len by (simp add: unat_sub word_le_nat_alt)
  have "payload ?q = body" using parts(2) by (simp add: payload_def pl)
  moreover have "packet_ok ?q" using ar pl n len by (simp add: packet_ok_def)
  moreover have "p_id ?q = i" using parts(1) id_of_bytes_id_bytes [OF i] by simp
  ultimately show ?thesis using st ar by auto
qed

lemma rx_at_end:
  assumes at: "rx_at X d b w0 (id_bytes v i @ body) w" and v: "v = version (csp_conf w0)" and fits: "id_fits v i"
    and lt: "hdr_size v + length body < hdr_size v + CSP_BUFFER_SIZE" and good: "crc_good v i body"
    and room: "length (qf_items w0) < CSP_QFIFO_LEN"
  shows "\<exists>w'. kiss_rx_loop isr ifc d [FEND] w = Inr w' \<and> kiss_inv X d w' \<and> rx_idle d w' \<and>
     qf_items w' = qf_items w0 @ [\<lparr>qe_iface = Some ifc, qe_packet = Some b\<rparr>] \<and>
     p_id (pkt w' b) = i \<and> payload (pkt w' b) = take (length body - 4) body"
proof -
  let ?n = "hdr_size v + length body"
  have inv: "kiss_inv X d w" and b: "rx_packet (kiss w d) = Some b" and m: "rx_mode (kiss w d) = KISS_MODE_STARTED"
    and len: "unat (rx_length (kiss w d)) = ?n" and cf: "csp_conf w = csp_conf w0" and q: "qf_items w = qf_items w0"
    and rd: "mem_read (area (pkt w b)) (DATA_OFF - hdr_size v) ?n = id_bytes v i @ body"
    using at unfolding rx_at_def v by auto
  have no: "\<not> rx_overrun d w" using rx_at_room [OF at] lt v by simp
  have fb: "frame_begin (pkt w b) = Own (DATA_OFF - hdr_size v)"
    using inv b by (simp add: kiss_inv_def kiss_ok_def Let_def cf v)
  define p1 where "p1 = (pkt w b)\<lparr>frame_length := rx_length (kiss w d)\<rparr>"
  obtain p2 where p2: "csp_id_strip v p1 = Some (0, p2)" "packet_ok p2" "p_id p2 = i" "payload p2 = body"
    using strip_received [of p1 v ?n i body] fb rx_area [OF inv b] rd len lt fits by (auto simp: p1_def)
  define p3 where "p3 = (csp_id_prepend v p2)\<lparr>p_length := p_length p2 - 4\<rparr>"
  have ver: "csp_crc32_verify v p2 = (CSP_ERR_NONE, p3)"
    using crc32_verify_spec [OF p2(2), of v] good p2(3,4) by (simp add: p3_def)
  have lp: "unat (p_length p2) = length body" using length_payload [OF p2(2)] p2(4) by simp
  have four: "4 \<le> length body" using good by (simp add: crc_good_def)
  have pl3: "unat (p_length p2 - 4) = length body - 4"
    using four lp by (simp add: unat_sub word_le_nat_alt)
  have "payload p3 = take (length body - 4) (payload (csp_id_prepend v p2))"
    using four lp pl3 by (simp add: p3_def payload_def mem_read_def min_def)
  then have pay3: "payload p3 = take (length body - 4) body" using p2(2,4) by simp
  define w3 where "w3 = set_pkt b p3 (set_pkt b p2 (set_pkt b p1 w))"
  define w4 where "w4 = csp_qfifo_write (Some b) (Some ifc) isr w3"
  define w5 where "w5 = set_kiss d ((kiss w4 d)\<lparr>rx_packet := None, rx_mode := KISS_MODE_NOT_STARTED\<rparr>) w4"
  have "rx_length (kiss w d) \<noteq> 0" using len hdr_size_le(2) [of v] by auto
  then have "0 < rx_length (kiss w d)" by (simp add: word_gt_0)
  then have step: "kiss_rx_byte isr ifc d FEND w = Inr w5"
    using m no b p2(1) ver
    by (simp add: kiss_rx_byte_def rx_started_def rx_accept_def frame_simps cf v p1_def w5_def w4_def w3_def)
  have i5: "kiss_inv X d w5" using kiss_rx_byte_ok [OF inv, of isr ifc FEND] by (simp add: step)
  have q3: "qf_ok w3" "length (qf_items w3) < 16" "qf_items w3 = qf_items w0"
    using inv q room by (simp_all add: w3_def frame_simps kiss_inv_def)
  have "qf_items w5 = qf_items w0 @ [\<lparr>qe_iface = Some ifc, qe_packet = Some b\<rparr>]"
    using qf_items_write(1) [OF q3(1), of b ifc isr] q3 by (simp add: w5_def w4_def frame_simps)
  moreover have "pkt w5 b = p3"
    using qfifo_write_room [OF q3(1,2), of b ifc isr] by (simp add: w5_def w4_def frame_simps) (simp add: w3_def pkt_def set_pkt_def)
  moreover have "p_id p3 = i" by (simp add: p3_def p2)
  moreover have "rx_idle d w5" by (simp add: rx_idle_def w5_def frame_simps)
  ultimately show ?thesis using step i5 pay3 by simp
qed

text \<open>A frame on the line becomes a packet in the router's queue.\<close>

lemma kiss_frame_received:
  assumes pk: "packet_ok k" and fits: "id_fits v (p_id k)" and len: "unat (p_length k) + 4 < CSP_BUFFER_SIZE"
    and ver: "version (csp_conf wr) = v" and inv: "kiss_inv X d wr" and d: "interface_data (ifaces wr i) = Some d"
    and idle: "rx_idle d wr" and buf: "0 < csp_buffer_remaining wr" and room: "length (qf_items wr) < CSP_QFIFO_LEN"
  shows "\<exists>w' b. csp_kiss_rx i (kiss_line (sent_frame v k)) isr wr = Inr w' \<and> kiss_inv X d w' \<and> rx_idle d w' \<and>
     b \<notin># X + qf_refs wr \<and> qf_items w' = qf_items wr @ [\<lparr>qe_iface = Some i, qe_packet = Some b\<rparr>] \<and>
     p_id (pkt w' b) = p_id k \<and> payload (pkt w' b) = payload k"
proof -
  let ?body = "payload k @ be_bytes 4 (csp_crc32_memory (payload k))"
  have lp: "length (payload k) = unat (p_length k)" using pk by simp
  have bs: "sent_frame v k = id_bytes v (p_id k) @ ?body" using len by (simp add: sent_frame_def)
  obtain w1 b where w1: "kiss_rx_loop isr i d [FEND, TNC_DATA] wr = Inr w1" "rx_at X d b wr [] w1"
      and nb: "b \<notin># X + qf_refs wr"
    using rx_at_start [OF inv idle buf] by blast
  have "length [] + length (id_bytes v (p_id k) @ ?body) \<le> hdr_size (version (csp_conf wr)) + CSP_BUFFER_SIZE"
    using len lp ver by simp
  then obtain w2 where w2: "kiss_rx_loop isr i d (concat (map escape (id_bytes v (p_id k) @ ?body))) w1 = Inr w2"
      "rx_at X d b wr (id_bytes v (p_id k) @ ?body) w2"
    using rx_at_escapes [OF w1(2), of "id_bytes v (p_id k) @ ?body" isr i] by (metis append_Nil)
  have good: "crc_good v (p_id k) ?body" by (simp add: crc_good_def)
  obtain w3 where w3: "kiss_rx_loop isr i d [FEND] w2 = Inr w3" "kiss_inv X d w3" "rx_idle d w3"
      "qf_items w3 = qf_items wr @ [\<lparr>qe_iface = Some i, qe_packet = Some b\<rparr>]"
      "p_id (pkt w3 b) = p_id k" "payload (pkt w3 b) = take (length ?body - 4) ?body"
    using rx_at_end [OF w2(2) ver [symmetric] fits _ good room, of isr i] len lp by auto
  have "csp_kiss_rx i (kiss_line (sent_frame v k)) isr wr = Inr w3"
    using w1(1) w2(1) w3(1) d
    by (simp only: csp_kiss_rx_def bs kiss_line_def kiss_rx_loop_append option.case sum.case)
  then show ?thesis using w3 nb by auto
qed


definition ex_ks :: csp_ks where
  "ex_ks = csp_qf.extend ex_qf \<lparr>
     kiss = (\<lambda>d. \<lparr>has_tx_func = True, rx_mode = KISS_MODE_NOT_STARTED, rx_length = 0, rx_first = False, rx_packet = None\<rparr>),
     line_out = (\<lambda>_. [])\<rparr>"

lemma ex_ks_fields:
  "qfifo_queue_handle ex_ks = qfifo_queue_handle ex_qf" "ifaces ex_ks = ifaces ex_qf" "csp_conf ex_ks = csp_conf ex_qf"
  "pool ex_ks = pool ex_qf" "csp_buffers ex_ks = csp_buffers ex_qf"
  by (simp_all add: ex_ks_def csp_qf.defs)

lemma ex_ks_inv: "kiss_inv {#0#} 0 ex_ks" "rx_idle 0 ex_ks" "qf_items ex_ks = []" "csp_buffer_remaining ex_ks = 7"
  "interface_data (ifaces ex_ks 1) = Some 0" "driver_data (ifaces ex_ks 1) = Some 0" "line_out ex_ks v = []"
  "version (csp_conf ex_ks) = 2" "qf_refs ex_ks = {#}"
proof -
  have "bufs_inv {#0#} ex_ks" using ex_qf_inv by (simp add: bufs_inv_def free_list_def pkt_def ex_ks_fields)
  moreover have q: "qf_refs ex_ks = {#}" "qf_ok ex_ks" "qf_items ex_ks = []"
    using ex_qf_ok by (simp_all add: qf_refs_def qf_ok_def qf_items_def ex_ks_fields)
  ultimately show "kiss_inv {#0#} 0 ex_ks" "qf_items ex_ks = []" "qf_refs ex_ks = {#}"
    by (simp_all add: kiss_inv_def kiss_ref_def kiss_ok_def) (simp_all add: ex_ks_def csp_qf.defs)
  show "rx_idle 0 ex_ks" "line_out ex_ks v = []" by (simp_all add: rx_idle_def ex_ks_def csp_qf.defs)
  have "free_list ex_ks = free_list ready_bufs"
    by (simp add: free_list_def ex_ks_fields) (simp add: ex_qf_def ex_rt_def ex_ifs3_def ex_ifs_def csp_rt.defs csp_ifs.defs csp_bufs.defs)
  then show "csp_buffer_remaining ex_ks = 7" by (simp add: remaining_free_list ready_bufs_fields)
  show "interface_data (ifaces ex_ks 1) = Some 0" "driver_data (ifaces ex_ks 1) = Some 0" "version (csp_conf ex_ks) = 2"
    by (simp_all add: ex_ks_fields ex_qf_def ex_rt_def ex_ifs3_def ex_ifs_def csp_rt.defs csp_ifs.defs csp_bufs.defs
        ex_ifaces_def ready_bufs_def boot_bufs_def boot_conf_def)
qed

text \<open>Garbage on the line leaves the receiver's invariant intact.\<close>

theorem kiss_rx_safe_witness:
  "case csp_kiss_rx 1 [0x33, FEND, TNC_DATA, FESC, 0x01, FEND] False ex_ks of
     Inl e \<Rightarrow> e = NoReturn \<and>
       (\<exists>ys x zs w'. [0x33, FEND, TNC_DATA, FESC, 0x01, FEND] = ys @ x # zs \<and>
          csp_kiss_rx 1 ys False ex_ks = Inr w' \<and> csp_buffer_remaining w' = 0)
   | Inr w' \<Rightarrow> kiss_inv {#0#} 0 w'"
  by (rule kiss_rx_safe [OF ex_ks_inv(5,1)])


text \<open>The overrun test counts the closing byte as one more byte of the frame.\<close>

lemma rx_at_full_lost:
  assumes at: "rx_at X d b w0 bs w" and full: "length bs = hdr_size (version (csp_conf w0)) + CSP_BUFFER_SIZE"
  shows "\<exists>w'. kiss_rx_loop isr i d [FEND] w = Inr w' \<and> qf_items w' = qf_items w0 \<and>
     rx_error (ifaces w' i) = rx_error (ifaces w i) + 1"
proof -
  have inv: "kiss_inv X d w" and b: "rx_packet (kiss w d) = Some b" using at by (simp_all add: rx_at_def)
  have "\<not> rx_room d w" using at full by (auto simp: rx_room_def rx_at_def)
  then have ov: "rx_overrun d w" using rx_overrun_room [OF inv] by simp
  show ?thesis using at b ov
    by (simp add: kiss_rx_byte_def Let_def frame_simps rx_not_started_def rx_at_def)
      (simp add: set_kiss_def set_iface_def set_pkt_def)
qed

text \<open>
  \<^bold>\<open>Claim C34.\<close> A packet of exactly 252 bytes, which \<open>csp_kiss_tx\<close> still has room to checksum and sends, is
  always lost: the receiver takes its closing byte for an overrun, counts a receive error and queues nothing.
\<close>

theorem kiss_longest_packet_lost:
  assumes pk: "packet_ok (pkt ws p)" and len: "unat (p_length (pkt ws p)) + 4 = CSP_BUFFER_SIZE"
    and tx: "csp_kiss_tx j via p me ws = (r, ws')"
    and bytes: "line_out ws' (driver_data (ifaces ws j)) = line_out ws (driver_data (ifaces ws j)) @ bytes"
    and ver: "version (csp_conf wr) = version (csp_conf ws)"
    and inv: "kiss_inv X d wr" and d: "interface_data (ifaces wr i) = Some d" and idle: "rx_idle d wr"
    and buf: "0 < csp_buffer_remaining wr"
  shows "\<exists>w'. csp_kiss_rx i bytes isr wr = Inr w' \<and> qf_items w' = qf_items wr"
proof -
  let ?v = "version (csp_conf ws)" and ?pay = "payload (pkt ws p)"
  let ?fr = "id_bytes ?v (p_id (pkt ws p)) @ ?pay @ be_bytes 4 (csp_crc32_memory ?pay)"
  have bs: "bytes = kiss_line ?fr"
    using csp_kiss_tx_line(2) [OF pk tx] bytes len by (simp add: sent_frame_def)
  have lf: "length ?fr = hdr_size (version (csp_conf wr)) + CSP_BUFFER_SIZE" using len pk ver by simp
  obtain w1 b where w1: "kiss_rx_loop isr i d [FEND, TNC_DATA] wr = Inr w1" "rx_at X d b wr [] w1"
    using rx_at_start [OF inv idle buf] by blast
  obtain w2 where w2: "kiss_rx_loop isr i d (concat (map escape ?fr)) w1 = Inr w2" "rx_at X d b wr ?fr w2"
    using rx_at_escapes [OF w1(2), of ?fr isr i] lf by (metis append_Nil le_refl list.size(3) plus_nat.add_0)
  obtain w3 where w3: "kiss_rx_loop isr i d [FEND] w2 = Inr w3" "qf_items w3 = qf_items wr"
    using rx_at_full_lost [OF w2(2) lf] by blast
  have "csp_kiss_rx i bytes isr wr = Inr w3"
    using w1(1) w2(1) w3(1) d
    by (simp only: csp_kiss_rx_def bs kiss_line_def kiss_rx_loop_append option.case sum.case)
  then show ?thesis using w3(2) by blast
qed

theorem kiss_longest_packet_lost_witness:
  "\<exists>bytes w'. csp_kiss_rx 1 bytes True ex_ks = Inr w' \<and> qf_items w' = []"
proof -
  let ?ws = "set_pkt 0 (ex_packet\<lparr>p_length := 252\<rparr>) ex_ks"
  have p: "pkt ?ws 0 = ex_packet\<lparr>p_length := 252\<rparr>" by (simp add: frame_simps)
  obtain r ws' where tx: "csp_kiss_tx 1 0 0 True ?ws = (r, ws')" by (cases "csp_kiss_tx 1 0 0 True ?ws")
  have ok: "packet_ok (pkt ?ws 0)" "unat (p_length (pkt ?ws 0)) + 4 = CSP_BUFFER_SIZE"
    unfolding p by (simp_all add: packet_ok_def ex_packet_def)
  obtain bytes where bytes: "line_out ws' (driver_data (ifaces ?ws 1)) = line_out ?ws (driver_data (ifaces ?ws 1)) @ bytes"
    using csp_kiss_tx_line(2) [OF ok(1) tx] by simp
  have "0 < csp_buffer_remaining ex_ks" by (simp add: ex_ks_inv)
  then have "\<exists>w'. csp_kiss_rx 1 bytes True ex_ks = Inr w' \<and> qf_items w' = qf_items ex_ks"
    by (intro kiss_longest_packet_lost [OF ok tx bytes _ ex_ks_inv(1,5,2)]) (simp add: frame_simps)
  then show ?thesis by (simp add: ex_ks_inv) blast
qed

end
