(* ===== verification/Dedup.thy ===== *)
theory Dedup
  imports Kiss_Link
begin

text \<open>
  Duplicate detection (\<open>src/csp_dedup.c\<close>): a ring of the checksums and arrival times of recent packets.
  The lemmas show that it is a search in the list of the 15 most recent entries, newest first, which
  stops at the first one outside the time window.
\<close>

section \<open>State and operations\<close>

record csp_dd = csp_ks +
  csp_dedup_array :: "u32 list"
  csp_dedup_timestamp :: "u32 list"
  csp_dedup_in :: c_uint

definition CSP_DEDUP_COUNT :: nat where "CSP_DEDUP_COUNT = 16"
definition CSP_DEDUP_WINDOW_MS :: u32 where "CSP_DEDUP_WINDOW_MS = 100"

text \<open>
  The loop, with fuel; \<open>None\<close> is running out of it. Indices below 16 stay below 16, and the loop ends
  after at most 15 rounds, so 16 are enough (\<open>dedup_loop_list\<close>).
\<close>

fun dedup_loop :: "nat \<Rightarrow> ('a) csp_dd_scheme \<Rightarrow> u32 \<Rightarrow> u32 \<Rightarrow> c_uint \<Rightarrow> bool option" where
  "dedup_loop 0 w crc time i = None"
| "dedup_loop (Suc n) w crc time i =
     (if i = csp_dedup_in w then Some False
      else if csp_dedup_timestamp w ! unat i + CSP_DEDUP_WINDOW_MS < time then Some False
      else if crc = csp_dedup_array w ! unat i then Some True
      else dedup_loop n w crc time ((i - 1) AND 15))"

definition csp_dedup_is_duplicate :: "nat \<Rightarrow> ('a) csp_dd_scheme \<Rightarrow> (bool \<times> ('a) csp_dd_scheme) option" where
  "csp_dedup_is_duplicate packet w =
     (let w = set_pkt packet (csp_id_prepend (version (csp_conf w)) (pkt w packet)) w;
          crc = csp_crc32_memory (frame_bytes (pkt w packet));
          time = csp_get_ms w
      in case dedup_loop CSP_DEDUP_COUNT w crc time ((csp_dedup_in w - 1) mod 16) of
        None \<Rightarrow> None
      | Some True \<Rightarrow> Some (True, w)
      | Some False \<Rightarrow>
          let i = csp_dedup_in w
          in Some (False, w\<lparr>csp_dedup_array := (csp_dedup_array w)[unat i := crc],
                            csp_dedup_timestamp := (csp_dedup_timestamp w)[unat i := time],
                            csp_dedup_in := (i + 1) mod 16\<rparr>))"

section \<open>The ring as a list of recent packets\<close>

definition dedup_ok :: "('a) csp_dd_scheme \<Rightarrow> bool" where
  "dedup_ok w \<longleftrightarrow> length (csp_dedup_array w) = 16 \<and> length (csp_dedup_timestamp w) = 16 \<and> unat (csp_dedup_in w) < 16"

text \<open>Slot \<open>k\<close> back from the newest one, and the 15 entries the search can see, newest first.\<close>

definition slot_back :: "('a) csp_dd_scheme \<Rightarrow> nat \<Rightarrow> nat" where
  "slot_back w k = (unat (csp_dedup_in w) + 15 - k) mod 16"

definition dedup_recent :: "('a) csp_dd_scheme \<Rightarrow> (u32 \<times> u32) list" where
  "dedup_recent w = map (\<lambda>k. (csp_dedup_array w ! slot_back w k, csp_dedup_timestamp w ! slot_back w k)) [0..<15]"

text \<open>The specification: is the checksum among the entries before the first one outside the window?\<close>

definition recent_duplicate :: "u32 \<Rightarrow> u32 \<Rightarrow> (u32 \<times> u32) list \<Rightarrow> bool" where
  "recent_duplicate crc time l \<longleftrightarrow>
     crc \<in> fst ` set (takeWhile (\<lambda>(c, t). \<not> t + CSP_DEDUP_WINDOW_MS < time) l)"

lemma mod_16: "x < 32 \<Longrightarrow> x mod 16 = (if x < 16 then x else x - 16)" for x :: nat
  by (simp add: mod_if)

lemma slot_back_eq:
  assumes "unat (csp_dedup_in w) < 16" and "k \<le> 15"
  shows "slot_back w k = (if k < unat (csp_dedup_in w) then unat (csp_dedup_in w) - 1 - k else unat (csp_dedup_in w) + 15 - k)"
  using assms mod_16 [of "unat (csp_dedup_in w) + 15 - k"] by (auto simp: slot_back_def)

lemma unat_pred_16:
  assumes "unat (i :: c_uint) < 16"
  shows "unat ((i - 1) AND 15) = (unat i + 15) mod 16" "unat ((i - 1) mod 16) = (unat i + 15) mod 16"
proof -
  have m: "(15 :: c_uint) = mask 4" by (simp add: mask_eq_exp_minus_1)
  have a: "unat ((i - 1) AND 15) = unat (i - 1) mod 16"
    unfolding m take_bit_eq_mask [symmetric] unsigned_take_bit_eq by (simp add: take_bit_eq_mod)
  have "unat ((i - 1) mod 16) = unat (i - 1) mod unat (16 :: c_uint)" by (rule unat_mod)
  moreover have "unat (16 :: c_uint) = 16" by simp
  ultimately have b: "unat ((i - 1) mod 16) = unat (i - 1) mod 16" by (simp only:)
  have c: "unat (i - 1) mod 16 = (unat i + 15) mod 16"
  proof (cases "i = 0")
    case False
    then have "unat (i - 1) = unat i - 1" "0 < unat i" by (simp_all add: unat_minus_one unat_gt_0)
    then show ?thesis using assms mod_16 [of "unat i + 15"] by simp
  next
    case True
    have "unat (- 1 :: c_uint) = 65535" by (simp add: unsigned_minus_1_eq_mask mask_eq_exp_minus_1)
    then show ?thesis by (simp add: True)
  qed
  show "unat ((i - 1) AND 15) = (unat i + 15) mod 16" "unat ((i - 1) mod 16) = (unat i + 15) mod 16"
    using a b c by simp_all
qed

lemma recent_duplicate_Cons:
  "recent_duplicate crc time ((c, t) # l) \<longleftrightarrow>
     \<not> t + CSP_DEDUP_WINDOW_MS < time \<and> (crc = c \<or> recent_duplicate crc time l)"
  by (cases "t + CSP_DEDUP_WINDOW_MS < time") (auto simp: recent_duplicate_def)

lemma dedup_loop_list:
  assumes ok: "dedup_ok w"
  shows "k \<le> 15 \<Longrightarrow> unat i = slot_back w k \<Longrightarrow> 15 - k < n \<Longrightarrow>
     dedup_loop n w crc time i = Some (recent_duplicate crc time (drop k (dedup_recent w)))"
proof (induction n arbitrary: k i)
  case (Suc n)
  have din: "unat (csp_dedup_in w) < 16" using ok by (simp add: dedup_ok_def)
  show ?case
  proof (cases "k = 15")
    case True
    then have "i = csp_dedup_in w" using Suc.prems(2) din by (simp add: slot_back_def word_unat_eq_iff)
    then show ?thesis using True by (simp add: recent_duplicate_def dedup_recent_def)
  next
    case False
    then have k: "k < 15" using Suc.prems(1) by simp
    have "slot_back w k \<noteq> unat (csp_dedup_in w)" using k din by (auto simp: slot_back_eq)
    then have ne: "i \<noteq> csp_dedup_in w" using Suc.prems(2) by auto
    have lt: "unat i < 16" using Suc.prems(2) by (simp add: slot_back_def)
    have hd: "drop k (dedup_recent w) =
        (csp_dedup_array w ! unat i, csp_dedup_timestamp w ! unat i) # drop (Suc k) (dedup_recent w)"
      using k Suc.prems(2) by (simp add: dedup_recent_def Cons_nth_drop_Suc [symmetric])
    have "(slot_back w k + 15) mod 16 = (if slot_back w k = 0 then 15 else slot_back w k - 1)"
      using mod_16 [of "slot_back w k + 15"] lt Suc.prems(2) by simp
    also have "\<dots> = slot_back w (Suc k)" using k din by (auto simp: slot_back_eq)
    finally have "(slot_back w k + 15) mod 16 = slot_back w (Suc k)" .
    then have "unat ((i - 1) AND 15) = slot_back w (Suc k)"
      using unat_pred_16(1) [OF lt] Suc.prems(2) by simp
    then have "dedup_loop n w crc time ((i - 1) AND 15) =
        Some (recent_duplicate crc time (drop (Suc k) (dedup_recent w)))"
      using Suc.IH [of "Suc k"] k Suc.prems(3) by simp
    then show ?thesis using ne by (simp add: hd recent_duplicate_Cons)
  qed
qed simp

lemma dedup_search:
  assumes ok: "dedup_ok w"
  shows "dedup_loop CSP_DEDUP_COUNT w crc time ((csp_dedup_in w - 1) mod 16) =
     Some (recent_duplicate crc time (dedup_recent w))"
proof -
  have din: "unat (csp_dedup_in w) < 16" using ok by (simp add: dedup_ok_def)
  have "unat ((csp_dedup_in w - 1) mod 16) = slot_back w 0"
    by (simp add: slot_back_def unat_pred_16(2) [OF din])
  from dedup_loop_list [OF ok _ this, of 16] show ?thesis by (simp add: CSP_DEDUP_COUNT_def)
qed

text \<open>Inserting moves every entry one place back and forgets the oldest.\<close>

lemma dedup_insert:
  assumes ok: "dedup_ok w" and ar: "csp_dedup_array w' = (csp_dedup_array w)[unat (csp_dedup_in w) := crc]"
    and ts: "csp_dedup_timestamp w' = (csp_dedup_timestamp w)[unat (csp_dedup_in w) := time]"
    and di: "csp_dedup_in w' = (csp_dedup_in w + 1) mod 16"
  shows "dedup_ok w'" and "dedup_recent w' = (crc, time) # take 14 (dedup_recent w)"
proof -
  have din: "unat (csp_dedup_in w) < 16" using ok by (simp add: dedup_ok_def)
  then have "unat (csp_dedup_in w + 1) = unat (csp_dedup_in w) + 1" by (simp add: unat_word_ariths)
  then have din': "unat (csp_dedup_in w') = (unat (csp_dedup_in w) + 1) mod 16" by (simp add: di unat_mod)
  then have lt': "unat (csp_dedup_in w') < 16" by simp
  have din'': "unat (csp_dedup_in w') = (if unat (csp_dedup_in w) = 15 then 0 else unat (csp_dedup_in w) + 1)"
    using din din' mod_16 [of "unat (csp_dedup_in w) + 1"] by simp
  show "dedup_ok w'" using ok lt' by (simp add: dedup_ok_def ar ts)
  show "dedup_recent w' = (crc, time) # take 14 (dedup_recent w)"
  proof (rule nth_equalityI)
    show "length (dedup_recent w') = length ((crc, time) # take 14 (dedup_recent w))"
      by (simp add: dedup_recent_def)
  next
    fix j assume "j < length (dedup_recent w')"
    then have j: "j < 15" by (simp add: dedup_recent_def)
    show "dedup_recent w' ! j = ((crc, time) # take 14 (dedup_recent w)) ! j"
    proof (cases j)
      case 0
      have "slot_back w' 0 = unat (csp_dedup_in w)" using lt' din by (simp add: slot_back_eq din'')
      then show ?thesis using 0 ok by (simp add: dedup_recent_def ar ts dedup_ok_def)
    next
      case (Suc m)
      then have m: "m < 14" using j by simp
      have b: "slot_back w' (Suc m) = slot_back w m" using lt' din m by (auto simp: slot_back_eq din'')
      have "slot_back w m \<noteq> unat (csp_dedup_in w)" using din m by (auto simp: slot_back_eq)
      then show ?thesis using Suc m j b by (simp add: dedup_recent_def ar ts)
    qed
  qed
qed

text \<open>
  \<^bold>\<open>Claim C23.\<close> Duplicate detection always returns and is exactly a search among the 15 most recent packets:
  it reports a duplicate when one of them, before the first older than the window, has the packet's
  checksum, and then remembers nothing; otherwise the packet becomes the newest of them. The packet
  keeps its identifier and payload.
\<close>

theorem dedup_refines_recent_list:
  assumes ok: "dedup_ok w" and pk: "packet_ok (pkt w b)"
  shows "\<exists>dup w'. csp_dedup_is_duplicate b w = Some (dup, w') \<and> dedup_ok w' \<and>
     (let crc = csp_crc32_memory (id_bytes (version (csp_conf w)) (p_id (pkt w b)) @ payload (pkt w b));
          now = csp_get_ms w
      in dup = recent_duplicate crc now (dedup_recent w) \<and>
         dedup_recent w' = (if dup then dedup_recent w else (crc, now) # take 14 (dedup_recent w))) \<and>
     p_id (pkt w' b) = p_id (pkt w b) \<and> payload (pkt w' b) = payload (pkt w b)"
proof -
  let ?v = "version (csp_conf w)"
  let ?crc = "csp_crc32_memory (id_bytes ?v (p_id (pkt w b)) @ payload (pkt w b))"
  define w1 where "w1 = set_pkt b (csp_id_prepend ?v (pkt w b)) w"
  have same: "dedup_recent w1 = dedup_recent w" "dedup_ok w1 = dedup_ok w" "csp_get_ms w1 = csp_get_ms w"
      "pkt w1 b = csp_id_prepend ?v (pkt w b)"
    by (simp_all add: w1_def dedup_recent_def slot_back_def dedup_ok_def csp_get_ms_def set_pkt_def pkt_def)
  have ok1: "dedup_ok w1" using ok same by simp
  have crc: "csp_crc32_memory (frame_bytes (pkt w1 b)) = ?crc"
    using frame_bytes_prepend [OF pk, of ?v] by (simp add: same)
  have pay: "p_id (pkt w1 b) = p_id (pkt w b)" "payload (pkt w1 b) = payload (pkt w b)"
    using pk by (simp_all add: same)
  show ?thesis
  proof (cases "recent_duplicate ?crc (csp_get_ms w) (dedup_recent w)")
    case True
    then have "csp_dedup_is_duplicate b w = Some (True, w1)"
      using dedup_search [OF ok1, of ?crc "csp_get_ms w1"] crc
      by (simp add: csp_dedup_is_duplicate_def w1_def [symmetric] same)
    then show ?thesis using True ok1 pay same by auto
  next
    case False
    define w2 where "w2 = w1\<lparr>csp_dedup_array := (csp_dedup_array w1)[unat (csp_dedup_in w1) := ?crc],
                            csp_dedup_timestamp := (csp_dedup_timestamp w1)[unat (csp_dedup_in w1) := csp_get_ms w1],
                            csp_dedup_in := (csp_dedup_in w1 + 1) mod 16\<rparr>"
    have "csp_dedup_is_duplicate b w = Some (False, w2)"
      using dedup_search [OF ok1, of ?crc "csp_get_ms w1"] crc False
      by (simp add: csp_dedup_is_duplicate_def w1_def [symmetric] w2_def same Let_def)
    moreover have "dedup_ok w2" "dedup_recent w2 = (?crc, csp_get_ms w) # take 14 (dedup_recent w)"
      using dedup_insert [OF ok1, of w2 ?crc "csp_get_ms w1"] same by (simp_all add: w2_def)
    moreover have "pkt w2 b = pkt w1 b" by (simp add: w2_def pkt_def)
    ultimately show ?thesis using False pay by auto
  qed
qed

definition ex_dd :: csp_dd where
  "ex_dd = csp_ks.extend ex_ks \<lparr>csp_dedup_array = replicate 16 0, csp_dedup_timestamp = replicate 16 0, csp_dedup_in = 0\<rparr>"

theorem dedup_refines_recent_list_witness:
  "\<exists>dup w'. csp_dedup_is_duplicate 0 (set_pkt 0 ex_packet ex_dd) = Some (dup, w') \<and> payload (pkt w' 0) = payload ex_packet"
proof -
  have "dedup_ok (set_pkt 0 ex_packet ex_dd)"
    by (simp add: dedup_ok_def set_pkt_def ex_dd_def csp_ks.defs)
  moreover have p: "pkt (set_pkt 0 ex_packet ex_dd) 0 = ex_packet" by (simp add: frame_simps)
  moreover have "packet_ok ex_packet" by (simp add: packet_ok_def ex_packet_def)
  ultimately show ?thesis using dedup_refines_recent_list [of "set_pkt 0 ex_packet ex_dd" 0] by auto
qed

end
