(* ===== verification/Sha1.thy ===== *)
theory Sha1
  imports Types
begin

text \<open>
  SHA-1 (\<open>src/crypto/csp_sha1.c\<close>): the compression function, the streaming interface and the padding,
  and the proof that any way of feeding a message in pieces computes the digest of the padded message.
\<close>

section \<open>Compression\<close>

abbreviation (input) STORE32H :: "u32 \<Rightarrow> u8 list" where "STORE32H x \<equiv> be_bytes 4 x"
abbreviation (input) LOAD32H :: "u8 list \<Rightarrow> u32" where "LOAD32H y \<equiv> be_value y"
abbreviation (input) STORE64H :: "u64 \<Rightarrow> u8 list" where "STORE64H x \<equiv> be_bytes 8 x"

definition ROL :: "u32 \<Rightarrow> nat \<Rightarrow> u32" where
  "ROL x y = push_bit y x OR drop_bit (32 - y) x"

definition F0 :: "u32 \<Rightarrow> u32 \<Rightarrow> u32 \<Rightarrow> u32" where "F0 x y z = z XOR (x AND (y XOR z))"
definition F1 :: "u32 \<Rightarrow> u32 \<Rightarrow> u32 \<Rightarrow> u32" where "F1 x y z = x XOR y XOR z"
definition F2 :: "u32 \<Rightarrow> u32 \<Rightarrow> u32 \<Rightarrow> u32" where "F2 x y z = (x AND y) OR (z AND (x OR y))"
definition F3 :: "u32 \<Rightarrow> u32 \<Rightarrow> u32 \<Rightarrow> u32" where "F3 x y z = x XOR y XOR z"

text \<open>The four macros \<open>FF_0\<close> to \<open>FF_3\<close> assign \<open>e\<close> and \<open>b\<close>; they differ in function and constant.\<close>

definition FF :: "(u32 \<Rightarrow> u32 \<Rightarrow> u32 \<Rightarrow> u32) \<Rightarrow> u32 \<Rightarrow> u32 \<Rightarrow> u32 \<Rightarrow> u32 \<Rightarrow> u32 \<Rightarrow> u32 \<Rightarrow> u32 \<Rightarrow> u32 \<times> u32" where
  "FF f k a b c d e w = (ROL a 5 + f b c d + e + w + k, ROL b 30)"

type_synonym sha1_regs = "u32 \<times> u32 \<times> u32 \<times> u32 \<times> u32"

definition five_steps ::
  "(u32 \<Rightarrow> u32 \<Rightarrow> u32 \<Rightarrow> u32) \<Rightarrow> u32 \<Rightarrow> u32 list \<Rightarrow> nat \<Rightarrow> sha1_regs \<Rightarrow> sha1_regs" where
  "five_steps f k W i r =
     (case r of (a, b, c, d, e) \<Rightarrow>
        (case FF f k a b c d e (W ! i) of (e, b) \<Rightarrow>
        (case FF f k e a b c d (W ! (i + 1)) of (d, a) \<Rightarrow>
        (case FF f k d e a b c (W ! (i + 2)) of (c, e) \<Rightarrow>
        (case FF f k c d e a b (W ! (i + 3)) of (b, d) \<Rightarrow>
        (case FF f k b c d e a (W ! (i + 4)) of (a, c) \<Rightarrow> (a, b, c, d, e)))))))"

definition sha1_round :: "(u32 \<Rightarrow> u32 \<Rightarrow> u32 \<Rightarrow> u32) \<Rightarrow> u32 \<Rightarrow> u32 list \<Rightarrow> nat \<Rightarrow> sha1_regs \<Rightarrow> sha1_regs" where
  "sha1_round f k W i r =
     five_steps f k W (i + 15) (five_steps f k W (i + 10) (five_steps f k W (i + 5) (five_steps f k W i r)))"

text \<open>\<open>W\<close> holds the block's 16 words, then each further word computed from earlier ones.\<close>

definition load_words :: "u8 list \<Rightarrow> u32 list" where
  "load_words buf = map (\<lambda>i. LOAD32H (mem_read buf (4 * i) 4)) [0..<16]"

fun expand_words :: "nat \<Rightarrow> u32 list \<Rightarrow> u32 list" where
  "expand_words 0 W = W"
| "expand_words (Suc n) W =
     (let i = length W
      in expand_words n (W @ [ROL (W ! (i - 3) XOR W ! (i - 8) XOR W ! (i - 14) XOR W ! (i - 16)) 1]))"

definition csp_sha1_compress :: "sha1_regs \<Rightarrow> u8 list \<Rightarrow> sha1_regs" where
  "csp_sha1_compress s buf =
     (let W = expand_words 64 (load_words buf);
          r = sha1_round F0 0x5a827999 W 0 s;
          r = sha1_round F1 0x6ed9eba1 W 20 r;
          r = sha1_round F2 0x8f1bbcdc W 40 r;
          (a, b, c, d, e) = sha1_round F3 0xca62c1d6 W 60 r
      in case s of (sa, sb, sc, sd, se) \<Rightarrow> (sa + a, sb + b, sc + c, sd + d, se + e))"

section \<open>Streaming\<close>

record csp_sha1_state =
  sha_length :: u64
  sha_state :: sha1_regs
  curlen :: u32
  sha_buf :: "u8 list"

abbreviation (input) CSP_SHA1_BLOCKSIZE :: nat where "CSP_SHA1_BLOCKSIZE \<equiv> 64"

definition csp_sha1_init :: "csp_sha1_state \<Rightarrow> csp_sha1_state" where
  "csp_sha1_init sha1 =
     sha1\<lparr>sha_state := (0x67452301, 0xefcdab89, 0x98badcfe, 0x10325476, 0xc3d2e1f0), curlen := 0, sha_length := 0\<rparr>"

text \<open>
  The data is the list of its bytes. The loop only ends if it makes progress, which takes a buffer that
  is not full at its start: \<open>None\<close> stands for no return, or for a write past the buffer.
\<close>

partial_function (option) csp_sha1_process :: "csp_sha1_state \<Rightarrow> u8 list \<Rightarrow> csp_sha1_state option" where
  "csp_sha1_process sha1 inp =
     (if inp = [] then Some sha1
      else if curlen sha1 = 0 \<and> CSP_SHA1_BLOCKSIZE \<le> length inp then
        csp_sha1_process
          (sha1\<lparr>sha_state := csp_sha1_compress (sha_state sha1) (take 64 inp), sha_length := sha_length sha1 + 64 * 8\<rparr>)
          (drop 64 inp)
      else
        (let n = min (length inp) (unat (64 - curlen sha1))
         in case mem_write (sha_buf sha1) (unat (curlen sha1)) (take n inp) of
              None \<Rightarrow> None
            | Some buf \<Rightarrow>
                let sha1 = sha1\<lparr>sha_buf := buf, curlen := curlen sha1 + of_nat n\<rparr>;
                    sha1 = (if curlen sha1 = 64
                            then sha1\<lparr>sha_state := csp_sha1_compress (sha_state sha1) (sha_buf sha1),
                                      sha_length := sha_length sha1 + 64 * 8, curlen := 0\<rparr>
                            else sha1)
                in csp_sha1_process sha1 (drop n inp)))"

text \<open>\<open>while (curlen < lim) buf[curlen++] = 0;\<close>\<close>

function zero_fill :: "nat \<Rightarrow> nat \<Rightarrow> u8 list \<Rightarrow> u8 list" where
  "zero_fill lim cur buf = (if cur < lim then zero_fill lim (cur + 1) (buf[cur := 0]) else buf)"
  by pat_completeness auto
termination by (relation "measure (\<lambda>(lim, cur, _). lim - cur)") auto

declare zero_fill.simps [simp del]

definition store_regs :: "sha1_regs \<Rightarrow> u8 list" where
  "store_regs s =
     (case s of (a, b, c, d, e) \<Rightarrow> STORE32H a @ STORE32H b @ STORE32H c @ STORE32H d @ STORE32H e)"

text \<open>A full buffer would take the 0x80 byte past its end: \<open>None\<close>.\<close>

definition csp_sha1_done :: "csp_sha1_state \<Rightarrow> u8 list option" where
  "csp_sha1_done sha1 =
     (let len = sha_length sha1 + ucast (curlen sha1 * 8);
          cur = unat (curlen sha1)
      in case mem_write (sha_buf sha1) cur [0x80] of
           None \<Rightarrow> None
         | Some buf \<Rightarrow>
             let cur = cur + 1;
                 (s, buf, cur) =
                   (if 56 < cur then
                      let buf = zero_fill 64 cur buf in (csp_sha1_compress (sha_state sha1) buf, buf, 0)
                    else (sha_state sha1, buf, cur));
                 buf = zero_fill 56 cur buf;
                 buf = mem_put buf 56 (STORE64H len)
             in Some (store_regs (csp_sha1_compress s buf)))"

definition sha1_blank :: csp_sha1_state where
  "sha1_blank = \<lparr>sha_length = 0, sha_state = (0, 0, 0, 0, 0), curlen = 0, sha_buf = replicate 64 0\<rparr>"

definition csp_sha1_memory :: "u8 list \<Rightarrow> u8 list option" where
  "csp_sha1_memory msg =
     (case csp_sha1_process (csp_sha1_init sha1_blank) msg of None \<Rightarrow> None | Some md \<Rightarrow> csp_sha1_done md)"

section \<open>The digest of a padded message\<close>

fun compress_blocks :: "nat \<Rightarrow> sha1_regs \<Rightarrow> u8 list \<Rightarrow> sha1_regs" where
  "compress_blocks 0 s m = s"
| "compress_blocks (Suc n) s m = compress_blocks n (csp_sha1_compress s (take 64 m)) (drop 64 m)"

definition sha1_iv :: sha1_regs where
  "sha1_iv = (0x67452301, 0xefcdab89, 0x98badcfe, 0x10325476, 0xc3d2e1f0)"

text \<open>One bit, zeros up to 8 bytes before a block boundary, and the length in bits.\<close>

definition sha1_pad :: "u8 list \<Rightarrow> u8 list" where
  "sha1_pad m =
     m @ [0x80] @ replicate ((119 - length m mod 64) mod 64) 0 @ be_bytes 8 (of_nat (8 * length m) :: u64)"

definition sha1_spec :: "u8 list \<Rightarrow> u8 list" where
  "sha1_spec m = store_regs (compress_blocks (length (sha1_pad m) div 64) sha1_iv (sha1_pad m))"

text \<open>
  The state after the message \<open>m\<close>: its complete blocks compressed, the rest in the buffer. The bit
  counter counts the complete blocks.
\<close>

definition sha1_after :: "u8 list \<Rightarrow> csp_sha1_state \<Rightarrow> bool" where
  "sha1_after m st \<longleftrightarrow>
     (let n = length m div 64
      in sha_state st = compress_blocks n sha1_iv (take (64 * n) m) \<and>
         unat (curlen st) = length m mod 64 \<and> length (sha_buf st) = 64 \<and>
         take (length m mod 64) (sha_buf st) = drop (64 * n) m \<and>
         sha_length st = of_nat (8 * 64 * n))"

lemma compress_blocks_snoc:
  "length m = 64 * n \<Longrightarrow> length b = 64 \<Longrightarrow>
     compress_blocks (Suc n) s (m @ b) = csp_sha1_compress (compress_blocks n s m) b"
proof (induction n arbitrary: s m)
  case (Suc n)
  then have l: "64 \<le> length m" by simp
  have "compress_blocks (Suc (Suc n)) s (m @ b) =
      compress_blocks (Suc n) (csp_sha1_compress s (take 64 m)) (drop 64 m @ b)"
    using l by (simp add: drop_append)
  also have "\<dots> = csp_sha1_compress (compress_blocks n (csp_sha1_compress s (take 64 m)) (drop 64 m)) b"
    using Suc.prems by (intro Suc.IH) simp_all
  finally show ?case by simp
qed simp

lemma sha1_after_init: "sha1_after [] (csp_sha1_init sha1_blank)"
  by (simp add: sha1_after_def csp_sha1_init_def sha1_blank_def sha1_iv_def)

text \<open>The state after a message of \<open>k\<close> blocks and \<open>r\<close> more bytes.\<close>

lemma sha1_afterI:
  assumes "length m = 64 * k + r" and "r < 64" and "sha_state st = compress_blocks k sha1_iv (take (64 * k) m)"
    and "unat (curlen st) = r" and "length (sha_buf st) = 64" and "take r (sha_buf st) = drop (64 * k) m"
    and "sha_length st = of_nat (8 * 64 * k)"
  shows "sha1_after m st"
proof -
  have "length m div 64 = k" "length m mod 64 = r" using assms(1,2) by simp_all
  then show ?thesis using assms by (simp add: sha1_after_def)
qed

lemma sha1_afterD:
  assumes "sha1_after m st"
  obtains k r where "length m = 64 * k + r" "r < 64" "sha_state st = compress_blocks k sha1_iv (take (64 * k) m)"
    "unat (curlen st) = r" "length (sha_buf st) = 64" "take r (sha_buf st) = drop (64 * k) m"
    "sha_length st = of_nat (8 * 64 * k)"
proof
  show "length m = 64 * (length m div 64) + length m mod 64" by simp
qed (use assms in \<open>simp_all add: sha1_after_def Let_def\<close>)

lemma sha1_block_direct:
  assumes af: "sha1_after m st" and c: "curlen st = 0" and l: "64 \<le> length inp"
  shows "sha1_after (m @ take 64 inp)
     (st\<lparr>sha_state := csp_sha1_compress (sha_state st) (take 64 inp), sha_length := sha_length st + 64 * 8\<rparr>)"
proof -
  obtain k r where A: "length m = 64 * k + r" "r < 64" "sha_state st = compress_blocks k sha1_iv (take (64 * k) m)"
    "unat (curlen st) = r" "length (sha_buf st) = 64" "take r (sha_buf st) = drop (64 * k) m"
    "sha_length st = of_nat (8 * 64 * k)"
    using af by (rule sha1_afterD)
  then have m: "length m = 64 * k" using c by simp
  show ?thesis
  proof (rule sha1_afterI [of _ "Suc k" 0])
    show "length (m @ take 64 inp) = 64 * Suc k + 0" using m l by simp
    have "compress_blocks (Suc k) sha1_iv (m @ take 64 inp) = csp_sha1_compress (sha_state st) (take 64 inp)"
      using compress_blocks_snoc [OF m, of "take 64 inp" sha1_iv] l m A(3) by simp
    then show "sha_state (st\<lparr>sha_state := csp_sha1_compress (sha_state st) (take 64 inp),
          sha_length := sha_length st + 64 * 8\<rparr>) = compress_blocks (Suc k) sha1_iv (take (64 * Suc k) (m @ take 64 inp))"
      using m l by simp
  qed (use A m l c in simp_all)
qed

text \<open>Filling the buffer with \<open>n\<close> bytes, up to the end of a block.\<close>

definition sha1_fill :: "csp_sha1_state \<Rightarrow> u8 list \<Rightarrow> csp_sha1_state" where
  "sha1_fill st xs =
     (let sha1 = st\<lparr>sha_buf := mem_put (sha_buf st) (unat (curlen st)) xs, curlen := curlen st + of_nat (length xs)\<rparr>
      in if curlen sha1 = 64
         then sha1\<lparr>sha_state := csp_sha1_compress (sha_state sha1) (sha_buf sha1), sha_length := sha_length sha1 + 64 * 8,
                   curlen := 0\<rparr>
         else sha1)"

lemma sha1_block_fill:
  assumes af: "sha1_after m st" and n: "length xs + unat (curlen st) \<le> 64"
  shows "sha1_after (m @ xs) (sha1_fill st xs)"
proof -
  obtain k r where A: "length m = 64 * k + r" "r < 64" "sha_state st = compress_blocks k sha1_iv (take (64 * k) m)"
    "unat (curlen st) = r" "length (sha_buf st) = 64" "take r (sha_buf st) = drop (64 * k) m"
    "sha_length st = of_nat (8 * 64 * k)"
    using af by (rule sha1_afterD)
  let ?c = "curlen st + of_nat (length xs)" and ?b = "mem_put (sha_buf st) r xs"
  have c: "unat ?c = r + length xs"
    using n A(4) by (simp add: unat_word_ariths unsigned_of_nat take_bit_eq_mod)
  have b: "take (r + length xs) ?b = drop (64 * k) m @ xs"
    using A(1,5,6) n A(4) by (simp add: mem_put_def)
  have lb: "length ?b = 64" using A(4,5) n by simp
  have iff: "?c = 64 \<longleftrightarrow> r + length xs = 64" using c by (simp add: word_unat_eq_iff)
  show ?thesis
  proof (cases "r + length xs = 64")
    case True
    have "take 64 ?b = ?b" using lb by simp
    then have blk: "?b = drop (64 * k) m @ xs" using b True by simp
    have "compress_blocks (Suc k) sha1_iv (take (64 * k) m @ ?b) = csp_sha1_compress (sha_state st) ?b"
      using compress_blocks_snoc [of "take (64 * k) m" k ?b sha1_iv] A(1,3) lb by simp
    moreover have "take (64 * k) m @ ?b = m @ xs" unfolding blk by simp
    ultimately have st: "compress_blocks (Suc k) sha1_iv (m @ xs) = csp_sha1_compress (sha_state st) ?b" by simp
    have len: "length (m @ xs) = 64 * Suc k" using True A(1) by simp
    show ?thesis
      by (rule sha1_afterI [of _ "Suc k" 0])
        (use len st iff True A lb in \<open>simp_all add: sha1_fill_def Let_def\<close>)
  next
    case False
    then have lt: "r + length xs < 64" using n A(4) by simp
    show ?thesis
      by (rule sha1_afterI [of _ k "r + length xs"])
        (use lt iff False A c b lb in \<open>simp_all add: sha1_fill_def Let_def\<close>)
  qed
qed

text \<open>Processing always returns, and the state is the one after the longer message.\<close>

lemma csp_sha1_process_after:
  "sha1_after m st \<Longrightarrow> \<exists>st'. csp_sha1_process st inp = Some st' \<and> sha1_after (m @ inp) st'"
proof (induction "length inp" arbitrary: m st inp rule: less_induct)
  case less
  note af = less.prems
  show ?case
  proof (cases "inp = []")
    case True
    then show ?thesis using af by (simp add: csp_sha1_process.simps)
  next
    case ne: False
    show ?thesis
    proof (cases "curlen st = 0 \<and> 64 \<le> length inp")
      case True
      let ?st = "st\<lparr>sha_state := csp_sha1_compress (sha_state st) (take 64 inp), sha_length := sha_length st + 64 * 8\<rparr>"
      have "sha1_after (m @ take 64 inp) ?st" using sha1_block_direct [OF af] True by simp
      from less.hyps [OF _ this, of "drop 64 inp"] True ne show ?thesis
        by (subst csp_sha1_process.simps) simp
    next
      case False
      have cl: "unat (curlen st) < 64" and lb: "length (sha_buf st) = 64"
        using af by (simp_all add: sha1_after_def Let_def)
      define n where "n = min (length inp) (unat (64 - curlen st))"
      have sub: "unat (64 - curlen st) = 64 - unat (curlen st)"
        using cl by (simp add: unat_sub word_le_nat_alt)
      have n: "n \<le> length inp" "n + unat (curlen st) \<le> 64" "0 < n"
        using cl ne sub by (auto simp: n_def)
      have wr: "mem_write (sha_buf st) (unat (curlen st)) (take n inp) = Some (mem_put (sha_buf st) (unat (curlen st)) (take n inp))"
        using n lb by (intro mem_write_put) simp
      have af': "sha1_after (m @ take n inp) (sha1_fill st (take n inp))"
        using sha1_block_fill [OF af, of "take n inp"] n by simp
      have step: "csp_sha1_process st inp = csp_sha1_process (sha1_fill st (take n inp)) (drop n inp)"
        using n(1)
        by (subst csp_sha1_process.simps, subst if_not_P [OF ne], subst if_not_P [OF False])
          (simp add: n_def [symmetric] wr Let_def sha1_fill_def)
      show ?thesis unfolding step
        using less.hyps [OF _ af', of "drop n inp"] n by simp
    qed
  qed
qed

section \<open>Padding and the digest\<close>

lemma zero_fill_eq:
  "cur \<le> lim \<Longrightarrow> lim \<le> length buf \<Longrightarrow> zero_fill lim cur buf = take cur buf @ replicate (lim - cur) 0 @ drop lim buf"
proof (induction lim cur buf rule: zero_fill.induct)
  case (1 lim cur buf)
  show ?case
  proof (cases "cur < lim")
    case True
    then have "zero_fill lim cur buf = zero_fill lim (cur + 1) (buf[cur := 0])" by (subst zero_fill.simps) simp
    also have "\<dots> = take (cur + 1) (buf[cur := 0]) @ replicate (lim - (cur + 1)) 0 @ drop lim (buf[cur := 0])"
      using 1 True by simp
    also have "take (cur + 1) (buf[cur := 0]) = take cur buf @ [0]"
      using True 1 by (simp add: take_Suc_conv_app_nth take_update_cancel)
    also have "drop lim (buf[cur := 0]) = drop lim buf" using True by simp
    finally show ?thesis using True by (simp add: replicate_Suc [symmetric] Suc_diff_Suc del: replicate_Suc)
  next
    case False
    then show ?thesis using 1 by (subst zero_fill.simps) simp
  qed
qed

lemma compress_blocks_append:
  "length m = 64 * k \<Longrightarrow> compress_blocks (k + n) s (m @ t) = compress_blocks n (compress_blocks k s m) t"
proof (induction k arbitrary: s m)
  case (Suc k)
  then have "64 \<le> length m" by simp
  then show ?case using Suc by (simp add: drop_append)
qed simp

text \<open>What the padding adds to the bytes in the buffer, in one block or in two.\<close>

lemma sha1_pad_one:
  assumes "length m = 64 * k + r" and "r < 56"
  shows "sha1_pad m = take (64 * k) m @
    (drop (64 * k) m @ [0x80] @ replicate (55 - r) 0 @ be_bytes 8 (of_nat (8 * length m) :: u64))"
proof -
  have "119 - r = (55 - r) + 64" using assms(2) by simp
  then have "(119 - r) mod 64 = (55 - r) mod 64" by (simp only: mod_add_self2)
  also have "\<dots> = 55 - r" by (intro mod_less) simp
  finally have z: "(119 - length m mod 64) mod 64 = 55 - r" using assms by simp
  have split: "m @ xs = take (64 * k) m @ drop (64 * k) m @ xs" for xs by simp
  show ?thesis unfolding sha1_pad_def z split append_assoc ..
qed

lemma sha1_pad_two:
  assumes "length m = 64 * k + r" and "56 \<le> r" and "r < 64"
  shows "sha1_pad m = take (64 * k) m @
    ((drop (64 * k) m @ [0x80] @ replicate (63 - r) 0) @ (replicate 56 0 @ be_bytes 8 (of_nat (8 * length m) :: u64)))"
proof -
  have "(119 - r) mod 64 = 119 - r" using assms(2) by (intro mod_less) simp
  also have "119 - r = (63 - r) + 56" using assms(3) by simp
  finally have z: "(119 - length m mod 64) mod 64 = (63 - r) + 56" using assms(1,3) by simp
  have split: "m @ xs = take (64 * k) m @ drop (64 * k) m @ xs" for xs by simp
  show ?thesis unfolding sha1_pad_def z replicate_add split append_assoc ..
qed

lemma sha1_spec_tail:
  assumes "64 * k \<le> length m" and "sha1_pad m = take (64 * k) m @ t" and "length t = 64 * n"
  shows "sha1_spec m = store_regs (compress_blocks n (compress_blocks k sha1_iv (take (64 * k) m)) t)"
proof -
  have "length (sha1_pad m) div 64 = k + n" using assms by simp
  then show ?thesis
    unfolding sha1_spec_def using compress_blocks_append [of "take (64 * k) m" k n sha1_iv t] assms(1,2) by simp
qed

text \<open>The digest a state yields: the rest in the buffer, padded to one or two blocks.\<close>

lemma csp_sha1_done_after:
  assumes af: "sha1_after m st"
  shows "csp_sha1_done st = Some (sha1_spec m)"
proof -
  obtain k r where A: "length m = 64 * k + r" "r < 64" "sha_state st = compress_blocks k sha1_iv (take (64 * k) m)"
    "unat (curlen st) = r" "length (sha_buf st) = 64" "take r (sha_buf st) = drop (64 * k) m"
    "sha_length st = of_nat (8 * 64 * k)"
    using af by (rule sha1_afterD)
  define lenb where "lenb = be_bytes 8 (of_nat (8 * length m) :: u64)"
  have lr: "length (drop (64 * k) m) = r" and lk: "64 * k \<le> length m" using A(1) by simp_all
  have ll: "length lenb = 8" by (simp add: lenb_def)
  have "unat (curlen st * 8) = r * 8" using A(2,4) by (simp add: unat_word_ariths)
  moreover have "ucast (curlen st * 8) = (of_nat (unat (curlen st * 8)) :: u64)" by simp
  ultimately have "ucast (curlen st * 8) = (of_nat (r * 8) :: u64)" by (simp only:)
  then have len: "sha_length st + ucast (curlen st * 8) = (of_nat (8 * length m) :: u64)"
    by (simp add: A(1,7) algebra_simps)
  define b1 where "b1 = mem_put (sha_buf st) r [0x80]"
  have wr: "mem_write (sha_buf st) r [0x80] = Some b1"
    using A(2,5) by (simp add: b1_def mem_write_put)
  have b1: "length b1 = 64" "take (r + 1) b1 = drop (64 * k) m @ [0x80]"
    using A(1,2,5,6) by (simp_all add: b1_def mem_put_def)
  show ?thesis
  proof (cases "56 < r + 1")
    case True
    define b2 where "b2 = zero_fill 64 (Suc r) b1"
    have b2: "b2 = drop (64 * k) m @ [0x80] @ replicate (63 - r) 0"
      using zero_fill_eq [of "Suc r" 64 b1] A(2) b1 by (simp add: b2_def)
    have l2: "length b2 = 64" using A(2) lr by (simp add: b2)
    have b3: "mem_put (zero_fill 56 0 b2) 56 lenb = replicate 56 0 @ lenb"
      using zero_fill_eq [of 0 56 b2] l2 ll by (simp add: mem_put_def)
    have "sha1_pad m = take (64 * k) m @ (b2 @ (replicate 56 0 @ lenb))"
      using sha1_pad_two [OF A(1) _ A(2)] True unfolding b2 lenb_def by simp
    then have "sha1_spec m = store_regs (csp_sha1_compress (csp_sha1_compress (sha_state st) b2) (replicate 56 0 @ lenb))"
      using sha1_spec_tail [OF lk, of "b2 @ (replicate 56 0 @ lenb)" 2] l2 ll by (simp add: A(3) numeral_2_eq_2)
    then show ?thesis
      using True wr len b3 A(4) by (simp add: csp_sha1_done_def Let_def b2_def [symmetric] lenb_def)
  next
    case False
    define b3 where "b3 = mem_put (zero_fill 56 (r + 1) b1) 56 lenb"
    have sr: "56 - r = Suc (55 - r)" using False by simp
    have b3: "b3 = drop (64 * k) m @ [0x80] @ replicate (55 - r) 0 @ lenb"
      using zero_fill_eq [of "r + 1" 56 b1] False b1 ll lr by (simp add: b3_def mem_put_def sr)
    have l3: "length b3 = 64" using False lr ll by (simp add: b3)
    have "sha1_pad m = take (64 * k) m @ b3"
      using sha1_pad_one [OF A(1)] False unfolding b3 lenb_def by simp
    then have "sha1_spec m = store_regs (csp_sha1_compress (sha_state st) b3)"
      using sha1_spec_tail [OF lk, of b3 1] l3 by (simp add: A(3))
    then show ?thesis
      using False wr len A(4) by (simp add: csp_sha1_done_def Let_def b3_def lenb_def)
  qed
qed

fun process_chunks :: "csp_sha1_state \<Rightarrow> u8 list list \<Rightarrow> csp_sha1_state option" where
  "process_chunks st [] = Some st"
| "process_chunks st (c # cs) = (case csp_sha1_process st c of None \<Rightarrow> None | Some st' \<Rightarrow> process_chunks st' cs)"

lemma process_chunks_after:
  "sha1_after m st \<Longrightarrow> \<exists>st'. process_chunks st cs = Some st' \<and> sha1_after (m @ concat cs) st'"
proof (induction cs arbitrary: m st)
  case (Cons c cs)
  obtain st1 where "csp_sha1_process st c = Some st1" "sha1_after (m @ c) st1"
    using csp_sha1_process_after [OF Cons.prems] by blast
  then show ?case using Cons.IH [of "m @ c" st1] by auto
qed auto

text \<open>
  \<^bold>\<open>Claim C21.\<close> However a message is cut into pieces for \<open>csp_sha1_process\<close>, every call returns without leaving
  the 64-byte buffer, and \<open>csp_sha1_done\<close> yields the SHA-1 digest of the whole message: the compression
  function folded over the blocks of the message padded with one bit, zeros and its length in bits.
\<close>

theorem sha1_streaming:
  "\<exists>st. process_chunks (csp_sha1_init sha1_blank) cs = Some st \<and> csp_sha1_done st = Some (sha1_spec (concat cs))"
  using process_chunks_after [OF sha1_after_init, of cs] csp_sha1_done_after by auto

lemma csp_sha1_memory_spec: "csp_sha1_memory m = Some (sha1_spec m)"
proof -
  obtain st where "csp_sha1_process (csp_sha1_init sha1_blank) m = Some st" "sha1_after m st"
    using csp_sha1_process_after [OF sha1_after_init, of m] by auto
  then show ?thesis using csp_sha1_done_after by (simp add: csp_sha1_memory_def)
qed

end
