(* ===== verification/Hmac.thy ===== *)
theory Hmac
  imports Sha1 Csp_Id
begin

text \<open>
  HMAC-SHA1 of packets (\<open>src/crypto/csp_hmac.c\<close>). Pointers to keys and data are options of byte lists. The
  outer \<open>option\<close> of a result is the one of \<open>Sha1\<close>: \<open>None\<close> stands for a call that does not return or
  leaves a buffer, and is proved not to occur. The static \<open>csp_hmac_key\<close> is the argument \<open>hkey\<close>.
\<close>

section \<open>Operations\<close>

record hmac_state =
  hm_md :: csp_sha1_state
  hm_key :: "u8 list"

definition HMAC_KEY_LENGTH :: nat where "HMAC_KEY_LENGTH = 16"

abbreviation (input) CSP_HMAC_LENGTH :: nat where "CSP_HMAC_LENGTH \<equiv> 4"

definition csp_hmac_init :: "u8 list option \<Rightarrow> (int \<times> hmac_state option) option" where
  "csp_hmac_init key =
     (case key of
        None \<Rightarrow> Some (CSP_ERR_INVAL, None)
      | Some key \<Rightarrow>
          if length key < 1 then Some (CSP_ERR_INVAL, None)
          else case (if 64 < length key then csp_sha1_memory key else Some key) of
            None \<Rightarrow> None
          | Some k \<Rightarrow>
              let k = k @ replicate (64 - length k) 0;
                  buf = map (\<lambda>x. x XOR 0x36) k
              in case csp_sha1_process (csp_sha1_init sha1_blank) buf of
                   None \<Rightarrow> None
                 | Some md \<Rightarrow> Some (CSP_ERR_NONE, Some \<lparr>hm_md = md, hm_key = k\<rparr>))"

definition csp_hmac_process :: "hmac_state \<Rightarrow> u8 list option \<Rightarrow> (int \<times> hmac_state) option" where
  "csp_hmac_process hmac inp =
     (case inp of
        None \<Rightarrow> Some (CSP_ERR_INVAL, hmac)
      | Some inp \<Rightarrow>
          (case csp_sha1_process (hm_md hmac) inp of
             None \<Rightarrow> None
           | Some md \<Rightarrow> Some (CSP_ERR_NONE, hmac\<lparr>hm_md := md\<rparr>)))"

definition csp_hmac_done :: "hmac_state \<Rightarrow> (int \<times> u8 list) option" where
  "csp_hmac_done hmac =
     (case csp_sha1_done (hm_md hmac) of
        None \<Rightarrow> None
      | Some isha \<Rightarrow>
          let buf = map (\<lambda>x. x XOR 0x5C) (hm_key hmac)
          in case csp_sha1_process (csp_sha1_init (hm_md hmac)) buf of
               None \<Rightarrow> None
             | Some md \<Rightarrow>
                 (case csp_sha1_process md isha of
                    None \<Rightarrow> None
                  | Some md \<Rightarrow> (case csp_sha1_done md of None \<Rightarrow> None | Some out \<Rightarrow> Some (CSP_ERR_NONE, take 20 out))))"

definition csp_hmac_memory :: "u8 list option \<Rightarrow> u8 list option \<Rightarrow> (int \<times> u8 list option) option" where
  "csp_hmac_memory key data =
     (if key = None \<or> data = None then Some (CSP_ERR_INVAL, None)
      else case csp_hmac_init key of
        None \<Rightarrow> None
      | Some (r, st) \<Rightarrow>
          (case st of
             None \<Rightarrow> Some (CSP_ERR_INVAL, None)
           | Some st \<Rightarrow>
               (case csp_hmac_process st data of
                  None \<Rightarrow> None
                | Some (r, st) \<Rightarrow>
                    if r \<noteq> 0 then Some (CSP_ERR_INVAL, None)
                    else (case csp_hmac_done st of
                            None \<Rightarrow> None
                          | Some (r, out) \<Rightarrow>
                              if r \<noteq> 0 then Some (CSP_ERR_INVAL, None) else Some (CSP_ERR_NONE, Some out)))))"

text \<open>The key is the first 16 bytes of a digest.\<close>

definition csp_hmac_set_key :: "u8 list \<Rightarrow> (int \<times> u8 list) option" where
  "csp_hmac_set_key key =
     (case csp_sha1_memory key of None \<Rightarrow> None | Some hash \<Rightarrow> Some (CSP_ERR_NONE, take HMAC_KEY_LENGTH hash))"

text \<open>
  The length test of \<open>csp_hmac_append\<close> is in 16-bit arithmetic. The digest lands behind the payload or
  behind the frame; \<open>memcpy\<close> outside the packet gives \<open>None\<close>.
\<close>

definition frame_end_write :: "csp_packet \<Rightarrow> u8 list \<Rightarrow> csp_packet option" where
  "frame_end_write p bs =
     (case frame_begin p of
        Alias _ _ \<Rightarrow> None
      | Own off \<Rightarrow>
          (case mem_write (area p) (off + unat (frame_length p)) bs of
             None \<Rightarrow> None
           | Some m \<Rightarrow> Some (p\<lparr>area := m\<rparr>)))"

definition csp_hmac_append :: "u8 list \<Rightarrow> bool \<Rightarrow> csp_packet \<Rightarrow> (int \<times> csp_packet) option" where
  "csp_hmac_append hkey include_header p =
     (if 256 < p_length p + 4 then Some (CSP_ERR_NOMEM, p)
      else if include_header then
        (case csp_hmac_memory (Some hkey) (Some (frame_bytes p)) of
           Some (_, Some hmac) \<Rightarrow>
             (case frame_end_write p (take CSP_HMAC_LENGTH hmac) of
                None \<Rightarrow> None
              | Some p \<Rightarrow> Some (CSP_ERR_NONE, p\<lparr>frame_length := frame_length p + 4, p_length := p_length p + 4\<rparr>))
         | _ \<Rightarrow> None)
      else
        (case csp_hmac_memory (Some hkey) (Some (payload p)) of
           Some (_, Some hmac) \<Rightarrow>
             (case mem_write (area p) (DATA_OFF + unat (p_length p)) (take CSP_HMAC_LENGTH hmac) of
                None \<Rightarrow> None
              | Some m \<Rightarrow> Some (CSP_ERR_NONE, p\<lparr>area := m, p_length := p_length p + 4\<rparr>))
         | _ \<Rightarrow> None))"

definition csp_hmac_verify :: "u8 list \<Rightarrow> bool \<Rightarrow> csp_packet \<Rightarrow> (int \<times> csp_packet) option" where
  "csp_hmac_verify hkey include_header p =
     (if p_length p < 4 then Some (CSP_ERR_HMAC, p)
      else if include_header then
        (case csp_hmac_memory (Some hkey) (Some (take (unat (frame_length p) - 4) (frame_bytes p))) of
           Some (_, Some hmac) \<Rightarrow>
             if drop (unat (frame_length p) - 4) (frame_bytes p) \<noteq> take CSP_HMAC_LENGTH hmac then Some (CSP_ERR_HMAC, p)
             else Some (CSP_ERR_NONE, p\<lparr>frame_length := frame_length p - 4\<rparr>)
         | _ \<Rightarrow> None)
      else
        (case csp_hmac_memory (Some hkey) (Some (take (unat (p_length p) - 4) (payload p))) of
           Some (_, Some hmac) \<Rightarrow>
             if drop (unat (p_length p) - 4) (payload p) \<noteq> take CSP_HMAC_LENGTH hmac then Some (CSP_ERR_HMAC, p)
             else Some (CSP_ERR_NONE, p\<lparr>p_length := p_length p - 4\<rparr>)
         | _ \<Rightarrow> None))"

section \<open>The keyed hash\<close>

definition hmac_block_key :: "u8 list \<Rightarrow> u8 list" where
  "hmac_block_key key =
     (let k = (if 64 < length key then sha1_spec key else key) in k @ replicate (64 - length k) 0)"

definition hmac_spec :: "u8 list \<Rightarrow> u8 list \<Rightarrow> u8 list" where
  "hmac_spec key m =
     sha1_spec (map (\<lambda>x. x XOR 0x5C) (hmac_block_key key) @
       sha1_spec (map (\<lambda>x. x XOR 0x36) (hmac_block_key key) @ m))"

lemma length_sha1_spec [simp]: "length (sha1_spec m) = 20"
  by (simp add: sha1_spec_def store_regs_def split: prod.split)

lemma sha1_after_start: "length (sha_buf st) = 64 \<Longrightarrow> sha1_after [] (csp_sha1_init st)"
  by (simp add: sha1_after_def csp_sha1_init_def sha1_iv_def)

lemma sha1_two:
  assumes "length (sha_buf st) = 64"
  shows "\<exists>s1 s2. csp_sha1_process (csp_sha1_init st) a = Some s1 \<and> csp_sha1_process s1 b = Some s2 \<and>
     csp_sha1_done s2 = Some (sha1_spec (a @ b)) \<and> length (sha_buf s2) = 64"
proof -
  obtain s1 where s1: "csp_sha1_process (csp_sha1_init st) a = Some s1" "sha1_after a s1"
    using csp_sha1_process_after [OF sha1_after_start [OF assms], of a] by auto
  obtain s2 where s2: "csp_sha1_process s1 b = Some s2" "sha1_after (a @ b) s2"
    using csp_sha1_process_after [OF s1(2)] by blast
  then have "length (sha_buf s2) = 64" by (simp add: sha1_after_def Let_def)
  then show ?thesis using s1(1) s2 csp_sha1_done_after [OF s2(2)] by blast
qed

lemma hmac_memory_eq:
  assumes "key \<noteq> []"
  shows "csp_hmac_memory (Some key) (Some data) = Some (CSP_ERR_NONE, Some (hmac_spec key data))"
proof -
  let ?k = "hmac_block_key key"
  let ?i = "map (\<lambda>x. x XOR 0x36) ?k" and ?o = "map (\<lambda>x. x XOR 0x5C) ?k"
  have "length (sha_buf sha1_blank) = 64" by (simp add: sha1_blank_def)
  from sha1_two [OF this] obtain s1 s2 where S: "csp_sha1_process (csp_sha1_init sha1_blank) ?i = Some s1"
      "csp_sha1_process s1 data = Some s2" "csp_sha1_done s2 = Some (sha1_spec (?i @ data))" "length (sha_buf s2) = 64"
    by blast
  from sha1_two [OF S(4)] obtain s3 s4 where T: "csp_sha1_process (csp_sha1_init s2) ?o = Some s3"
      "csp_sha1_process s3 (sha1_spec (?i @ data)) = Some s4"
      "csp_sha1_done s4 = Some (sha1_spec (?o @ sha1_spec (?i @ data)))"
    by blast
  have kd: "(if 64 < length key then csp_sha1_memory key else Some key) =
      Some (if 64 < length key then sha1_spec key else key)"
    by (simp add: csp_sha1_memory_spec)
  have ini: "csp_hmac_init (Some key) = Some (CSP_ERR_NONE, Some \<lparr>hm_md = s1, hm_key = ?k\<rparr>)"
    using assms S(1) by (simp add: csp_hmac_init_def kd hmac_block_key_def Let_def)
  have pro: "csp_hmac_process \<lparr>hm_md = s1, hm_key = ?k\<rparr> (Some data) = Some (CSP_ERR_NONE, \<lparr>hm_md = s2, hm_key = ?k\<rparr>)"
    using S(2) by (simp add: csp_hmac_process_def)
  have don: "csp_hmac_done \<lparr>hm_md = s2, hm_key = ?k\<rparr> = Some (CSP_ERR_NONE, hmac_spec key data)"
    using S(3) T by (simp add: csp_hmac_done_def hmac_spec_def Let_def)
  show ?thesis by (simp add: csp_hmac_memory_def ini pro don CSP_ERR_NONE_def)
qed



lemma length_hmac_spec [simp]: "length (hmac_spec k m) = 20"
  by (simp add: hmac_spec_def)

lemma hmac_append_ok:
  assumes ok: "packet_ok p" and key: "hkey \<noteq> []" and fit: "unat (p_length p) + 4 \<le> CSP_BUFFER_SIZE"
  shows "\<exists>q. csp_hmac_append hkey False p = Some (CSP_ERR_NONE, q) \<and> packet_ok q \<and> p_id q = p_id p \<and>
     unat (p_length q) = unat (p_length p) + 4 \<and> payload q = payload p @ take 4 (hmac_spec hkey (payload p)) \<and>
     frame_begin q = frame_begin p"
proof -
  let ?h = "take 4 (hmac_spec hkey (payload p))"
  let ?a = "mem_put (area p) (DATA_OFF + unat (p_length p)) ?h"
  let ?q = "p\<lparr>area := ?a, p_length := p_length p + 4\<rparr>"
  have len: "unat (p_length p + 4) = unat (p_length p) + 4"
    using fit by (simp add: unat_word_ariths)
  have "\<not> 256 < p_length p + 4" using fit len by (simp add: word_less_nat_alt)
  moreover have wr: "mem_write (area p) (DATA_OFF + unat (p_length p)) ?h = Some ?a"
    using ok fit by (intro mem_write_put) (simp add: packet_ok_def)
  ultimately have ap: "csp_hmac_append hkey False p = Some (CSP_ERR_NONE, ?q)"
    using hmac_memory_eq [OF key] by (simp add: csp_hmac_append_def)
  have okq: "packet_ok ?q" using ok fit len by (simp add: packet_ok_def)
  have "mem_read ?a (DATA_OFF + unat (p_length p)) 4 = ?h"
    using ok fit mem_read_put_same [of "DATA_OFF + unat (p_length p)" ?h "area p"] by (simp add: packet_ok_def)
  moreover have "mem_read ?a DATA_OFF (unat (p_length p)) = payload p"
    using ok fit by (simp add: payload_def packet_ok_def mem_read_put_before)
  moreover have "payload ?q = mem_read ?a DATA_OFF (unat (p_length p)) @ mem_read ?a (DATA_OFF + unat (p_length p)) 4"
    by (simp add: payload_def len mem_read_append)
  ultimately show ?thesis using ap okq len by auto
qed

text \<open>A payload that ends in the code of the rest, and verification as a function of it.\<close>

definition hmac_good :: "u8 list \<Rightarrow> u8 list \<Rightarrow> bool" where
  "hmac_good hkey m \<longleftrightarrow> 4 \<le> length m \<and> drop (length m - 4) m = take 4 (hmac_spec hkey (take (length m - 4) m))"

lemma hmac_verify_spec:
  assumes ok: "packet_ok p" and key: "hkey \<noteq> []"
  shows "csp_hmac_verify hkey False p =
     Some (if hmac_good hkey (payload p) then (CSP_ERR_NONE, p\<lparr>p_length := p_length p - 4\<rparr>) else (CSP_ERR_HMAC, p))"
  using hmac_memory_eq [OF key] ok
  by (auto simp: csp_hmac_verify_def hmac_good_def word_less_nat_alt)

lemma payload_shorter:
  assumes "packet_ok p" and "4 \<le> unat (p_length p)"
  shows "packet_ok (p\<lparr>p_length := p_length p - 4\<rparr>)"
    and "payload (p\<lparr>p_length := p_length p - 4\<rparr>) = take (length (payload p) - 4) (payload p)"
proof -
  have l: "unat (p_length p - 4) = unat (p_length p) - 4" using assms(2) by (simp add: unat_sub word_le_nat_alt)
  have "unat (p_length p) \<le> CSP_BUFFER_SIZE" using assms(1) by (simp add: packet_ok_def)
  then have "unat (p_length p - 4) \<le> CSP_BUFFER_SIZE" unfolding l by linarith
  then show "packet_ok (p\<lparr>p_length := p_length p - 4\<rparr>)" using assms(1) by (simp add: packet_ok_def)
  show "payload (p\<lparr>p_length := p_length p - 4\<rparr>) = take (length (payload p) - 4) (payload p)"
    unfolding length_payload [OF assms(1)] by (simp add: payload_def mem_read_def l min.absorb1)
qed



end
