(* ===== verification/Promisc.thy ===== *)
theory Promisc
  imports Dedup
begin

text \<open>
  Promiscuous mode (\<open>src/csp_promisc.c\<close>): a queue of copies of the packets that pass through. The code is
  compiled in when \<open>CSP_USE_PROMISC\<close> is set and HMAC when \<open>CSP_USE_HMAC\<close> is set; both build switches are
  fields of the state, so the theorems hold for every build.
\<close>

record csp_pm = csp_dd +
  use_hmac :: bool
  use_promisc :: bool
  csp_promisc_queue :: "nat queue_handle"
  csp_promisc_enabled :: bool

text \<open>\<open>storage\<close> and \<open>q\<close> are the uninitialised static memory of the queue.\<close>

definition csp_promisc_enable ::
  "nat list \<Rightarrow> nat static_queue \<Rightarrow> c_uint \<Rightarrow> ('a) csp_pm_scheme \<Rightarrow> int \<times> ('a) csp_pm_scheme" where
  "csp_promisc_enable storage q queue_size w =
     (if csp_promisc_queue w \<noteq> None then (CSP_ERR_USED, w\<lparr>csp_promisc_enabled := True\<rparr>)
      else let w = w\<lparr>csp_promisc_queue :=
                       csp_queue_create_static CSP_CONN_RXQUEUE_LEN ptr_size (Some storage) (Some q)\<rparr>
           in if csp_promisc_queue w = None then (CSP_ERR_INVAL, w)
              else (CSP_ERR_NONE, w\<lparr>csp_promisc_enabled := True\<rparr>))"

definition csp_promisc_disable :: "('a) csp_pm_scheme \<Rightarrow> ('a) csp_pm_scheme" where
  "csp_promisc_disable w = w\<lparr>csp_promisc_enabled := False\<rparr>"

definition csp_promisc_read :: "u32 \<Rightarrow> ('a) csp_pm_scheme \<Rightarrow> nat option \<times> ('a) csp_pm_scheme" where
  "csp_promisc_read timeout w =
     (if csp_promisc_queue w = None then (None, w)
      else case csp_queue_dequeue (csp_promisc_queue w) timeout of
        (packet, q) \<Rightarrow> (packet, w\<lparr>csp_promisc_queue := q\<rparr>))"

definition csp_promisc_add :: "nat \<Rightarrow> ('a) csp_pm_scheme \<Rightarrow> ('a) csp_pm_scheme" where
  "csp_promisc_add packet w =
     (if \<not> csp_promisc_enabled w then w
      else if csp_promisc_queue w \<noteq> None then
        (case csp_buffer_clone (Some packet) w of
           (None, w) \<Rightarrow> w
         | (Some packet_copy, w) \<Rightarrow>
             (case csp_queue_enqueue (csp_promisc_queue w) packet_copy 0 of
                (r, q) \<Rightarrow>
                  let w = w\<lparr>csp_promisc_queue := q\<rparr>
                  in if r \<noteq> CSP_QUEUE_OK then
                       csp_buffer_free (Some packet_copy) (w\<lparr>dbg_conn_ovf := dbg_conn_ovf w + 1\<rparr>)
                     else w))
      else w)"

end
