(* ===== verification/Conn.thy ===== *)
theory Conn
  imports Promisc
begin

text \<open>
  Connections (\<open>src/csp_conn.c\<close>) and the sockets and ports they refer to. A socket's queue holds packets
  when the socket is connection-less and connections otherwise; C stores both as untyped pointers, here
  \<open>rx_item\<close> says which one a slot holds. Connection, socket and packet pointers are indices. RDP is not
  part of the repository (\<open>CSP_USE_RDP\<close> is 0).
\<close>

section \<open>State\<close>

datatype rx_item = RxPacket nat | RxConn nat

record csp_socket =
  rx_queue :: "rx_item queue_handle"
  s_opts :: u32

datatype csp_callback = CbService | CbApp nat

datatype csp_port = PORT_CLOSED | PORT_OPEN nat | PORT_OPEN_CB csp_callback

datatype csp_conn_type = CONN_CLIENT | CONN_SERVER

datatype csp_conn_state = CONN_CLOSED | CONN_OPEN

record csp_conn =
  c_type :: csp_conn_type
  c_state :: csp_conn_state
  idin :: csp_id
  idout :: csp_id
  sport_outgoing :: u8
  c_rx_queue :: "nat queue_handle"
  dest_socket :: "nat option"
  c_timestamp :: u32
  c_opts :: u32

text \<open>\<open>n_sockets\<close> is the number of socket objects the application declares.\<close>

record csp_cn = csp_pm +
  csp_hmac_key :: "u8 list"
  n_sockets :: nat
  sockets :: "nat \<Rightarrow> csp_socket"
  ports :: "csp_port list"
  conns :: "nat \<Rightarrow> csp_conn"
  csp_conn_last_given :: u8

definition set_conn :: "nat \<Rightarrow> csp_conn \<Rightarrow> ('a) csp_cn_scheme \<Rightarrow> ('a) csp_cn_scheme" where
  "set_conn c k w = w\<lparr>conns := (conns w)(c := k)\<rparr>"

definition set_socket :: "nat \<Rightarrow> csp_socket \<Rightarrow> ('a) csp_cn_scheme \<Rightarrow> ('a) csp_cn_scheme" where
  "set_socket s k w = w\<lparr>sockets := (sockets w)(s := k)\<rparr>"

abbreviation (input) CSP_O_RDP :: u32 where "CSP_O_RDP \<equiv> 0x0001"
abbreviation (input) CSP_O_HMAC :: u32 where "CSP_O_HMAC \<equiv> 0x0004"
abbreviation (input) CSP_O_CRC32 :: u32 where "CSP_O_CRC32 \<equiv> 0x0040"
abbreviation (input) CSP_O_NOCRC32 :: u32 where "CSP_O_NOCRC32 \<equiv> 0x0080"
abbreviation (input) CSP_O_SAME :: u32 where "CSP_O_SAME \<equiv> 0x8000"
abbreviation (input) CSP_O_NONE :: u32 where "CSP_O_NONE \<equiv> 0"
abbreviation (input) CSP_RDP_CLOSED_BY_USERSPACE :: u8 where "CSP_RDP_CLOSED_BY_USERSPACE \<equiv> 1"

section \<open>Operations\<close>

definition csp_conn_enqueue_packet ::
  "nat option \<Rightarrow> nat \<Rightarrow> ('a) csp_cn_scheme \<Rightarrow> int \<times> ('a) csp_cn_scheme" where
  "csp_conn_enqueue_packet conn packet w =
     (case conn of
        None \<Rightarrow> (CSP_ERR_INVAL, w)
      | Some c \<Rightarrow>
          (case csp_queue_enqueue (c_rx_queue (conns w c)) packet 0 of
             (r, q) \<Rightarrow>
               let w = set_conn c ((conns w c)\<lparr>c_rx_queue := q\<rparr>) w
               in if r \<noteq> CSP_QUEUE_OK then (CSP_ERR_NOMEM, w\<lparr>dbg_conn_ovf := dbg_conn_ovf w + 1\<rparr>)
                  else (CSP_ERR_NONE, w)))"

text \<open>\<open>storage c\<close> and \<open>q c\<close> are the uninitialised memory of the queue of connection \<open>c\<close>.\<close>

fun conn_init_loop ::
  "(nat \<Rightarrow> nat list) \<Rightarrow> (nat \<Rightarrow> nat static_queue) \<Rightarrow> nat list \<Rightarrow> ('a) csp_cn_scheme \<Rightarrow> ('a) csp_cn_scheme" where
  "conn_init_loop storage q [] w = w"
| "conn_init_loop storage q (i # is) w =
     conn_init_loop storage q is
       (set_conn i ((conns w i)\<lparr>sport_outgoing := of_nat (CSP_PORT_MAX_BIND + 1 + i), c_state := CONN_CLOSED,
          idin := (idin (conns w i))\<lparr>flags := 0\<rparr>,
          c_rx_queue := csp_queue_create_static CSP_CONN_RXQUEUE_LEN ptr_size (Some (storage i)) (Some (q i))\<rparr>) w)"

definition csp_conn_init ::
  "(nat \<Rightarrow> nat list) \<Rightarrow> (nat \<Rightarrow> nat static_queue) \<Rightarrow> ('a) csp_cn_scheme \<Rightarrow> ('a) csp_cn_scheme" where
  "csp_conn_init storage q w = conn_init_loop storage q [0..<CSP_CONN_MAX] w"

fun find_dport_loop :: "('a) csp_cn_scheme \<Rightarrow> c_uint \<Rightarrow> nat list \<Rightarrow> nat option" where
  "find_dport_loop w dp [] = None"
| "find_dport_loop w dp (i # is) =
     (let conn = conns w i
      in if ucast (dport (idin conn)) \<noteq> dp then find_dport_loop w dp is
         else if c_state conn \<noteq> CONN_OPEN then find_dport_loop w dp is
         else if c_type conn \<noteq> CONN_CLIENT then find_dport_loop w dp is
         else Some i)"

definition csp_conn_find_dport :: "c_uint \<Rightarrow> ('a) csp_cn_scheme \<Rightarrow> nat option" where
  "csp_conn_find_dport dp w = find_dport_loop w dp [0..<CSP_CONN_MAX]"

fun find_existing_loop :: "('a) csp_cn_scheme \<Rightarrow> csp_id \<Rightarrow> nat list \<Rightarrow> nat option" where
  "find_existing_loop w ident [] = None"
| "find_existing_loop w ident (i # is) =
     (let conn = conns w i
      in if c_state conn \<noteq> CONN_OPEN then find_existing_loop w ident is
         else if c_type conn = CONN_CLIENT then
           (if dport (idin conn) \<noteq> dport ident then find_existing_loop w ident is else Some i)
         else
           (if dport (idin conn) \<noteq> dport ident then find_existing_loop w ident is
            else if sport (idin conn) \<noteq> sport ident then find_existing_loop w ident is
            else if src (idin conn) \<noteq> src ident then find_existing_loop w ident is
            else Some i))"

definition csp_conn_find_existing :: "csp_id \<Rightarrow> ('a) csp_cn_scheme \<Rightarrow> nat option" where
  "csp_conn_find_existing ident w = find_existing_loop w ident [0..<CSP_CONN_MAX]"

lemma conns_free [frame_simps]: "conns (csp_buffer_free p w) = conns w"
  by (subst csp_buffer_free_more) simp

lemma queue_waiting_dequeue:
  "csp_queue_dequeue h t = (Some x, h') \<Longrightarrow> uxQueueMessagesWaiting h' < uxQueueMessagesWaiting h"
  by (auto simp: csp_queue_dequeue_def xQueueReceive_def uxQueueMessagesWaiting_def Let_def
      split: option.splits if_splits)

function csp_conn_flush_rx_queue :: "nat \<Rightarrow> ('a) csp_cn_scheme \<Rightarrow> ('a) csp_cn_scheme" where
  "csp_conn_flush_rx_queue c w =
     (case csp_queue_dequeue (c_rx_queue (conns w c)) 0 of
        (None, q) \<Rightarrow> set_conn c ((conns w c)\<lparr>c_rx_queue := q\<rparr>) w
      | (Some packet, q) \<Rightarrow>
          csp_conn_flush_rx_queue c (csp_buffer_free (Some packet) (set_conn c ((conns w c)\<lparr>c_rx_queue := q\<rparr>) w)))"
  by pat_completeness auto
termination
  by (relation "measure (\<lambda>(c, w). uxQueueMessagesWaiting (c_rx_queue (conns w c)))")
    (auto simp: frame_simps set_conn_def dest: sym [THEN queue_waiting_dequeue])

declare csp_conn_flush_rx_queue.simps [simp del]

text \<open>The search for a free connection starts behind the one given last; \<open>n\<close> rounds are left.\<close>

fun allocate_loop :: "('a) csp_cn_scheme \<Rightarrow> nat \<Rightarrow> nat \<Rightarrow> nat option" where
  "allocate_loop w 0 i = None"
| "allocate_loop w (Suc n) i =
     (let i = (i + 1) mod CSP_CONN_MAX
      in if c_state (conns w i) = CONN_CLOSED then Some i else allocate_loop w n i)"

definition csp_conn_allocate :: "csp_conn_type \<Rightarrow> ('a) csp_cn_scheme \<Rightarrow> nat option \<times> ('a) csp_cn_scheme" where
  "csp_conn_allocate ty w =
     (case allocate_loop w CSP_CONN_MAX (unat (csp_conn_last_given w)) of
        None \<Rightarrow> (None, w\<lparr>dbg_conn_out := dbg_conn_out w + 1\<rparr>)
      | Some i \<Rightarrow>
          let w = set_conn i ((conns w i)\<lparr>c_state := CONN_OPEN\<rparr>) w;
              w = w\<lparr>csp_conn_last_given := of_nat i\<rparr>;
              k = conns w i
          in (Some i, set_conn i (k\<lparr>c_timestamp := 0, c_type := ty, idin := (idin k)\<lparr>flags := 0\<rparr>,
                                    idout := (idout k)\<lparr>flags := 0\<rparr>\<rparr>) w))"

definition csp_conn_new ::
  "csp_id \<Rightarrow> csp_id \<Rightarrow> csp_conn_type \<Rightarrow> ('a) csp_cn_scheme \<Rightarrow> nat option \<times> ('a) csp_cn_scheme" where
  "csp_conn_new id_in id_out ty w =
     (case csp_conn_allocate ty w of
        (None, w) \<Rightarrow> (None, w)
      | (Some c, w) \<Rightarrow>
          let k = conns w c;
              w = set_conn c (k\<lparr>idin := csp_id_copy (idin k) id_in, idout := csp_id_copy (idout k) id_out,
                                c_timestamp := csp_get_ms w\<rparr>) w
          in (Some c, csp_conn_flush_rx_queue c w))"

definition csp_conn_close :: "nat option \<Rightarrow> u8 \<Rightarrow> ('a) csp_cn_scheme \<Rightarrow> int \<times> ('a) csp_cn_scheme" where
  "csp_conn_close conn closed_by w =
     (case conn of
        None \<Rightarrow> (CSP_ERR_NONE, w)
      | Some c \<Rightarrow>
          if c_state (conns w c) = CONN_CLOSED then (CSP_ERR_NONE, set_errno CSP_DBG_ERR_ALREADY_CLOSED w)
          else let w = csp_conn_flush_rx_queue c w
               in (CSP_ERR_NONE, set_conn c ((conns w c)\<lparr>c_state := CONN_CLOSED\<rparr>) w))"

definition csp_close :: "nat option \<Rightarrow> ('a) csp_cn_scheme \<Rightarrow> int \<times> ('a) csp_cn_scheme" where
  "csp_close conn w = csp_conn_close conn CSP_RDP_CLOSED_BY_USERSPACE w"

definition csp_connect ::
  "u8 \<Rightarrow> u16 \<Rightarrow> u8 \<Rightarrow> u32 \<Rightarrow> u32 \<Rightarrow> ('a) csp_cn_scheme \<Rightarrow> nat option \<times> ('a) csp_cn_scheme" where
  "csp_connect prio dest dp timeout opts w =
     (let opts = opts OR conn_dfl_so (csp_conf w);
          incoming_id = csp_id_zero\<lparr>dst := 0, pri := prio, src := dest, sport := dp, flags := 0\<rparr>;
          outgoing_id = csp_id_zero\<lparr>src := 0, pri := prio, dst := dest, dport := dp, flags := 0\<rparr>;
          opts = (if opts AND CSP_O_NOCRC32 \<noteq> 0 then opts AND NOT CSP_O_CRC32 else opts)
      in if opts AND CSP_O_RDP \<noteq> 0 then (None, set_errno CSP_DBG_ERR_UNSUPPORTED w)
         else if opts AND CSP_O_HMAC \<noteq> 0 \<and> \<not> use_hmac w then (None, set_errno CSP_DBG_ERR_UNSUPPORTED w)
         else
           let hm = (if opts AND CSP_O_HMAC \<noteq> 0 then CSP_FHMAC else 0);
               outgoing_id = outgoing_id\<lparr>flags := flags outgoing_id OR hm\<rparr>;
               incoming_id = incoming_id\<lparr>flags := flags incoming_id OR hm\<rparr>;
               cr = (if opts AND CSP_O_CRC32 \<noteq> 0 then CSP_FCRC32 else 0);
               outgoing_id = outgoing_id\<lparr>flags := flags outgoing_id OR cr\<rparr>;
               incoming_id = incoming_id\<lparr>flags := flags incoming_id OR cr\<rparr>
           in case csp_conn_new incoming_id outgoing_id CONN_CLIENT w of
                (None, w) \<Rightarrow> (None, w)
              | (Some c, w) \<Rightarrow>
                  let k = conns w c
                  in (Some c, set_conn c (k\<lparr>idout := (idout k)\<lparr>sport := sport_outgoing k\<rparr>,
                                            idin := (idin k)\<lparr>dport := sport_outgoing k\<rparr>,
                                            dest_socket := None, c_opts := opts\<rparr>) w))"

text \<open>The results are \<open>int\<close>, which has 16 bits: an address above 0x7FFF would come out negative.\<close>

definition csp_conn_dport :: "csp_conn \<Rightarrow> int" where "csp_conn_dport k = uint (dport (idin k))"
definition csp_conn_sport :: "csp_conn \<Rightarrow> int" where "csp_conn_sport k = uint (sport (idin k))"
definition csp_conn_dst :: "csp_conn \<Rightarrow> int" where "csp_conn_dst k = sint (dst (idin k))"
definition csp_conn_src :: "csp_conn \<Rightarrow> int" where "csp_conn_src k = sint (src (idin k))"
definition csp_conn_flags :: "csp_conn \<Rightarrow> int" where "csp_conn_flags k = uint (flags (idin k))"

definition csp_conn_get_array :: "('a) csp_cn_scheme \<Rightarrow> nat \<times> csp_conn list" where
  "csp_conn_get_array w = (CSP_CONN_MAX, map (conns w) [0..<CSP_CONN_MAX])"

text \<open>Without RDP every connection is active and no timeout is checked.\<close>

definition csp_conn_is_active :: "nat \<Rightarrow> ('a) csp_cn_scheme \<Rightarrow> bool" where
  "csp_conn_is_active conn w = True"

definition csp_conn_check_timeouts :: "('a) csp_cn_scheme \<Rightarrow> ('a) csp_cn_scheme" where
  "csp_conn_check_timeouts w = w"

section \<open>An example state\<close>

text \<open>
  One closed connection with an empty queue, one connection-less socket with an empty queue, no port
  bound, both build switches on, promiscuous mode off.
\<close>

definition ex_pm :: csp_pm where
  "ex_pm = csp_dd.extend ex_dd
     \<lparr>use_hmac = True, use_promisc = True, csp_promisc_queue = None, csp_promisc_enabled = False\<rparr>"

definition new_queue :: "'a \<Rightarrow> 'a queue_handle" where
  "new_queue x = csp_queue_create_static CSP_CONN_RXQUEUE_LEN ptr_size (Some (replicate 4 x)) (Some empty_queue)"

definition ex_conn :: csp_conn where
  "ex_conn = \<lparr>c_type = CONN_CLIENT, c_state = CONN_CLOSED, idin = csp_id_zero, idout = csp_id_zero,
     sport_outgoing = 33, c_rx_queue = new_queue 0, dest_socket = None, c_timestamp = 0, c_opts = 0\<rparr>"

definition ex_socket :: csp_socket where
  "ex_socket = \<lparr>rx_queue = new_queue (RxPacket 0), s_opts = CSP_SO_CONN_LESS\<rparr>"

definition ex_cn :: csp_cn where
  "ex_cn = csp_pm.extend ex_pm \<lparr>csp_hmac_key = replicate 16 0, n_sockets = 1, sockets = (\<lambda>_. ex_socket),
     ports = replicate 34 PORT_CLOSED, conns = (\<lambda>_. ex_conn), csp_conn_last_given = 0\<rparr>"

lemma ex_cn_fields:
  "n_sockets ex_cn = 1" "sockets ex_cn = (\<lambda>_. ex_socket)" "ports ex_cn = replicate 34 PORT_CLOSED"
  "conns ex_cn = (\<lambda>_. ex_conn)" "use_hmac ex_cn" "use_promisc ex_cn" "csp_promisc_queue ex_cn = None"
  "\<not> csp_promisc_enabled ex_cn" "csp_hmac_key ex_cn = replicate 16 0"
  by (simp_all add: ex_cn_def ex_pm_def csp_pm.defs csp_dd.defs)

lemma new_queue_facts: "qh_ok (new_queue x)" "qh_items (new_queue x) = []" "qh_cap (new_queue x) = 4"
  using qh_create [of 4 4 "replicate 4 x" empty_queue] by (simp_all add: new_queue_def ptr_size_def)

end
