(* ===== verification/Port.thy ===== *)
theory Port
  imports Conn
begin

text \<open>
  Ports (\<open>src/csp_port.c\<close>): 33 numbered ports and one entry that matches every port without an entry of
  its own. A port is closed, bound to a socket or bound to a callback.
\<close>

section \<open>Operations\<close>

abbreviation (input) CSP_ANY :: u8 where "CSP_ANY \<equiv> 255"

definition csp_port_get_callback :: "nat \<Rightarrow> ('a) csp_cn_scheme \<Rightarrow> csp_callback option" where
  "csp_port_get_callback port w =
     (if CSP_PORT_MAX_BIND < port then None
      else case ports w ! port of
        PORT_OPEN_CB cb \<Rightarrow> Some cb
      | PORT_OPEN s \<Rightarrow> None
      | PORT_CLOSED \<Rightarrow>
          (case ports w ! (CSP_PORT_MAX_BIND + 1) of PORT_OPEN_CB cb \<Rightarrow> Some cb | _ \<Rightarrow> None))"

definition csp_port_get_socket :: "nat \<Rightarrow> ('a) csp_cn_scheme \<Rightarrow> nat option" where
  "csp_port_get_socket port w =
     (if CSP_PORT_MAX_BIND < port then None
      else case ports w ! port of
        PORT_OPEN s \<Rightarrow> Some s
      | PORT_OPEN_CB cb \<Rightarrow> None
      | PORT_CLOSED \<Rightarrow>
          (case ports w ! (CSP_PORT_MAX_BIND + 1) of PORT_OPEN s \<Rightarrow> Some s | _ \<Rightarrow> None))"

text \<open>\<open>storage\<close> and \<open>q\<close> are what the static memory of the socket holds.\<close>

definition csp_listen ::
  "rx_item list \<Rightarrow> rx_item static_queue \<Rightarrow> nat \<Rightarrow> nat \<Rightarrow> ('a) csp_cn_scheme \<Rightarrow> int \<times> ('a) csp_cn_scheme" where
  "csp_listen storage q sock backlog w =
     (CSP_ERR_NONE,
      set_socket sock ((sockets w sock)\<lparr>rx_queue :=
        csp_queue_create_static CSP_CONN_RXQUEUE_LEN ptr_size (Some storage) (Some q)\<rparr>) w)"

definition csp_bind :: "nat option \<Rightarrow> u8 \<Rightarrow> ('a) csp_cn_scheme \<Rightarrow> int \<times> ('a) csp_cn_scheme" where
  "csp_bind sock port w =
     (case sock of
        None \<Rightarrow> (CSP_ERR_INVAL, w)
      | Some s \<Rightarrow>
          if port \<noteq> CSP_ANY \<and> of_nat CSP_PORT_MAX_BIND < port then
            (CSP_ERR_INVAL, set_errno CSP_DBG_ERR_INVALID_BIND_PORT w)
          else
            let n = (if port = CSP_ANY then CSP_PORT_MAX_BIND + 1 else unat port)
            in if ports w ! n \<noteq> PORT_CLOSED then (CSP_ERR_USED, set_errno CSP_DBG_ERR_PORT_ALREADY_IN_USE w)
               else (CSP_ERR_NONE, w\<lparr>ports := (ports w)[n := PORT_OPEN s]\<rparr>))"

definition csp_bind_callback :: "csp_callback option \<Rightarrow> u8 \<Rightarrow> ('a) csp_cn_scheme \<Rightarrow> int \<times> ('a) csp_cn_scheme" where
  "csp_bind_callback callback port w =
     (case callback of
        None \<Rightarrow> (CSP_ERR_INVAL, set_errno CSP_DBG_ERR_INVALID_POINTER w)
      | Some cb \<Rightarrow>
          if port \<noteq> CSP_ANY \<and> of_nat CSP_PORT_MAX_BIND < port then
            (CSP_ERR_INVAL, set_errno CSP_DBG_ERR_INVALID_BIND_PORT w)
          else
            let n = (if port = CSP_ANY then CSP_PORT_MAX_BIND + 1 else unat port)
            in if ports w ! n \<noteq> PORT_CLOSED then (CSP_ERR_ALREADY, set_errno CSP_DBG_ERR_PORT_ALREADY_IN_USE w)
               else (CSP_ERR_NONE, w\<lparr>ports := (ports w)[n := PORT_OPEN_CB cb]\<rparr>))"

text \<open>The first port bound to the socket is closed; the socket may be bound to others.\<close>

fun close_first :: "nat \<Rightarrow> csp_port list \<Rightarrow> csp_port list" where
  "close_first s [] = []"
| "close_first s (p # ps) = (if p = PORT_OPEN s then PORT_CLOSED # ps else p # close_first s ps)"

lemma sockets_free [frame_simps]: "sockets (csp_buffer_free p w) = sockets w"
  by (subst csp_buffer_free_more) simp

text \<open>
  Closing frees what is queued as packets. \<open>None\<close> is the free of a pointer that is not a packet: the
  queue of a connection socket holds connections.
\<close>

function close_drain :: "nat \<Rightarrow> ('a) csp_cn_scheme \<Rightarrow> ('a) csp_cn_scheme option" where
  "close_drain s w =
     (case csp_queue_dequeue (rx_queue (sockets w s)) 0 of
        (None, q) \<Rightarrow> Some (set_socket s ((sockets w s)\<lparr>rx_queue := q\<rparr>) w)
      | (Some (RxPacket p), q) \<Rightarrow>
          close_drain s (csp_buffer_free (Some p) (set_socket s ((sockets w s)\<lparr>rx_queue := q\<rparr>) w))
      | (Some (RxConn c), q) \<Rightarrow> None)"
  by pat_completeness auto
termination
  by (relation "measure (\<lambda>(s, w). uxQueueMessagesWaiting (rx_queue (sockets w s)))")
    (auto simp: frame_simps set_socket_def dest: sym [THEN queue_waiting_dequeue])

declare close_drain.simps [simp del]

definition csp_socket_close :: "nat option \<Rightarrow> ('a) csp_cn_scheme \<Rightarrow> (int \<times> ('a) csp_cn_scheme) option" where
  "csp_socket_close sock w =
     (case sock of
        None \<Rightarrow> Some (CSP_ERR_NONE, w)
      | Some s \<Rightarrow>
          let w = w\<lparr>ports := close_first s (ports w)\<rparr>
          in if rx_queue (sockets w s) \<noteq> None then
               (case close_drain s w of None \<Rightarrow> None | Some w \<Rightarrow> Some (CSP_ERR_NONE, w))
             else Some (CSP_ERR_NONE, w))"

section \<open>Which binding a port has\<close>

definition ports_ok :: "('a) csp_cn_scheme \<Rightarrow> bool" where
  "ports_ok w \<longleftrightarrow> length (ports w) = CSP_PORT_MAX_BIND + 2 \<and> (\<forall>p s. p < CSP_PORT_MAX_BIND + 2 \<longrightarrow> ports w ! p = PORT_OPEN s \<longrightarrow> s < n_sockets w)"

text \<open>The binding that answers for a port: its own, or else the one that matches every port.\<close>

definition binding :: "('a) csp_cn_scheme \<Rightarrow> nat \<Rightarrow> csp_port" where
  "binding w p =
     (if CSP_PORT_MAX_BIND < p then PORT_CLOSED
      else if ports w ! p \<noteq> PORT_CLOSED then ports w ! p else ports w ! (CSP_PORT_MAX_BIND + 1))"

lemma port_lookup_binding:
  "csp_port_get_callback p w = (case binding w p of PORT_OPEN_CB cb \<Rightarrow> Some cb | _ \<Rightarrow> None)"
  "csp_port_get_socket p w = (case binding w p of PORT_OPEN s \<Rightarrow> Some s | _ \<Rightarrow> None)"
  by (auto simp: csp_port_get_callback_def csp_port_get_socket_def binding_def split: csp_port.split)

text \<open>The entry a bind request names.\<close>

definition bind_entry :: "u8 \<Rightarrow> nat option" where
  "bind_entry p = (if p = CSP_ANY then Some (CSP_PORT_MAX_BIND + 1) else if unat p \<le> CSP_PORT_MAX_BIND then Some (unat p) else None)"

lemma bind_entry_less: "bind_entry p = Some n \<Longrightarrow> n < CSP_PORT_MAX_BIND + 2"
  by (auto simp: bind_entry_def split: if_splits)

definition bind_result :: "csp_port \<Rightarrow> int \<Rightarrow> u8 \<Rightarrow> ('a) csp_cn_scheme \<Rightarrow> int \<times> ('a) csp_cn_scheme" where
  "bind_result b used port w =
     (case bind_entry port of
        None \<Rightarrow> (CSP_ERR_INVAL, set_errno CSP_DBG_ERR_INVALID_BIND_PORT w)
      | Some n \<Rightarrow> if ports w ! n \<noteq> PORT_CLOSED then (used, set_errno CSP_DBG_ERR_PORT_ALREADY_IN_USE w)
                  else (CSP_ERR_NONE, w\<lparr>ports := (ports w)[n := b]\<rparr>))"

lemma csp_bind_result:
  "csp_bind (Some s) port w = bind_result (PORT_OPEN s) CSP_ERR_USED port w"
  "csp_bind_callback (Some cb) port w = bind_result (PORT_OPEN_CB cb) CSP_ERR_ALREADY port w"
proof -
  have "(32 < port) = (\<not> unat port \<le> 32)" by (simp add: word_less_nat_alt not_le)
  then show "csp_bind (Some s) port w = bind_result (PORT_OPEN s) CSP_ERR_USED port w"
    "csp_bind_callback (Some cb) port w = bind_result (PORT_OPEN_CB cb) CSP_ERR_ALREADY port w"
    by (simp_all add: csp_bind_def csp_bind_callback_def bind_result_def bind_entry_def Let_def)
qed

lemma nth_close_first:
  "p < length ps \<Longrightarrow> close_first s ps ! p = (if ps ! p = PORT_OPEN s \<and> (\<forall>k < p. ps ! k \<noteq> PORT_OPEN s) then PORT_CLOSED else ps ! p)"
proof (induction ps arbitrary: p)
  case (Cons x ps)
  show ?case
  proof (cases p)
    case (Suc k)
    then have k: "k < length ps" using Cons.prems by simp
    have "(\<forall>j < Suc k. (x # ps) ! j \<noteq> PORT_OPEN s) \<longleftrightarrow> x \<noteq> PORT_OPEN s \<and> (\<forall>j < k. ps ! j \<noteq> PORT_OPEN s)"
      by (auto simp: less_Suc_eq_0_disj)
    then show ?thesis using Cons.IH [OF k] by (simp add: Suc)
  qed simp
qed simp

text \<open>
  Binding a port to a callback is exclusive and precise: it succeeds exactly when the port
  number is at most 32 or 255 and the port is free; then every packet port bound specifically keeps its
  binding, the named port (or, for 255, every port without a binding of its own) is answered by the new
  callback, and no port is answered by a socket that was not before. Otherwise nothing changes but the
  debug error number.
\<close>

theorem bind_callback_exclusive:
  assumes ok: "ports_ok w" and bd: "csp_bind_callback (Some cb) port w = (r, w')" and p: "p \<le> CSP_PORT_MAX_BIND"
  shows "(r = CSP_ERR_NONE \<longleftrightarrow> (\<exists>n. bind_entry port = Some n \<and> ports w ! n = PORT_CLOSED)) \<and> ports_ok w' \<and>
     csp_port_get_callback p w' =
       (if r = CSP_ERR_NONE \<and> (bind_entry port = Some p \<or> port = CSP_ANY \<and> ports w ! p = PORT_CLOSED)
        then Some cb else csp_port_get_callback p w) \<and>
     csp_port_get_socket p w' =
       (if r = CSP_ERR_NONE \<and> bind_entry port = Some p then None else csp_port_get_socket p w)"
proof (cases "\<exists>n. bind_entry port = Some n \<and> ports w ! n = PORT_CLOSED")
  case False
  then have "w' = set_errno CSP_DBG_ERR_INVALID_BIND_PORT w \<or> w' = set_errno CSP_DBG_ERR_PORT_ALREADY_IN_USE w"
    and "r \<noteq> CSP_ERR_NONE"
    using bd by (auto simp: csp_bind_result bind_result_def split: option.splits if_splits)
  then show ?thesis using ok False
    by (auto simp: ports_ok_def port_lookup_binding binding_def set_errno_def)
next
  case True
  then obtain n where n: "bind_entry port = Some n" "ports w ! n = PORT_CLOSED" by blast
  then have w': "r = CSP_ERR_NONE" "w' = w\<lparr>ports := (ports w)[n := PORT_OPEN_CB cb]\<rparr>"
    using bd by (simp_all add: csp_bind_result bind_result_def)
  have l: "length (ports w) = 34" and lt: "n < 34"
    using ok bind_entry_less [OF n(1)] by (simp_all add: ports_ok_def)
  have "ports_ok w'" using ok lt by (auto simp: ports_ok_def w' nth_list_update split: if_splits)
  moreover have any: "port = CSP_ANY \<longleftrightarrow> n = 33"
    using n(1) by (auto simp: bind_entry_def split: if_splits)
  moreover have "p \<noteq> 33" using p by simp
  ultimately show ?thesis
    using n p by (auto simp: w' port_lookup_binding binding_def l nth_list_update split: csp_port.split)
qed

theorem bind_callback_exclusive_witness:
  "csp_port_get_callback 7 (snd (csp_bind_callback (Some CbService) CSP_ANY ex_cn)) = Some CbService"
proof -
  have ok: "ports_ok ex_cn" by (auto simp: ports_ok_def ex_cn_fields)
  obtain r w where b: "csp_bind_callback (Some CbService) CSP_ANY ex_cn = (r, w)" by fastforce
  have "bind_entry CSP_ANY = Some 33" by (simp add: bind_entry_def)
  then show ?thesis
    using bind_callback_exclusive [OF ok b, of 7] by (simp add: b ex_cn_fields)
qed

end
