(* ===== verification/Ownership.thy ===== *)
theory Ownership
  imports Port
begin

text \<open>
  The system invariant. Every reference to a packet buffer is held either by one of the library's queues
  (router, promiscuous, connections, sockets) or by somebody outside them: the multiset \<open>X\<close>. The
  operations are then rules on \<open>own_inv X\<close>: handing a packet to a queue removes it from \<open>X\<close>, reading it
  adds it back. \<open>kept B w w'\<close> says what an operation leaves alone: the configuration, the connections, and
  the packets in \<open>B\<close>.
\<close>

section \<open>The references of the queues\<close>

definition pm_refs :: "('a) csp_pm_scheme \<Rightarrow> nat multiset" where
  "pm_refs w = mset (qh_items (csp_promisc_queue w))"

definition cn_refs :: "(nat \<Rightarrow> csp_conn) \<Rightarrow> nat multiset" where
  "cn_refs f = (\<Sum>c < CSP_CONN_MAX. mset (qh_items (c_rx_queue (f c))))"

fun item_refs :: "rx_item \<Rightarrow> nat multiset" where
  "item_refs (RxPacket p) = {#p#}"
| "item_refs (RxConn c) = {#}"

definition so_refs :: "nat \<Rightarrow> (nat \<Rightarrow> csp_socket) \<Rightarrow> nat multiset" where
  "so_refs n f = (\<Sum>s < n. sum_list (map item_refs (qh_items (rx_queue (f s)))))"

definition held :: "('a) csp_cn_scheme \<Rightarrow> nat multiset" where
  "held w = qf_refs w + pm_refs w + cn_refs (conns w) + so_refs (n_sockets w) (sockets w)"

text \<open>A packet in the router's queue always comes with the interface it arrived on.\<close>

definition elem_ok :: "csp_qfifo \<Rightarrow> bool" where
  "elem_ok e \<longleftrightarrow> (qe_packet e \<noteq> None \<longrightarrow> qe_iface e \<noteq> None)"

definition qf_entries_ok :: "('a) csp_qf_scheme \<Rightarrow> bool" where
  "qf_entries_ok w \<longleftrightarrow> list_all elem_ok (qf_items w)"

definition queues_ok :: "('a) csp_cn_scheme \<Rightarrow> bool" where
  "queues_ok w \<longleftrightarrow> qf_ok w \<and> qf_entries_ok w \<and> qh_ok (csp_promisc_queue w) \<and>
     (\<forall>c < CSP_CONN_MAX. qh_ok (c_rx_queue (conns w c))) \<and>
     (\<forall>s < n_sockets w. qh_ok (rx_queue (sockets w s)))"

definition own_inv :: "nat multiset \<Rightarrow> ('a) csp_cn_scheme \<Rightarrow> bool" where
  "own_inv X w \<longleftrightarrow> bufs_inv (X + held w) w \<and> queues_ok w"

definition iface_cfg where
  "iface_cfg f = (addr f, netmask f, name f, interface_data f, driver_data f, nexthop f, is_default f)"

text \<open>What only the application and the management service change.\<close>

definition settings where
  "settings w =
     (csp_conf w, interfaces w, rtable w, rtable_inptr w, \<lambda>i. iface_cfg (ifaces w i),
      (csp_dedup_array w, csp_dedup_timestamp w, csp_dedup_in w),
      (use_hmac w, use_promisc w, csp_hmac_key w), (n_sockets w, sockets w, ports w, conns w))"

definition kept :: "nat set \<Rightarrow> ('a) csp_cn_scheme \<Rightarrow> ('a) csp_cn_scheme \<Rightarrow> bool" where
  "kept B w w' \<longleftrightarrow> settings w' = settings w \<and> (\<forall>b \<in> B. pkt w' b = pkt w b)"

lemma kept_refl [simp]: "kept B w w"
  by (simp add: kept_def)

lemma kept_trans: "kept A w w1 \<Longrightarrow> kept B w1 w2 \<Longrightarrow> C \<subseteq> A \<Longrightarrow> C \<subseteq> B \<Longrightarrow> kept C w w2"
  unfolding kept_def by (metis subsetD)

lemma kept_trans1: "kept B w w1 \<Longrightarrow> kept B w1 w2 \<Longrightarrow> kept B w w2"
  by (rule kept_trans) auto

lemma kept_mono: "kept A w w' \<Longrightarrow> C \<subseteq> A \<Longrightarrow> kept C w w'"
  unfolding kept_def by blast

lemma keptD:
  assumes "kept B w w'"
  shows "csp_conf w' = csp_conf w" "interfaces w' = interfaces w" "rtable w' = rtable w"
    "rtable_inptr w' = rtable_inptr w" "iface_cfg (ifaces w' i) = iface_cfg (ifaces w i)"
    "csp_dedup_array w' = csp_dedup_array w" "csp_dedup_timestamp w' = csp_dedup_timestamp w"
    "csp_dedup_in w' = csp_dedup_in w" "use_hmac w' = use_hmac w" "use_promisc w' = use_promisc w"
    "csp_hmac_key w' = csp_hmac_key w" "n_sockets w' = n_sockets w" "sockets w' = sockets w"
    "ports w' = ports w" "conns w' = conns w" "b \<in> B \<Longrightarrow> pkt w' b = pkt w b"
  using assms by (simp_all add: kept_def settings_def fun_eq_iff)

section \<open>Updates the references do not depend on\<close>

lemma iface_cfg_upd [simp]:
  "iface_cfg (f\<lparr>tx := n\<rparr>) = iface_cfg f" "iface_cfg (f\<lparr>rx := n\<rparr>) = iface_cfg f"
  "iface_cfg (f\<lparr>tx_error := n\<rparr>) = iface_cfg f" "iface_cfg (f\<lparr>rx_error := n\<rparr>) = iface_cfg f"
  "iface_cfg (f\<lparr>drop_ctr := n\<rparr>) = iface_cfg f" "iface_cfg (f\<lparr>autherr := n\<rparr>) = iface_cfg f"
  "iface_cfg (f\<lparr>txbytes := n\<rparr>) = iface_cfg f" "iface_cfg (f\<lparr>rxbytes := n\<rparr>) = iface_cfg f"
  by (simp_all add: iface_cfg_def)

lemma held_frame [frame_simps]:
  "held (w\<lparr>pool := p\<rparr>) = held w" "held (w\<lparr>csp_buffers := q\<rparr>) = held w" "held (w\<lparr>dbg_errno := e\<rparr>) = held w"
  "held (w\<lparr>dbg_conn_ovf := n\<rparr>) = held w" "held (w\<lparr>dbg_conn_out := n\<rparr>) = held w"
  "held (w\<lparr>dbg_buffer_out := n\<rparr>) = held w" "held (w\<lparr>dbg_inval_reply := n\<rparr>) = held w"
  "held (w\<lparr>ifaces := f\<rparr>) = held w" "held (w\<lparr>line_out := l\<rparr>) = held w" "held (w\<lparr>ports := ps\<rparr>) = held w"
  "held (w\<lparr>csp_dedup_array := a\<rparr>) = held w" "held (w\<lparr>csp_dedup_timestamp := a\<rparr>) = held w"
  "held (w\<lparr>csp_dedup_in := i\<rparr>) = held w" "held (w\<lparr>csp_conn_last_given := g\<rparr>) = held w"
  "held (w\<lparr>csp_promisc_enabled := pe\<rparr>) = held w" "held (w\<lparr>rtable := rt\<rparr>) = held w"
  "held (w\<lparr>rtable_inptr := ri\<rparr>) = held w" "held (w\<lparr>interfaces := il\<rparr>) = held w" "held (w\<lparr>csp_conf := cf\<rparr>) = held w"
  by (simp_all add: held_def qf_refs_def qf_items_def pm_refs_def)

lemma queues_ok_frame [frame_simps]:
  "queues_ok (w\<lparr>pool := p\<rparr>) = queues_ok w" "queues_ok (w\<lparr>csp_buffers := q\<rparr>) = queues_ok w"
  "queues_ok (w\<lparr>dbg_errno := e\<rparr>) = queues_ok w" "queues_ok (w\<lparr>dbg_conn_ovf := n\<rparr>) = queues_ok w"
  "queues_ok (w\<lparr>dbg_conn_out := n\<rparr>) = queues_ok w" "queues_ok (w\<lparr>dbg_buffer_out := n\<rparr>) = queues_ok w"
  "queues_ok (w\<lparr>dbg_inval_reply := n\<rparr>) = queues_ok w"
  "queues_ok (w\<lparr>ifaces := f\<rparr>) = queues_ok w" "queues_ok (w\<lparr>line_out := l\<rparr>) = queues_ok w"
  "queues_ok (w\<lparr>ports := ps\<rparr>) = queues_ok w" "queues_ok (w\<lparr>csp_dedup_array := a\<rparr>) = queues_ok w"
  "queues_ok (w\<lparr>csp_dedup_timestamp := a\<rparr>) = queues_ok w" "queues_ok (w\<lparr>csp_dedup_in := i\<rparr>) = queues_ok w"
  "queues_ok (w\<lparr>csp_conn_last_given := g\<rparr>) = queues_ok w" "queues_ok (w\<lparr>csp_promisc_enabled := pe\<rparr>) = queues_ok w"
  "queues_ok (w\<lparr>rtable := rt\<rparr>) = queues_ok w" "queues_ok (w\<lparr>rtable_inptr := ri\<rparr>) = queues_ok w"
  "queues_ok (w\<lparr>interfaces := il\<rparr>) = queues_ok w" "queues_ok (w\<lparr>csp_conf := cf\<rparr>) = queues_ok w"
  by (simp_all add: queues_ok_def qf_ok_def qf_entries_ok_def qf_items_def)

lemma bufs_inv_dbg [frame_simps]:
  "bufs_inv M (w\<lparr>dbg_conn_out := n\<rparr>) = bufs_inv M w" "bufs_inv M (w\<lparr>dbg_inval_reply := n\<rparr>) = bufs_inv M w"
  "bufs_inv M (w\<lparr>ifaces := f\<rparr>) = bufs_inv M w" "bufs_inv M (w\<lparr>line_out := l\<rparr>) = bufs_inv M w"
  "bufs_inv M (w\<lparr>ports := ps\<rparr>) = bufs_inv M w" "bufs_inv M (w\<lparr>csp_dedup_array := a\<rparr>) = bufs_inv M w"
  "bufs_inv M (w\<lparr>csp_dedup_timestamp := a\<rparr>) = bufs_inv M w" "bufs_inv M (w\<lparr>csp_dedup_in := i\<rparr>) = bufs_inv M w"
  "bufs_inv M (w\<lparr>csp_conn_last_given := g\<rparr>) = bufs_inv M w" "bufs_inv M (w\<lparr>csp_promisc_queue := pq\<rparr>) = bufs_inv M w"
  "bufs_inv M (w\<lparr>conns := cs\<rparr>) = bufs_inv M w" "bufs_inv M (w\<lparr>sockets := ss\<rparr>) = bufs_inv M w"
  "bufs_inv M (w\<lparr>rtable := rt\<rparr>) = bufs_inv M w" "bufs_inv M (w\<lparr>rtable_inptr := ri\<rparr>) = bufs_inv M w"
  "bufs_inv M (w\<lparr>dbg_errno := e\<rparr>) = bufs_inv M w" "bufs_inv M (w\<lparr>csp_promisc_enabled := pe\<rparr>) = bufs_inv M w"
  "bufs_inv M (w\<lparr>interfaces := il\<rparr>) = bufs_inv M w" "bufs_inv M (w\<lparr>csp_conf := cf\<rparr>) = bufs_inv M w"
  by (simp_all add: bufs_inv_def free_list_def pkt_def)

lemma settings_frame [frame_simps]:
  "settings (w\<lparr>pool := p\<rparr>) = settings w" "settings (w\<lparr>csp_buffers := q\<rparr>) = settings w"
  "settings (w\<lparr>dbg_errno := e\<rparr>) = settings w" "settings (w\<lparr>dbg_conn_ovf := n\<rparr>) = settings w"
  "settings (w\<lparr>dbg_conn_out := n\<rparr>) = settings w" "settings (w\<lparr>dbg_buffer_out := n\<rparr>) = settings w"
  "settings (w\<lparr>dbg_inval_reply := n\<rparr>) = settings w" "settings (w\<lparr>line_out := l\<rparr>) = settings w"
  "settings (w\<lparr>qfifo_queue_handle := qq\<rparr>) = settings w" "settings (w\<lparr>csp_promisc_queue := pq\<rparr>) = settings w"
  "settings (set_errno e w) = settings w" "settings (set_pkt b k w) = settings w"
  by (simp_all add: settings_def set_errno_def set_pkt_def)

lemma settings_set_iface: "iface_cfg f = iface_cfg (ifaces w i) \<Longrightarrow> settings (set_iface i f w) = settings w"
  by (auto simp: settings_def set_iface_def fun_eq_iff)

section \<open>Buffers\<close>

lemma pkt_free [frame_simps]: "pkt (csp_buffer_free p w) b = pkt w b"
  by (simp add: csp_buffer_free_def buffer_free_gen_def set_errno_def pkt_def Let_def split: option.split)

lemma held_free [frame_simps]:
  "held (csp_buffer_free p w) = held w" "queues_ok (csp_buffer_free p w) = queues_ok w"
  by (subst csp_buffer_free_more, simp add: frame_simps)+

lemma kept_free [simp]: "kept B w (csp_buffer_free p w)"
proof -
  obtain q b e where u: "csp_buffer_free p w = w\<lparr>pool := q, csp_buffers := b, dbg_errno := e\<rparr>"
    using buffer_free_upd by blast
  show ?thesis using pkt_free [of p w] unfolding kept_def by (simp add: u frame_simps)
qed

lemma own_free: "own_inv (add_mset p X) w \<Longrightarrow> own_inv X (csp_buffer_free (Some p) w)"
  using bp.free_Some [of p "X + held w" w] by (simp add: own_inv_def held_free)

lemma held_set_pkt [frame_simps]:
  "held (set_pkt b k w) = held w" "queues_ok (set_pkt b k w) = queues_ok w"
  "held (set_errno e w) = held w" "queues_ok (set_errno e w) = queues_ok w"
  "held (set_iface i f w) = held w" "queues_ok (set_iface i f w) = queues_ok w"
  by (simp_all add: set_pkt_def set_errno_def set_iface_def frame_simps)

lemma own_set_pkt: "own_inv X w \<Longrightarrow> packet_ok k \<Longrightarrow> own_inv X (set_pkt b k w)"
  by (simp add: own_inv_def frame_simps bufs_inv_set_pkt)

lemma own_simple [simp]:
  "own_inv X (set_errno e w) = own_inv X w" "own_inv X (set_iface i f w) = own_inv X w"
  "own_inv X (w\<lparr>dbg_conn_ovf := n\<rparr>) = own_inv X w" "own_inv X (w\<lparr>dbg_conn_out := n\<rparr>) = own_inv X w"
  "own_inv X (w\<lparr>dbg_inval_reply := n\<rparr>) = own_inv X w" "own_inv X (w\<lparr>line_out := l\<rparr>) = own_inv X w"
  "own_inv X (w\<lparr>ports := ps\<rparr>) = own_inv X w" "own_inv X (w\<lparr>csp_conn_last_given := g\<rparr>) = own_inv X w"
  "own_inv X (w\<lparr>csp_dedup_array := a\<rparr>) = own_inv X w" "own_inv X (w\<lparr>csp_dedup_timestamp := a\<rparr>) = own_inv X w"
  "own_inv X (w\<lparr>csp_dedup_in := i'\<rparr>) = own_inv X w" "own_inv X (w\<lparr>csp_promisc_enabled := pe\<rparr>) = own_inv X w"
  "own_inv X (w\<lparr>rtable := rt\<rparr>) = own_inv X w" "own_inv X (w\<lparr>rtable_inptr := ri\<rparr>) = own_inv X w"
  by (simp_all add: own_inv_def frame_simps)

lemma kept_set_pkt: "b \<notin> B \<Longrightarrow> kept B w (set_pkt b k w)"
  by (auto simp: kept_def frame_simps)

lemma kept_simple [simp]:
  "kept B w (set_errno e w)" "kept B w (w\<lparr>dbg_conn_ovf := n\<rparr>)" "kept B w (w\<lparr>dbg_conn_out := n\<rparr>)"
  "kept B w (w\<lparr>line_out := l\<rparr>)" "kept B w (w\<lparr>dbg_inval_reply := n\<rparr>)"
  by (simp_all add: kept_def frame_simps) (simp_all add: set_errno_def pkt_def)

lemma kept_set_iface: "iface_cfg f = iface_cfg (ifaces w i) \<Longrightarrow> kept B w (set_iface i f w)"
  by (simp add: kept_def settings_set_iface frame_simps)

lemma own_packet: "own_inv X w \<Longrightarrow> b \<in># X \<Longrightarrow> packet_ok (pkt w b)"
  using bufs_invD(8) [of "X + held w" w b] by (simp add: own_inv_def)

lemma own_less: "own_inv X w \<Longrightarrow> b \<in># X \<Longrightarrow> b < CSP_BUFFER_COUNT"
  using bufs_invD(7) [of "X + held w" w b] by (simp add: own_inv_def)

lemma get_actual_held:
  assumes "csp_buffer_get_actual r isr w = (x, w')"
  shows "held w' = held w" "queues_ok w' = queues_ok w" "settings w' = settings w"
  by (subst get_actual_more [OF assms], simp add: frame_simps)+

lemma own_get:
  assumes inv: "own_inv X w" and get: "csp_buffer_get w = (x, w')"
  shows "case x of None \<Rightarrow> own_inv X w' | Some b \<Rightarrow> b \<notin># X \<and> own_inv (add_mset b X) w' \<and> pkt w' b = csp_packet_init (pkt w b)"
    and "kept (set_mset X) w w'"
proof -
  have a: "csp_buffer_get_actual 2 False w = (x, w')" using get by (simp add: csp_buffer_get_def)
  have b: "bufs_inv (X + held w) w" using inv by (simp add: own_inv_def)
  note h = get_actual_held [OF a]
  show "case x of None \<Rightarrow> own_inv X w' | Some b \<Rightarrow> b \<notin># X \<and> own_inv (add_mset b X) w' \<and> pkt w' b = csp_packet_init (pkt w b)"
    using get_actual_Some [OF b] get_actual_None(1) [OF b] a inv h by (auto simp: own_inv_def split: option.split)
  have "pkt w' c = pkt w c" if "c \<in># X" for c
  proof (cases x)
    case None
    then show ?thesis using get_actual_None(4) [OF b] a by (simp add: pkt_def)
  next
    case (Some d)
    then have "c \<noteq> d" using get_actual_Some(1) [OF b, of 2 False d w'] a that by auto
    then show ?thesis using get_actual_Some(6) [OF b, of 2 False d w' c] a Some by (simp add: pkt_def)
  qed
  then show "kept (set_mset X) w w'" by (simp add: kept_def h)
qed

lemma buffer_copy_upd: "\<exists>p. csp_buffer_copy s d w = w\<lparr>pool := p\<rparr>"
proof -
  have "\<exists>p. set_pkt b k w = w\<lparr>pool := p\<rparr>" for b k by (auto simp: set_pkt_def)
  moreover have "\<exists>p. w = w\<lparr>pool := p\<rparr>" by (rule exI [of _ "pool w"]) simp
  ultimately show ?thesis by (auto simp: csp_buffer_copy_def split: option.split)
qed

lemma own_clone:
  assumes inv: "own_inv X w" and b: "b \<in># X" and cl: "csp_buffer_clone (Some b) w = (x, w')"
  shows "case x of None \<Rightarrow> own_inv X w'
           | Some c \<Rightarrow> c \<notin># X \<and> own_inv (add_mset c X) w' \<and> p_id (pkt w' c) = p_id (pkt w b) \<and>
               p_length (pkt w' c) = p_length (pkt w b) \<and> payload (pkt w' c) = payload (pkt w b)"
    and "kept (set_mset X) w w'"
proof -
  have i: "bufs_inv (X + held w) w" and q: "queues_ok w" using inv by (simp_all add: own_inv_def)
  have "b \<in># X + held w" using b by simp
  note C = clone_result [OF i this cl]
  obtain g w1 where g: "csp_buffer_get w = (g, w1)" by fastforce
  then have a: "csp_buffer_get_actual 2 False w = (g, w1)" by (simp add: csp_buffer_get_def)
  have "w' = csp_buffer_copy (Some b) g w1" using cl g by (auto simp: csp_buffer_clone_def)
  then obtain p where u: "w' = w1\<lparr>pool := p\<rparr>" using buffer_copy_upd by metis
  have h: "held w' = held w" "queues_ok w' = queues_ok w"
    using get_actual_held [OF a] by (simp_all add: u frame_simps)
  show "case x of None \<Rightarrow> own_inv X w'
           | Some c \<Rightarrow> c \<notin># X \<and> own_inv (add_mset c X) w' \<and> p_id (pkt w' c) = p_id (pkt w b) \<and>
               p_length (pkt w' c) = p_length (pkt w b) \<and> payload (pkt w' c) = payload (pkt w b)"
    using C q h by (auto simp: own_inv_def payload_def split: option.splits)
  have "pkt w' c = pkt w c" if "c \<in># X" for c
  proof -
    have "x \<noteq> Some c" using C that by auto
    then show ?thesis using C by (auto simp: pkt_def split: option.splits)
  qed
  then show "kept (set_mset X) w w'" using get_actual_held(3) [OF a] by (simp add: kept_def u frame_simps)
qed

section \<open>The router queue and promiscuous mode\<close>

lemma qfifo_write_pkt [frame_simps]:
  "pkt (csp_qfifo_write x i isr w) b = pkt w b" "settings (csp_qfifo_write x i isr w) = settings w"
proof -
  have free: "settings (csp_buffer_free p w) = settings w" for p and w :: "'a csp_cn_scheme"
    using kept_free [of UNIV w p] by (simp add: kept_def)
  show "pkt (csp_qfifo_write x i isr w) b = pkt w b"
    by (simp add: csp_qfifo_write_def csp_qfifo_write_callback_def csp_buffer_free_eq_isr Let_def frame_simps
        split: option.split prod.split) (simp add: pkt_def set_errno_def)
  show "settings (csp_qfifo_write x i isr w) = settings w"
    by (simp add: csp_qfifo_write_def csp_qfifo_write_callback_def csp_buffer_free_eq_isr Let_def frame_simps
        free settings_set_iface split: option.split prod.split)
qed

lemma own_qfifo_write:
  assumes "own_inv (add_mset p X) w"
  shows "own_inv X (csp_qfifo_write (Some p) i isr w)" and "kept B w (csp_qfifo_write (Some p) i isr w)"
proof -
  define R where "R = pm_refs w + cn_refs (conns w) + so_refs (n_sockets w) (sockets w)"
  have h: "held v = qf_refs v + R" if "v = w\<lparr>dbg_errno := e, dbg_conn_ovf := n, pool := p, csp_buffers := b, ifaces := f,
      qfifo_queue_handle := q\<rparr>" for v e n p b f q
    by (simp add: held_def that R_def ac_simps pm_refs_def)
  let ?w = "csp_qfifo_write (Some p) i isr w"
  obtain e n pl b f q where u: "?w = w\<lparr>dbg_errno := e, dbg_conn_ovf := n, pool := pl, csp_buffers := b, ifaces := f,
      qfifo_queue_handle := q\<rparr>"
    using qfifo_write_upd by blast
  have hw: "held w = qf_refs w + R" by (simp add: held_def R_def ac_simps)
  have "bufs_inv (add_mset p ((X + R) + qf_refs w)) w" and ok: "qf_ok w" "queues_ok w"
    using assms by (simp_all add: own_inv_def hw queues_ok_def ac_simps)
  note C = qfifo_write_consumes [OF this(1,2), of i isr]
  have "qf_entries_ok ?w"
  proof (cases i)
    case None
    then show ?thesis using ok(2) by (simp add: csp_qfifo_write_def csp_buffer_free_eq_isr Let_def queues_ok_def
          qf_entries_ok_def qf_items_def frame_simps)
  next
    case (Some j)
    then show ?thesis using ok(2) qf_items_write(1) [OF ok(1), of p j isr]
      by (simp add: queues_ok_def qf_entries_ok_def elem_ok_def)
  qed
  then have "queues_ok ?w"
    using C(2) ok(2) unfolding queues_ok_def by (simp add: u)
  then show "own_inv X ?w"
    using C(1) h [OF u] by (simp add: own_inv_def ac_simps)
  show "kept B w ?w" by (simp add: kept_def frame_simps)
qed

lemma held_promisc:
  "held (w\<lparr>csp_promisc_queue := q\<rparr>) + mset (qh_items (csp_promisc_queue w)) = held w + mset (qh_items q)"
  by (simp add: held_def pm_refs_def qf_refs_def qf_items_def ac_simps)

lemma queues_ok_promisc: "queues_ok w \<Longrightarrow> qh_ok q \<Longrightarrow> queues_ok (w\<lparr>csp_promisc_queue := q\<rparr>)"
  by (simp add: queues_ok_def qf_ok_def qf_entries_ok_def qf_items_def)

lemma own_promisc_move:
  assumes "own_inv X w" and "qh_ok q"
    and eq: "X + mset (qh_items (csp_promisc_queue w)) = Y + mset (qh_items q)"
  shows "own_inv Y (w\<lparr>csp_promisc_queue := q\<rparr>)"
proof -
  have "Y + held (w\<lparr>csp_promisc_queue := q\<rparr>) + mset (qh_items (csp_promisc_queue w)) =
      X + held w + mset (qh_items (csp_promisc_queue w))"
    using held_promisc [where w = w and q = q] eq by (metis (no_types, lifting) union_assoc union_commute)
  then have "Y + held (w\<lparr>csp_promisc_queue := q\<rparr>) = X + held w" by simp
  then show ?thesis using assms(1,2) by (simp add: own_inv_def frame_simps queues_ok_promisc)
qed

text \<open>What enqueuing and dequeuing do to the references of a queue.\<close>

lemma enqueue_mset:
  assumes "qh_ok h" and "csp_queue_enqueue h x t = (r, q)"
  shows "qh_ok q" and "qh_items q = (if r = CSP_QUEUE_OK then qh_items h @ [x] else qh_items h)"
proof -
  show "qh_ok q" using qh_send_inv [OF assms(1), of x t] assms(2) by simp
  have "r = fst (csp_queue_enqueue h x t)" "q = snd (csp_queue_enqueue h x t)" using assms(2) by simp_all
  then show "qh_items q = (if r = CSP_QUEUE_OK then qh_items h @ [x] else qh_items h)"
    using rq.send_items [OF assms(1), of x t] rq.send_result [OF assms(1), of x t] by (simp split: if_splits)
qed

lemma dequeue_mset:
  assumes "qh_ok h" and "csp_queue_dequeue h t = (x, q)"
  shows "qh_ok q" and "qh_items h = (case x of None \<Rightarrow> [] | Some y \<Rightarrow> y # qh_items q)"
    and "x = None \<Longrightarrow> q = h"
proof -
  show "qh_ok q" using qh_recv_inv [OF assms(1), of t] assms(2) by simp
  show "qh_items h = (case x of None \<Rightarrow> [] | Some y \<Rightarrow> y # qh_items q)"
    using qh_recv_Cons [OF assms(1), of _ _ t] qh_recv_empty [of h t] assms(2) by (cases "qh_items h") auto
  show "x = None \<Longrightarrow> q = h"
    using qh_recv_Cons [OF assms(1), of _ _ t] qh_recv_empty [of h t] assms(2) by (cases "qh_items h") auto
qed

lemma own_promisc_add:
  assumes inv: "own_inv X w" and p: "p \<in># X"
  shows "own_inv X (csp_promisc_add p w)" and "kept (set_mset X) w (csp_promisc_add p w)"
proof -
  have "own_inv X (csp_promisc_add p w) \<and> kept (set_mset X) w (csp_promisc_add p w)"
  proof (cases "csp_promisc_enabled w \<and> csp_promisc_queue w \<noteq> None")
    case False
    then show ?thesis using inv by (auto simp: csp_promisc_add_def)
  next
    case on: True
    obtain x w1 where cl: "csp_buffer_clone (Some p) w = (x, w1)" by fastforce
    note C = own_clone [OF inv p cl]
    show ?thesis
    proof (cases x)
      case None
      then show ?thesis using on cl C by (simp add: csp_promisc_add_def)
    next
      case (Some c)
      obtain r q where en: "csp_queue_enqueue (csp_promisc_queue w1) c 0 = (r, q)" by fastforce
      have i1: "own_inv (add_mset c X) w1" and nc: "c \<notin># X" using C(1) Some by simp_all
      have ok1: "qh_ok (csp_promisc_queue w1)" using i1 by (simp add: own_inv_def queues_ok_def)
      note E = enqueue_mset [OF ok1 en]
      let ?w2 = "w1\<lparr>csp_promisc_queue := q\<rparr>"
      have k2: "kept (set_mset X) w ?w2"
        using C(2) by (simp add: kept_def frame_simps) (simp add: pkt_def)
      show ?thesis
      proof (cases "r = CSP_QUEUE_OK")
        case True
        then have "own_inv X ?w2"
          using own_promisc_move [OF i1 E(1), of X] E(2) by simp
        then show ?thesis using on cl Some en True k2 by (simp add: csp_promisc_add_def)
      next
        case False
        then have "own_inv (add_mset c X) ?w2"
          using own_promisc_move [OF i1 E(1), of "add_mset c X"] E(2) by simp
        then have "own_inv X (csp_buffer_free (Some c) (?w2\<lparr>dbg_conn_ovf := dbg_conn_ovf ?w2 + 1\<rparr>))"
          by (intro own_free) simp
        moreover have "kept (set_mset X) w (csp_buffer_free (Some c) (?w2\<lparr>dbg_conn_ovf := dbg_conn_ovf ?w2 + 1\<rparr>))"
          by (rule kept_trans [OF kept_trans [OF k2 kept_simple(2)] kept_free]) auto
        ultimately show ?thesis using on cl Some en False by (simp add: csp_promisc_add_def)
      qed
    qed
  qed
  then show "own_inv X (csp_promisc_add p w)" "kept (set_mset X) w (csp_promisc_add p w)" by simp_all
qed

end
