(* ===== verification/Conn_Own.thy ===== *)
theory Conn_Own
  imports Ownership
begin

text \<open>
  Ownership of the packets queued at connections and sockets, and the rules of the connection operations.
\<close>

section \<open>Moving references into and out of the queues\<close>

lemma cn_refs_upd:
  assumes "c < CSP_CONN_MAX"
  shows "cn_refs (f(c := k)) + mset (qh_items (c_rx_queue (f c))) = cn_refs f + mset (qh_items (c_rx_queue k))"
proof -
  have "(\<Sum>i \<in> {..<CSP_CONN_MAX} - {c}. mset (qh_items (c_rx_queue ((f(c := k)) i)))) =
      (\<Sum>i \<in> {..<CSP_CONN_MAX} - {c}. mset (qh_items (c_rx_queue (f i))))"
    by (rule sum.cong) auto
  then show ?thesis
    using assms unfolding cn_refs_def by (simp add: sum.remove [of "{..<CSP_CONN_MAX}" c] ac_simps)
qed

lemma so_refs_upd:
  assumes "s < n"
  shows "so_refs n (f(s := k)) + sum_list (map item_refs (qh_items (rx_queue (f s)))) =
     so_refs n f + sum_list (map item_refs (qh_items (rx_queue k)))"
proof -
  have "(\<Sum>i \<in> {..<n} - {s}. sum_list (map item_refs (qh_items (rx_queue ((f(s := k)) i))))) =
      (\<Sum>i \<in> {..<n} - {s}. sum_list (map item_refs (qh_items (rx_queue (f i)))))"
    by (rule sum.cong) auto
  then show ?thesis
    using assms unfolding so_refs_def by (simp add: sum.remove [of "{..<n}" s] ac_simps)
qed

lemma multiset_move:
  fixes X Y a b h h' :: "nat multiset"
  assumes "h' + a = h + b" and "X + a = Y + b"
  shows "Y + h' = X + h"
proof -
  have "Y + h' + a = X + h + a" using assms by (metis (no_types, lifting) union_assoc union_commute)
  then show ?thesis by simp
qed

lemma own_conn_move:
  assumes inv: "own_inv X w" and c: "c < CSP_CONN_MAX" and ok: "qh_ok (c_rx_queue k)"
    and eq: "X + mset (qh_items (c_rx_queue (conns w c))) = Y + mset (qh_items (c_rx_queue k))"
  shows "own_inv Y (set_conn c k w)"
proof -
  have "held (set_conn c k w) + mset (qh_items (c_rx_queue (conns w c))) = held w + mset (qh_items (c_rx_queue k))"
    using cn_refs_upd [OF c, of "conns w" k]
    by (simp add: held_def set_conn_def pm_refs_def qf_refs_def qf_items_def ac_simps)
  from multiset_move [OF this eq] have "Y + held (set_conn c k w) = X + held w" .
  moreover have "queues_ok (set_conn c k w)"
    using inv ok by (simp add: own_inv_def queues_ok_def set_conn_def qf_ok_def qf_entries_ok_def qf_items_def)
  ultimately show ?thesis using inv by (simp add: own_inv_def) (simp add: set_conn_def frame_simps)
qed

lemma own_socket_move:
  assumes inv: "own_inv X w" and s: "s < n_sockets w" and ok: "qh_ok (rx_queue k)"
    and eq: "X + sum_list (map item_refs (qh_items (rx_queue (sockets w s)))) =
      Y + sum_list (map item_refs (qh_items (rx_queue k)))"
  shows "own_inv Y (set_socket s k w)"
proof -
  have "held (set_socket s k w) + sum_list (map item_refs (qh_items (rx_queue (sockets w s)))) =
      held w + sum_list (map item_refs (qh_items (rx_queue k)))"
    using so_refs_upd [OF s, of "sockets w" k]
    by (simp add: held_def set_socket_def pm_refs_def qf_refs_def qf_items_def ac_simps)
  from multiset_move [OF this eq] have "Y + held (set_socket s k w) = X + held w" .
  moreover have "queues_ok (set_socket s k w)"
    using inv ok by (simp add: own_inv_def queues_ok_def set_socket_def qf_ok_def qf_entries_ok_def qf_items_def)
  ultimately show ?thesis using inv by (simp add: own_inv_def) (simp add: set_socket_def frame_simps)
qed

lemma own_conn_queue_ok: "own_inv X w \<Longrightarrow> c < CSP_CONN_MAX \<Longrightarrow> qh_ok (c_rx_queue (conns w c))"
  by (simp add: own_inv_def queues_ok_def)

lemma own_socket_queue_ok: "own_inv X w \<Longrightarrow> s < n_sockets w \<Longrightarrow> qh_ok (rx_queue (sockets w s))"
  by (simp add: own_inv_def queues_ok_def)

lemma own_conn_same_queues:
  assumes "own_inv X w" and "\<And>c. c_rx_queue (f c) = c_rx_queue (conns w c)"
  shows "own_inv X (w\<lparr>conns := f\<rparr>)"
proof -
  have "cn_refs f = cn_refs (conns w)" using assms(2) by (simp add: cn_refs_def)
  then have "held (w\<lparr>conns := f\<rparr>) = held w" by (simp add: held_def pm_refs_def qf_refs_def qf_items_def)
  moreover have "queues_ok (w\<lparr>conns := f\<rparr>) = queues_ok w" using assms(2) by (simp add: queues_ok_def qf_ok_def qf_entries_ok_def qf_items_def)
  ultimately show ?thesis using assms(1) by (simp add: own_inv_def frame_simps)
qed

lemma own_conn_same_queue:
  assumes "own_inv X w" and "c_rx_queue k = c_rx_queue (conns w c)"
  shows "own_inv X (set_conn c k w)"
  unfolding set_conn_def by (rule own_conn_same_queues [OF assms(1)]) (simp add: assms(2))

lemma own_conn_enqueue:
  assumes inv: "own_inv (add_mset p X) w" and c: "c < CSP_CONN_MAX"
    and e: "csp_conn_enqueue_packet (Some c) p w = (r, w')"
  shows "own_inv (if r = CSP_ERR_NONE then X else add_mset p X) w'"
    and "\<exists>q n. w' = set_conn c ((conns w c)\<lparr>c_rx_queue := q\<rparr>) w\<lparr>dbg_conn_ovf := n\<rparr> \<and>
      qh_items q = (if r = CSP_ERR_NONE then qh_items (c_rx_queue (conns w c)) @ [p] else qh_items (c_rx_queue (conns w c)))"
proof -
  obtain r0 q where en: "csp_queue_enqueue (c_rx_queue (conns w c)) p 0 = (r0, q)" by fastforce
  note E = enqueue_mset [OF own_conn_queue_ok [OF inv c] en]
  let ?w = "set_conn c ((conns w c)\<lparr>c_rx_queue := q\<rparr>) w"
  have i: "own_inv (if r0 = CSP_QUEUE_OK then X else add_mset p X) ?w"
    using own_conn_move [OF inv c, of "(conns w c)\<lparr>c_rx_queue := q\<rparr>"] E by auto
  have "?w = ?w\<lparr>dbg_conn_ovf := dbg_conn_ovf ?w\<rparr>" by simp
  then have w': "w' = ?w\<lparr>dbg_conn_ovf := (if r0 = CSP_QUEUE_OK then dbg_conn_ovf ?w else dbg_conn_ovf ?w + 1)\<rparr>"
    and r: "r = CSP_ERR_NONE \<longleftrightarrow> r0 = CSP_QUEUE_OK"
    using e en by (auto simp: csp_conn_enqueue_packet_def Let_def split: if_splits)
  show "own_inv (if r = CSP_ERR_NONE then X else add_mset p X) w'" using i r by (simp add: w')
  show "\<exists>q n. w' = set_conn c ((conns w c)\<lparr>c_rx_queue := q\<rparr>) w\<lparr>dbg_conn_ovf := n\<rparr> \<and>
      qh_items q = (if r = CSP_ERR_NONE then qh_items (c_rx_queue (conns w c)) @ [p] else qh_items (c_rx_queue (conns w c)))"
  proof (intro exI conjI)
    show "qh_items q = (if r = CSP_ERR_NONE then qh_items (c_rx_queue (conns w c)) @ [p] else qh_items (c_rx_queue (conns w c)))"
      using E(2) r by simp
  qed (fact w')
qed

section \<open>Connection operations\<close>

lemma flush_step:
  "csp_queue_dequeue (c_rx_queue (conns w c)) 0 = (None, q) \<Longrightarrow>
     csp_conn_flush_rx_queue c w = set_conn c ((conns w c)\<lparr>c_rx_queue := q\<rparr>) w"
  "csp_queue_dequeue (c_rx_queue (conns w c)) 0 = (Some p, q) \<Longrightarrow>
     csp_conn_flush_rx_queue c w =
       csp_conn_flush_rx_queue c (csp_buffer_free (Some p) (set_conn c ((conns w c)\<lparr>c_rx_queue := q\<rparr>) w))"
  by (simp_all add: csp_conn_flush_rx_queue.simps [of c w])

lemma flush_upd:
  "\<exists>pl b e q. csp_conn_flush_rx_queue c w =
     w\<lparr>pool := pl, csp_buffers := b, dbg_errno := e, conns := (conns w)(c := (conns w c)\<lparr>c_rx_queue := q\<rparr>)\<rparr>"
proof (induction c w rule: csp_conn_flush_rx_queue.induct)
  case (1 c w)
  obtain x q where d: "csp_queue_dequeue (c_rx_queue (conns w c)) 0 = (x, q)" by fastforce
  show ?case
  proof (cases x)
    case None
    have "set_conn c ((conns w c)\<lparr>c_rx_queue := q\<rparr>) w =
        w\<lparr>pool := pool w, csp_buffers := csp_buffers w, dbg_errno := dbg_errno w,
          conns := (conns w)(c := (conns w c)\<lparr>c_rx_queue := q\<rparr>)\<rparr>"
      by (simp add: set_conn_def)
    then have "csp_conn_flush_rx_queue c w = w\<lparr>pool := pool w, csp_buffers := csp_buffers w, dbg_errno := dbg_errno w,
          conns := (conns w)(c := (conns w c)\<lparr>c_rx_queue := q\<rparr>)\<rparr>"
      using d None by (simp only: flush_step(1))
    then show ?thesis by blast
  next
    case (Some p)
    let ?w0 = "set_conn c ((conns w c)\<lparr>c_rx_queue := q\<rparr>) w"
    obtain pl b e where f: "csp_buffer_free (Some p) ?w0 = ?w0\<lparr>pool := pl, csp_buffers := b, dbg_errno := e\<rparr>"
      using buffer_free_upd by blast
    have IH: "\<exists>pl b e q'. csp_conn_flush_rx_queue c (csp_buffer_free (Some p) ?w0) =
       (csp_buffer_free (Some p) ?w0)\<lparr>pool := pl, csp_buffers := b, dbg_errno := e,
          conns := (conns (csp_buffer_free (Some p) ?w0))
            (c := (conns (csp_buffer_free (Some p) ?w0) c)\<lparr>c_rx_queue := q'\<rparr>)\<rparr>"
      by (rule "1.IH" [of x q p]) (simp_all add: d Some)
    then obtain pl' b' e' q' where "csp_conn_flush_rx_queue c (csp_buffer_free (Some p) ?w0) =
       w\<lparr>pool := pl', csp_buffers := b', dbg_errno := e', conns := (conns w)(c := (conns w c)\<lparr>c_rx_queue := q'\<rparr>)\<rparr>"
      unfolding f by (auto simp: set_conn_def)
    then show ?thesis using d Some by (auto simp only: flush_step(2))
  qed
qed

lemma own_flush:
  "own_inv X w \<Longrightarrow> c < CSP_CONN_MAX \<Longrightarrow>
     own_inv X (csp_conn_flush_rx_queue c w) \<and> qh_items (c_rx_queue (conns (csp_conn_flush_rx_queue c w) c)) = []"
proof (induction c w rule: csp_conn_flush_rx_queue.induct)
  case (1 c w)
  obtain x q where d: "csp_queue_dequeue (c_rx_queue (conns w c)) 0 = (x, q)" by fastforce
  note D = dequeue_mset [OF own_conn_queue_ok [OF "1.prems"] d]
  show ?case
  proof (cases x)
    case None
    then have same: "q = c_rx_queue (conns w c)" "qh_items (c_rx_queue (conns w c)) = []" using D(2,3) by simp_all
    have "set_conn c ((conns w c)\<lparr>c_rx_queue := q\<rparr>) w = w" by (simp add: same set_conn_def)
    then show ?thesis using d None "1.prems" same(2) by (simp add: flush_step(1))
  next
    case (Some p)
    let ?w0 = "set_conn c ((conns w c)\<lparr>c_rx_queue := q\<rparr>) w"
    have "own_inv (add_mset p X) ?w0"
      using D Some by (intro own_conn_move [OF "1.prems"]) simp_all
    then have "own_inv X (csp_buffer_free (Some p) ?w0)" by (rule own_free)
    then show ?thesis using "1.IH" [of x q p] d Some "1.prems"(2) by (simp add: flush_step(2))
  qed
qed

lemma csp_conn_allocate_eq:
  "csp_conn_allocate ty w =
     (if c_state (conns w 0) = CONN_CLOSED then
        (Some 0, set_conn 0 ((conns w 0)\<lparr>c_state := CONN_OPEN, c_timestamp := 0, c_type := ty,
           idin := (idin (conns w 0))\<lparr>flags := 0\<rparr>, idout := (idout (conns w 0))\<lparr>flags := 0\<rparr>\<rparr>)
          (w\<lparr>csp_conn_last_given := 0\<rparr>))
      else (None, w\<lparr>dbg_conn_out := dbg_conn_out w + 1\<rparr>))"
  by (simp add: csp_conn_allocate_def set_conn_def Let_def)

text \<open>A new connection: the first closed one, with the given identifiers and an empty queue.\<close>

lemma conn_new_None: "csp_conn_new a b ty w = (None, w') \<Longrightarrow>
   c_state (conns w 0) = CONN_OPEN \<and> w' = w\<lparr>dbg_conn_out := dbg_conn_out w + 1\<rparr>"
  by (cases "c_state (conns w 0)") (auto simp: csp_conn_new_def csp_conn_allocate_eq Let_def split: if_splits)

lemma conn_new_Some:
  assumes n: "csp_conn_new a b ty w = (Some c, w')" and inv: "own_inv X w"
  shows "c < CSP_CONN_MAX" and "c_state (conns w c) = CONN_CLOSED" and "own_inv X w'"
    and "\<exists>pl bu e q. w' = w\<lparr>csp_conn_last_given := 0, pool := pl, csp_buffers := bu, dbg_errno := e,
       conns := (conns w)(c := (conns w c)\<lparr>c_state := CONN_OPEN, c_type := ty, idin := a, idout := b,
         c_timestamp := csp_get_ms w, c_rx_queue := q\<rparr>)\<rparr> \<and> qh_items q = []"
proof -
  show c: "c < CSP_CONN_MAX" and "c_state (conns w c) = CONN_CLOSED"
    using n by (auto simp: csp_conn_new_def csp_conn_allocate_eq Let_def split: if_splits)
  let ?k = "(conns w c)\<lparr>c_state := CONN_OPEN, c_type := ty, idin := a, idout := b, c_timestamp := csp_get_ms w\<rparr>"
  let ?w = "set_conn c ?k (w\<lparr>csp_conn_last_given := 0\<rparr>)"
  have w': "w' = csp_conn_flush_rx_queue c ?w"
    using n by (auto simp: csp_conn_new_def csp_conn_allocate_eq Let_def set_conn_def csp_get_ms_def split: if_splits)
  have "own_inv X ?w" using inv c by (intro own_conn_same_queue) simp_all
  note F = own_flush [OF this c]
  show "own_inv X w'" using F by (simp add: w')
  obtain pl bu e q where u: "w' = ?w\<lparr>pool := pl, csp_buffers := bu, dbg_errno := e,
      conns := (conns ?w)(c := (conns ?w c)\<lparr>c_rx_queue := q\<rparr>)\<rparr>"
    using flush_upd [of c ?w] w' by blast
  then have "qh_items q = []" using F w' by simp
  then show "\<exists>pl bu e q. w' = w\<lparr>csp_conn_last_given := 0, pool := pl, csp_buffers := bu, dbg_errno := e,
       conns := (conns w)(c := (conns w c)\<lparr>c_state := CONN_OPEN, c_type := ty, idin := a, idout := b,
         c_timestamp := csp_get_ms w, c_rx_queue := q\<rparr>)\<rparr> \<and> qh_items q = []"
    using u by (auto simp: set_conn_def)
qed

lemma csp_conn_close_eq:
  "csp_conn_close (Some c) by w =
     (CSP_ERR_NONE,
      if c_state (conns w c) = CONN_CLOSED then set_errno CSP_DBG_ERR_ALREADY_CLOSED w
      else set_conn c ((conns (csp_conn_flush_rx_queue c w) c)\<lparr>c_state := CONN_CLOSED\<rparr>) (csp_conn_flush_rx_queue c w))"
  by (simp add: csp_conn_close_def Let_def)

lemma own_close:
  assumes inv: "own_inv X w" and c: "c < CSP_CONN_MAX"
  shows "own_inv X (snd (csp_conn_close (Some c) by w))"
proof -
  have "own_inv X (csp_conn_flush_rx_queue c w)" using own_flush [OF inv c] by simp
  then have "own_inv X (set_conn c ((conns (csp_conn_flush_rx_queue c w) c)\<lparr>c_state := CONN_CLOSED\<rparr>) (csp_conn_flush_rx_queue c w))"
    by (rule own_conn_same_queue) simp
  then show ?thesis using inv by (simp add: csp_conn_close_eq)
qed

text \<open>
  \<^bold>\<open>Claim C36.\<close> Closing a connection returns success, leaves it closed, and gives back exactly the
  references its queue held when it was open: nothing stays allocated, nothing else is freed. Closing a
  closed connection only sets the debug error number.
\<close>

theorem close_releases_queue:
  assumes inv: "own_inv X w" and c: "c < CSP_CONN_MAX" and cl: "csp_close (Some c) w = (r, w')"
  shows "r = CSP_ERR_NONE \<and> own_inv X w' \<and> c_state (conns w' c) = CONN_CLOSED \<and>
     (if c_state (conns w c) = CONN_CLOSED then w' = set_errno CSP_DBG_ERR_ALREADY_CLOSED w
      else qh_items (c_rx_queue (conns w' c)) = [] \<and> held w = held w' + mset (qh_items (c_rx_queue (conns w c))))"
proof (cases "c_state (conns w c)")
  case CONN_CLOSED
  then show ?thesis using cl inv by (auto simp: csp_close_def csp_conn_close_eq) (simp add: set_errno_def)
next
  case CONN_OPEN
  let ?f = "csp_conn_flush_rx_queue c w"
  have w': "r = CSP_ERR_NONE" "w' = set_conn c ((conns ?f c)\<lparr>c_state := CONN_CLOSED\<rparr>) ?f"
    using cl CONN_OPEN by (simp_all add: csp_close_def csp_conn_close_eq)
  have i: "own_inv X w'" using own_close [OF inv c, of CSP_RDP_CLOSED_BY_USERSPACE] cl by (simp add: csp_close_def)
  have e: "qh_items (c_rx_queue (conns w' c)) = []" "c_state (conns w' c) = CONN_CLOSED"
    using own_flush [OF inv c] by (simp_all add: w' set_conn_def)
  obtain pl b en q where u: "?f = w\<lparr>pool := pl, csp_buffers := b, dbg_errno := en,
      conns := (conns w)(c := (conns w c)\<lparr>c_rx_queue := q\<rparr>)\<rparr>"
    using flush_upd by blast
  have cs: "conns w' = (conns w)(c := (conns w c)\<lparr>c_rx_queue := q, c_state := CONN_CLOSED\<rparr>)"
    by (simp add: w' set_conn_def u)
  define R where "R = qf_refs w + pm_refs w + so_refs (n_sockets w) (sockets w)"
  have hw: "held w = R + cn_refs (conns w)" by (simp add: held_def R_def ac_simps)
  have "held w' = qf_refs w + pm_refs w + cn_refs (conns w') + so_refs (n_sockets w) (sockets w)"
    by (simp add: held_def w' set_conn_def u qf_refs_def qf_items_def pm_refs_def)
  then have hw': "held w' = R + cn_refs (conns w')" by (simp add: R_def ac_simps)
  have "cn_refs (conns w') + mset (qh_items (c_rx_queue (conns w c))) = cn_refs (conns w)"
    using cn_refs_upd [OF c, of "conns w" "(conns w c)\<lparr>c_rx_queue := q, c_state := CONN_CLOSED\<rparr>"] e(1)
    by (simp add: cs)
  then have "held w = held w' + mset (qh_items (c_rx_queue (conns w c)))"
    unfolding hw hw' by (simp only: union_assoc)
  then show ?thesis using w' i e CONN_OPEN by simp
qed

text \<open>What the options of a connection request come to.\<close>

definition eff_opts :: "('a) csp_cn_scheme \<Rightarrow> u32 \<Rightarrow> u32" where
  "eff_opts w opts =
     (let o1 = opts OR conn_dfl_so (csp_conf w)
      in if o1 AND CSP_O_NOCRC32 \<noteq> 0 then o1 AND NOT CSP_O_CRC32 else o1)"

definition unsupported :: "('a) csp_cn_scheme \<Rightarrow> u32 \<Rightarrow> bool" where
  "unsupported w opts \<longleftrightarrow>
     eff_opts w opts AND CSP_O_RDP \<noteq> 0 \<or> eff_opts w opts AND CSP_O_HMAC \<noteq> 0 \<and> \<not> use_hmac w"

definition opt_flags :: "u32 \<Rightarrow> u8" where
  "opt_flags o1 = (if o1 AND CSP_O_HMAC \<noteq> 0 then CSP_FHMAC else 0) OR (if o1 AND CSP_O_CRC32 \<noteq> 0 then CSP_FCRC32 else 0)"

lemma csp_connect_eq:
  "csp_connect prio dest dp timeout opts w =
     (if unsupported w opts then (None, set_errno CSP_DBG_ERR_UNSUPPORTED w)
      else case csp_conn_new
          \<lparr>pri = prio, flags = opt_flags (eff_opts w opts), src = dest, dst = 0, dport = 0, sport = dp\<rparr>
          \<lparr>pri = prio, flags = opt_flags (eff_opts w opts), src = 0, dst = dest, dport = dp, sport = 0\<rparr> CONN_CLIENT w of
        (None, v) \<Rightarrow> (None, v)
      | (Some c, v) \<Rightarrow>
          (Some c, set_conn c ((conns v c)\<lparr>idout := (idout (conns v c))\<lparr>sport := sport_outgoing (conns v c)\<rparr>,
             idin := (idin (conns v c))\<lparr>dport := sport_outgoing (conns v c)\<rparr>, dest_socket := None,
             c_opts := eff_opts w opts\<rparr>) v))"
proof -
  have o: "(if (opts OR conn_dfl_so (csp_conf w)) AND CSP_O_NOCRC32 \<noteq> 0
       then (opts OR conn_dfl_so (csp_conf w)) AND NOT CSP_O_CRC32 else opts OR conn_dfl_so (csp_conf w)) = eff_opts w opts"
    by (simp add: eff_opts_def Let_def)
  show ?thesis
    unfolding csp_connect_def Let_def o
    by (cases "eff_opts w opts AND CSP_O_RDP = 0"; cases "eff_opts w opts AND CSP_O_HMAC = 0"; cases "use_hmac w")
      (simp_all add: unsupported_def opt_flags_def csp_id_zero_def or.commute)
qed

text \<open>
  \<^bold>\<open>Claim C37.\<close> Opening a connection fails exactly when an unsupported option is requested or no connection
  is free. Otherwise the connection was closed before, is now an open client connection with an empty
  queue, addresses the requested node and port from its own source port with the requested flags, and
  every packet that arrives for that port is found to belong to it. No packet reference is lost.
\<close>

theorem connect_opens_client:
  assumes inv: "own_inv X w" and cn: "csp_connect prio dest dp timeout opts w = (x, w')"
  shows "own_inv X w' \<and>
     (x = None \<longleftrightarrow> unsupported w opts \<or> (\<forall>c < CSP_CONN_MAX. c_state (conns w c) = CONN_OPEN)) \<and>
     (\<forall>c. x = Some c \<longrightarrow>
        c < CSP_CONN_MAX \<and> c_state (conns w c) = CONN_CLOSED \<and> c_state (conns w' c) = CONN_OPEN \<and>
        c_type (conns w' c) = CONN_CLIENT \<and> qh_items (c_rx_queue (conns w' c)) = [] \<and>
        idout (conns w' c) = \<lparr>pri = prio, flags = opt_flags (eff_opts w opts), src = 0, dst = dest, dport = dp,
          sport = sport_outgoing (conns w c)\<rparr> \<and>
        (\<forall>ident. dport ident = sport_outgoing (conns w c) \<longrightarrow> csp_conn_find_existing ident w' = Some c))"
proof (cases "unsupported w opts")
  case True
  then show ?thesis using cn inv by (auto simp: csp_connect_eq)
next
  case False
  let ?in = "\<lparr>pri = prio, flags = opt_flags (eff_opts w opts), src = dest, dst = 0, dport = 0, sport = dp\<rparr>"
  let ?out = "\<lparr>pri = prio, flags = opt_flags (eff_opts w opts), src = 0, dst = dest, dport = dp, sport = 0\<rparr>"
  obtain y v where new: "csp_conn_new ?in ?out CONN_CLIENT w = (y, v)" by fastforce
  show ?thesis
  proof (cases y)
    case None
    then show ?thesis using False cn new conn_new_None [of ?in ?out CONN_CLIENT w v] inv
      by (simp add: csp_connect_eq)
  next
    case (Some c)
    note N = conn_new_Some [OF new [unfolded Some] inv]
    obtain q where k: "conns v c = (conns w c)\<lparr>c_state := CONN_OPEN, c_type := CONN_CLIENT, idin := ?in, idout := ?out,
         c_timestamp := csp_get_ms w, c_rx_queue := q\<rparr>" and q: "qh_items q = []"
      using N(4) by auto
    let ?k = "(conns v c)\<lparr>idout := (idout (conns v c))\<lparr>sport := sport_outgoing (conns v c)\<rparr>,
             idin := (idin (conns v c))\<lparr>dport := sport_outgoing (conns v c)\<rparr>, dest_socket := None,
             c_opts := eff_opts w opts\<rparr>"
    have w': "x = Some c" "w' = set_conn c ?k v" using cn False new Some by (simp_all add: csp_connect_eq)
    have i: "own_inv X w'" unfolding w' by (rule own_conn_same_queue [OF N(3)]) simp
    have kc: "conns w' c = ?k" by (simp add: w' set_conn_def)
    have c0: "c = 0" using N(1) by simp
    have "csp_conn_find_existing ident w' = Some c" if "dport ident = sport_outgoing (conns w c)" for ident
      using that kc k c0 by (simp add: csp_conn_find_existing_def)
    moreover have "\<not> (\<forall>c < CSP_CONN_MAX. c_state (conns w c) = CONN_OPEN)" using N(1,2) by auto
    ultimately show ?thesis
      using i N(1,2) kc k q False w'(1) by simp
  qed
qed

lemma ex_cn_inv: "own_inv {#0#} ex_cn"
proof -
  have "bufs_inv {#0#} ex_cn"
    using ex_qf_inv
    by (simp add: bufs_inv_def free_list_def pkt_def ex_cn_def ex_pm_def ex_dd_def ex_ks_def
        csp_pm.defs csp_dd.defs csp_ks.defs csp_qf.defs)
  moreover have "held ex_cn = {#}"
    using ex_qf_ok
    by (simp add: held_def pm_refs_def cn_refs_def so_refs_def ex_cn_fields ex_conn_def ex_socket_def new_queue_facts
        qh_items_def [of None] qf_refs_def qf_items_def)
      (simp add: ex_cn_def ex_pm_def ex_dd_def ex_ks_def csp_pm.defs csp_dd.defs csp_ks.defs csp_qf.defs)
  moreover have "queues_ok ex_cn"
    using ex_qf_ok
    by (simp add: queues_ok_def ex_cn_fields ex_conn_def ex_socket_def new_queue_facts qh_ok_def [of None] qf_ok_def qf_entries_ok_def qf_items_def)
      (simp add: ex_cn_def ex_pm_def ex_dd_def ex_ks_def csp_pm.defs csp_dd.defs csp_ks.defs csp_qf.defs)
  ultimately show ?thesis by (simp add: own_inv_def)
qed

theorem close_releases_queue_witness:
  "own_inv {#0#} (snd (csp_close (Some 0) ex_cn))"
  using close_releases_queue [OF ex_cn_inv, of 0 "fst (csp_close (Some 0) ex_cn)" "snd (csp_close (Some 0) ex_cn)"]
  by simp

theorem connect_opens_client_witness:
  "\<exists>w'. csp_connect 2 10 7 1000 CSP_O_CRC32 ex_cn = (Some 0, w') \<and> own_inv {#0#} w' \<and>
     dst (idout (conns w' 0)) = 10 \<and> sport (idout (conns w' 0)) = 33"
proof -
  obtain x w' where c: "csp_connect 2 10 7 1000 CSP_O_CRC32 ex_cn = (x, w')" by fastforce
  have "\<not> unsupported ex_cn CSP_O_CRC32"
    by (simp add: unsupported_def eff_opts_def ex_cn_fields Let_def)
      (simp add: ex_cn_def ex_pm_def ex_dd_def ex_ks_def ex_qf_def ex_rt_def ex_ifs3_def ex_ifs_def ready_bufs_def
        boot_bufs_def boot_conf_def csp_pm.defs csp_dd.defs csp_ks.defs csp_qf.defs csp_rt.defs csp_ifs.defs csp_bufs.defs)
  then show ?thesis
    using connect_opens_client [OF ex_cn_inv c] c by (auto simp: ex_cn_fields ex_conn_def)
qed

end
