(* ===== verification/Nexthop.thy ===== *)
theory Nexthop
  imports Conn_Own Hmac
begin

text \<open>
  The transmit interface. \<open>csp_interface.h\<close> requires of a \<open>nexthop\<close> function that it takes over the packet
  when it returns success and leaves it to the caller when it returns an error. The locale \<open>transmitter\<close> is
  that contract; the loopback and the KISS transmitter of the repository are proved to meet it, a driver
  outside the repository is a parameter that is assumed to.
\<close>

section \<open>The contract\<close>

locale transmitter =
  fixes tx_fn :: "nat \<Rightarrow> u16 \<Rightarrow> nat \<Rightarrow> bool \<Rightarrow> ('a) csp_cn_scheme \<Rightarrow> int \<times> ('a) csp_cn_scheme"
  assumes tx_own: "own_inv (add_mset p X) w \<Longrightarrow> tx_fn i via p from_me w = (r, w') \<Longrightarrow>
      own_inv (if r = CSP_ERR_NONE then X else add_mset p X) w'"
    and tx_kept: "own_inv (add_mset p X) w \<Longrightarrow> tx_fn i via p from_me w = (r, w') \<Longrightarrow>
      kept (set_mset X - {p}) w w'"
begin

text \<open>A caller that frees the packet after an error never loses it.\<close>

lemma tx_or_free:
  assumes "own_inv (add_mset p X) w" and "tx_fn i via p from_me w = (r, w')"
  shows "own_inv X (if r = CSP_ERR_NONE then w' else csp_buffer_free (Some p) w')"
    and "kept (set_mset X - {p}) w (if r = CSP_ERR_NONE then w' else csp_buffer_free (Some p) w')"
proof -
  show "own_inv X (if r = CSP_ERR_NONE then w' else csp_buffer_free (Some p) w')"
    using tx_own [OF assms] own_free [of p X w'] by auto
  show "kept (set_mset X - {p}) w (if r = CSP_ERR_NONE then w' else csp_buffer_free (Some p) w')"
    using tx_kept [OF assms] kept_trans [OF tx_kept [OF assms] kept_free [of UNIV]] by auto
qed

end

section \<open>The transmitters of the repository\<close>

interpretation nlo: transmitter csp_lo_tx
  by unfold_locales (auto simp: csp_lo_tx_def own_qfifo_write)

lemma crc32_append_packet_ok:
  assumes "packet_ok p"
  shows "packet_ok (snd (csp_crc32_append p))"
proof -
  obtain r q where a: "csp_crc32_append p = (r, q)" by fastforce
  show ?thesis
  proof (cases "r = CSP_ERR_NONE")
    case True
    then show ?thesis using crc32_append_packet(1) [OF assms] a by simp
  next
    case False
    then show ?thesis using assms a by (auto simp: csp_crc32_append_def Let_def split: if_splits)
  qed
qed

lemma tx_func_own [simp]: "own_inv X (tx_func d bs w) = own_inv X w"
  by (simp add: tx_func_def)

lemma tx_func_kept: "kept B w (tx_func d bs w)"
  by (simp add: tx_func_def)

lemma kiss_tx_loop_own: "own_inv X (kiss_tx_loop d bs w) = own_inv X w \<and> kept B w (kiss_tx_loop d bs w)"
proof (induction d bs w rule: kiss_tx_loop.induct)
  case (2 d b bs w)
  have k: "kept B w (kiss_tx_loop d bs (tx_func d x w))" if "kept B (tx_func d x w) (kiss_tx_loop d bs (tx_func d x w))" for x
    by (rule kept_trans [OF tx_func_kept that]) auto
  show ?case using 2 k by simp
qed simp

lemma csp_kiss_tx_own:
  assumes inv: "own_inv (add_mset p X) w" and tx: "csp_kiss_tx i via p from_me w = (r, w')"
  shows "r = CSP_ERR_NONE" and "own_inv X w'" and "kept (set_mset X - {p}) w w'"
proof -
  let ?d = "driver_data (ifaces w i)"
  define w1 where "w1 = set_pkt p (snd (csp_crc32_append (pkt w p))) w"
  define w2 where "w2 = set_pkt p (csp_id_prepend (version (csp_conf w1)) (pkt w1 p)) w1"
  define w3 where "w3 = tx_func ?d [FEND, TNC_DATA] w2"
  define w4 where "w4 = kiss_tx_loop ?d (frame_bytes (pkt w3 p)) w3"
  define w5 where "w5 = tx_func ?d [FEND] w4"
  have w': "r = CSP_ERR_NONE" "w' = csp_buffer_free (Some p) w5"
    using tx by (simp_all add: csp_kiss_tx_def Let_def w1_def w2_def w3_def w4_def w5_def)
  have "own_inv (add_mset p X) w1"
    unfolding w1_def using inv crc32_append_packet_ok [OF own_packet [OF inv, of p]] by (intro own_set_pkt) simp_all
  then have "own_inv (add_mset p X) w2"
    unfolding w2_def using own_packet [of "add_mset p X" w1 p] by (intro own_set_pkt) simp_all
  then have "own_inv (add_mset p X) w5" by (simp add: w5_def w4_def w3_def kiss_tx_loop_own)
  then show "own_inv X w'" unfolding w' by (rule own_free)
  let ?B = "set_mset X - {p}"
  have k: "kept ?B w w1" "kept ?B w1 w2" "kept ?B w2 w3" "kept ?B w3 w4" "kept ?B w4 w5" "kept ?B w5 w'"
    by (simp_all add: w1_def w2_def w3_def w4_def w5_def w' kept_set_pkt tx_func_kept kiss_tx_loop_own)
  have k1: "kept ?B w w2" by (rule kept_trans1 [OF k(1,2)])
  have k2: "kept ?B w w3" by (rule kept_trans1 [OF k1 k(3)])
  have k3: "kept ?B w w4" by (rule kept_trans1 [OF k2 k(4)])
  have k4: "kept ?B w w5" by (rule kept_trans1 [OF k3 k(5)])
  show "kept ?B w w'" by (rule kept_trans1 [OF k4 k(6)])
  show "r = CSP_ERR_NONE" by (fact w')
qed

interpretation nkiss: transmitter csp_kiss_tx
  by unfold_locales (auto dest: csp_kiss_tx_own)

section \<open>Calling through the function pointer\<close>

type_synonym 'a driver = "nat \<Rightarrow> u16 \<Rightarrow> nat \<Rightarrow> bool \<Rightarrow> 'a csp_cn_scheme \<Rightarrow> int \<times> 'a csp_cn_scheme"

definition call_nexthop :: "('a) driver \<Rightarrow> ('a) driver" where
  "call_nexthop drv i via packet from_me w =
     (case nexthop (ifaces w i) of
        NextLo \<Rightarrow> csp_lo_tx i via packet from_me w
      | NextKiss \<Rightarrow> csp_kiss_tx i via packet from_me w
      | NextDriver \<Rightarrow> drv i via packet from_me w)"

lemma nexthop_dispatch: "transmitter drv \<Longrightarrow> transmitter (call_nexthop drv)"
proof unfold_locales
  fix p X i via from_me r and w w' :: "'a csp_cn_scheme"
  assume d: "transmitter drv" and inv: "own_inv (add_mset p X) w" and c: "call_nexthop drv i via p from_me w = (r, w')"
  show "own_inv (if r = CSP_ERR_NONE then X else add_mset p X) w'"
    using c nlo.tx_own [OF inv] nkiss.tx_own [OF inv] transmitter.tx_own [OF d inv]
    by (auto simp only: call_nexthop_def split: nexthop_t.splits)
  show "kept (set_mset X - {p}) w w'"
    using c nlo.tx_kept [OF inv] nkiss.tx_kept [OF inv] transmitter.tx_kept [OF d inv]
    by (auto simp only: call_nexthop_def split: nexthop_t.splits)
qed

end
