(* ===== verification/Send_Own.thy ===== *)
theory Send_Own
  imports Send
begin

text \<open>
  Sending neither crashes nor loses a packet: the ownership rules of \<open>csp_send_direct\<close>, and its loops as
  lists of interfaces.
\<close>

section \<open>One interface\<close>

lemma id_at_kept:
  "kept B w w' \<Longrightarrow> (\<And>b. ref = IdOfPacket b \<Longrightarrow> b \<in> B) \<Longrightarrow> id_at ref w' = id_at ref w"
  by (cases ref) (auto simp: keptD)

lemma append_hmac_own:
  assumes inv: "own_inv (add_mset c X) w" and key: "csp_hmac_key w \<noteq> []"
  shows "\<exists>ok w'. append_hmac ref c w = Some (ok, w') \<and> own_inv (add_mset c X) w' \<and> kept (set_mset X - {c}) w w'"
proof (cases "flags (id_at ref w) AND CSP_FHMAC \<noteq> 0 \<and> use_hmac w")
  case False
  then show ?thesis using inv by (auto simp: append_hmac_def)
next
  case True
  have ok: "packet_ok (pkt w c)" using own_packet [OF inv] by simp
  have "\<exists>r q. csp_hmac_append (csp_hmac_key w) False (pkt w c) = Some (r, q) \<and> packet_ok q"
  proof (cases "unat (p_length (pkt w c)) + 4 \<le> CSP_BUFFER_SIZE")
    case True
    then show ?thesis using hmac_append_ok [OF ok key] by blast
  next
    case False
    then have "256 < p_length (pkt w c) + 4"
      using ok by (simp add: word_less_nat_alt unat_word_ariths packet_ok_def)
    then show ?thesis using ok by (simp add: csp_hmac_append_def)
  qed
  then obtain r q where a: "csp_hmac_append (csp_hmac_key w) False (pkt w c) = Some (r, q)" "packet_ok q" by blast
  then show ?thesis using True own_set_pkt [OF inv a(2), of c] kept_set_pkt [of c "set_mset X - {c}" w q]
    by (simp add: append_hmac_def)
qed

lemma append_crc_own:
  assumes inv: "own_inv (add_mset c X) w" and a: "append_crc ref c w = (ok, w')"
  shows "own_inv (add_mset c X) w'" and "kept (set_mset X - {c}) w w'"
proof -
  have "packet_ok (snd (csp_crc32_append (pkt w c)))"
    using crc32_append_packet_ok own_packet [OF inv] by simp
  then have "own_inv (add_mset c X) w' \<and> kept (set_mset X - {c}) w w'"
    using a inv by (auto simp: append_crc_def own_set_pkt kept_set_pkt split: if_splits prod.splits)
  then show "own_inv (add_mset c X) w'" "kept (set_mset X - {c}) w w'" by simp_all
qed

lemma secure_tx_own:
  assumes inv: "own_inv (add_mset c X) w" and key: "csp_hmac_key w \<noteq> []"
  shows "\<exists>ok w'. secure_tx ref c i w = Some (ok, w') \<and> own_inv (add_mset c X) w' \<and> kept (set_mset X - {c}) w w'"
proof -
  let ?B = "set_mset X - {c}"
  obtain ok1 w1 where h: "append_hmac ref c w = Some (ok1, w1)" "own_inv (add_mset c X) w1" "kept ?B w w1"
    using append_hmac_own [OF inv key] by blast
  obtain ok2 w2 where r: "append_crc ref c w1 = (ok2, w2)" by fastforce
  note C = append_crc_own [OF h(2) r]
  have k2: "kept ?B w w2" by (rule kept_trans1 [OF h(3) C(2)])
  have p: "own_inv (add_mset c X) (csp_promisc_add c w2)"
    using own_promisc_add(1) [OF C(1)] by simp
  have "kept ?B w2 (csp_promisc_add c w2)"
    using own_promisc_add(2) [OF C(1), of c] by (rule kept_mono) auto
  then have "kept ?B w (csp_promisc_add c w2)" by (rule kept_trans1 [OF k2])
  then show ?thesis using h r C k2 p by (cases ok1; cases ok2) (simp_all add: secure_tx_def ex_bool_eq)
qed

lemma tx_err_own:
  assumes "own_inv (add_mset c X) w"
  shows "own_inv X (tx_err c i w)" and "kept B w (tx_err c i w)"
proof -
  show "own_inv X (tx_err c i w)" using own_free [OF assms] by (simp add: tx_err_def Let_def)
  have "kept B (csp_buffer_free (Some c) w) (tx_err c i w)"
    unfolding tx_err_def Let_def by (rule kept_set_iface) simp
  then show "kept B w (tx_err c i w)" by (rule kept_trans1 [OF kept_free [of B]])
qed

lemma transmit_own:
  assumes d: "transmitter drv" and inv: "own_inv (add_mset c X) w"
  shows "own_inv X (transmit drv c i via fm w)" and "kept (set_mset X - {c}) w (transmit drv c i via fm w)"
proof -
  let ?B = "set_mset X - {c}"
  obtain r w1 where t: "call_nexthop drv i via c fm w = (r, w1)" by fastforce
  note T = transmitter.tx_own [OF nexthop_dispatch [OF d] inv t] transmitter.tx_kept [OF nexthop_dispatch [OF d] inv t]
  have "own_inv X (transmit drv c i via fm w) \<and> kept ?B w (transmit drv c i via fm w)"
  proof (cases "r = CSP_ERR_NONE")
    case True
    let ?f = "(ifaces w1 i)\<lparr>tx := tx (ifaces w1 i) + 1, txbytes := txbytes (ifaces w1 i) + ucast (p_length (pkt w c))\<rparr>"
    have "kept ?B w1 (set_iface i ?f w1)" by (rule kept_set_iface) simp
    then have "kept ?B w (set_iface i ?f w1)" by (rule kept_trans1 [OF T(2)])
    then show ?thesis using T(1) True t by (simp add: transmit_def Let_def)
  next
    case False
    then have i1: "own_inv (add_mset c X) w1" using T(1) by simp
    have "kept ?B w (tx_err c i w1)" by (rule kept_trans1 [OF T(2) tx_err_own(2) [OF i1]])
    then show ?thesis using tx_err_own(1) [OF i1] False t by (simp add: transmit_def Let_def)
  qed
  then show "own_inv X (transmit drv c i via fm w)" "kept ?B w (transmit drv c i via fm w)" by simp_all
qed

lemma send_direct_iface_own:
  assumes d: "transmitter drv" and inv: "own_inv (add_mset c X) w" and key: "csp_hmac_key w \<noteq> []"
  shows "\<exists>w'. csp_send_direct_iface drv ref c i via fm w = Some w' \<and> own_inv X w' \<and> kept (set_mset X - {c}) w w'"
proof -
  let ?B = "set_mset X - {c}"
  define w1 where "w1 = (if ref \<noteq> IdOfPacket c
     then set_pkt c ((pkt w c)\<lparr>p_id := csp_id_copy (p_id (pkt w c)) (id_at ref w)\<rparr>) w else w)"
  have "packet_ok ((pkt w c)\<lparr>p_id := x\<rparr>)" for x using own_packet [OF inv, of c] by (simp add: packet_ok_def)
  then have i1: "own_inv (add_mset c X) w1" and k1: "kept ?B w w1"
    using inv by (simp_all add: w1_def own_set_pkt kept_set_pkt)
  have key1: "csp_hmac_key w1 \<noteq> []" using key keptD(11) [OF k1] by simp
  show ?thesis
  proof (cases fm)
    case False
    have "kept ?B w (transmit drv c i via False w1)" by (rule kept_trans1 [OF k1 transmit_own(2) [OF d i1]])
    then show ?thesis using transmit_own(1) [OF d i1] False
      by (simp add: csp_send_direct_iface_def csp_output_hook_def Let_def flip: w1_def)
  next
    case True
    obtain ok w2 where s: "secure_tx ref c i w1 = Some (ok, w2)" "own_inv (add_mset c X) w2" "kept ?B w1 w2"
      using secure_tx_own [OF i1 key1] by blast
    have k2: "kept ?B w w2" by (rule kept_trans1 [OF k1 s(3)])
    have "kept ?B w (transmit drv c i via fm w2)" "kept ?B w (tx_err c i w2)"
      by (rule kept_trans1 [OF k2 transmit_own(2) [OF d s(2)]] kept_trans1 [OF k2 tx_err_own(2) [OF s(2)]])+
    then show ?thesis using transmit_own(1) [OF d s(2), of i via fm] tx_err_own(1) [OF s(2)] s(1) True
      by (cases ok) (simp_all add: csp_send_direct_iface_def csp_output_hook_def Let_def flip: w1_def)
  qed
qed

lemma send_copy_own:
  assumes d: "transmitter drv" and inv: "own_inv X w" and p: "p \<in># X" and key: "csp_hmac_key w \<noteq> []"
  shows "\<exists>w'. send_copy drv ref p i via fm w = Some w' \<and> own_inv X w' \<and> kept (set_mset X) w w'"
proof -
  obtain x w1 where cl: "csp_buffer_clone (Some p) w = (x, w1)" by fastforce
  note C = own_clone [OF inv p cl]
  show ?thesis
  proof (cases x)
    case None
    then show ?thesis using cl C by (simp add: send_copy_def)
  next
    case (Some c)
    then have c: "c \<notin># X" "own_inv (add_mset c X) w1" using C(1) by simp_all
    have "csp_hmac_key w1 \<noteq> []" using key keptD(11) [OF C(2)] by simp
    then obtain w2 where s: "csp_send_direct_iface drv ref c i via fm w1 = Some w2" "own_inv X w2"
        "kept (set_mset X - {c}) w1 w2"
      using send_direct_iface_own [OF d c(2)] by blast
    have "kept (set_mset X) w w2" by (rule kept_trans [OF C(2) s(3)]) (use c in auto)
    then show ?thesis using cl Some s by (simp add: send_copy_def)
  qed
qed

section \<open>The loops as lists\<close>

text \<open>\<open>pending l P c L\<close>: a search at \<open>c\<close> of the list \<open>l\<close> has exactly the hits \<open>L\<close> before it.\<close>

definition pending :: "nat list \<Rightarrow> (nat \<Rightarrow> bool) \<Rightarrow> nat option \<Rightarrow> nat list \<Rightarrow> bool" where
  "pending l P c L \<longleftrightarrow> (\<exists>pre rest. l = pre @ rest \<and> after c l = rest \<and> L = filter P rest)"

lemma pending_start: "pending l P None (filter P l)"
  unfolding pending_def by (intro exI [of _ "[]"] exI [of _ l]) simp

lemma find_skip: "\<forall>u \<in> set us. \<not> P u \<Longrightarrow> find P (us @ vs) = find P vs"
  by (induction us) auto

context stepwise_search
begin

lemma pending_end: "pending (elems s) (hit s) c [] \<Longrightarrow> search s c = None"
  by (auto simp: pending_def search_find find_None_iff filter_empty_conv dest: sym [of "[]"])

lemma pending_hit:
  assumes "pending (elems s) (hit s) c (i # L)" and d: "distinct (elems s)"
  shows "search s c = Some i" and "pending (elems s) (hit s) (Some i) L" and "hit s i"
proof -
  obtain pre rest where r: "elems s = pre @ rest" "after c (elems s) = rest" "i # L = filter (hit s) rest"
    using assms(1) by (auto simp: pending_def)
  obtain us vs where u: "rest = us @ i # vs" "\<forall>u \<in> set us. \<not> hit s u" "hit s i" "L = filter (hit s) vs"
    using Cons_eq_filterD [OF r(3)] by blast
  show "search s c = Some i"
    using u(2,3) by (simp only: search_find r(2) u(1) find_skip if_True find.simps)
  have e: "elems s = (pre @ us) @ i # vs" using r(1) u(1) by simp
  have "i \<notin> set (pre @ us)" using d unfolding e by auto
  then have "after (Some i) (elems s) = vs" unfolding e by (rule after_mid)
  moreover have "elems s = (pre @ us @ [i]) @ vs" using e by simp
  ultimately show "pending (elems s) (hit s) (Some i) L" unfolding pending_def u(4) by blast
  show "hit s i" by (fact u)
qed

end

fun each :: "('x \<Rightarrow> 'w \<Rightarrow> 'w option) \<Rightarrow> 'x list \<Rightarrow> 'w \<Rightarrow> 'w option" where
  "each f [] w = Some w"
| "each f (x # xs) w = Option.bind (f x w) (each f xs)"

lemma each_inv:
  assumes "\<And>x w. x \<in> set xs \<Longrightarrow> I w \<Longrightarrow> \<exists>w'. f x w = Some w' \<and> I w'" and "I w"
  shows "\<exists>w'. each f xs w = Some w' \<and> I w'"
  using assms
proof (induction xs arbitrary: w)
  case (Cons x xs)
  then obtain w1 where "f x w = Some w1" "I w1" by (meson list.set_intros(1))
  then show ?case using Cons by simp
qed simp

text \<open>What routing decisions depend on.\<close>

definition routing where
  "routing w = (csp_conf w, interfaces w, rtable w, rtable_inptr w, \<lambda>i. iface_cfg (ifaces w i))"

lemma routing_kept: "kept B w w' \<Longrightarrow> routing w' = routing w"
  by (auto simp: routing_def keptD fun_eq_iff)

lemma iface_cfgD:
  "iface_cfg f = iface_cfg g \<Longrightarrow> addr f = addr g \<and> netmask f = netmask g \<and> is_default f = is_default g"
  by (simp add: iface_cfg_def)

lemma is_within_subnet_cfg:
  "map_option iface_cfg f = map_option iface_cfg g \<Longrightarrow>
     csp_iflist_is_within_subnet v a f = csp_iflist_is_within_subnet v a g"
  by (cases f; cases g) (auto simp: csp_iflist_is_within_subnet_def iface_cfg_def)

lemma routing_same:
  assumes "routing w' = routing w"
  shows "csp_conf w' = csp_conf w" "interfaces w' = interfaces w" "rtable w' = rtable w"
    "rtable_inptr w' = rtable_inptr w" "subnet_hit w' a = subnet_hit w a" "dfl_hit w' = dfl_hit w"
    "skip_iface rf i w' = skip_iface rf i w"
proof -
  have cfg: "iface_cfg (ifaces w' j) = iface_cfg (ifaces w j)" for j
    using assms by (simp add: routing_def fun_eq_iff)
  note C = iface_cfgD [OF cfg]
  show c: "csp_conf w' = csp_conf w" "interfaces w' = interfaces w" "rtable w' = rtable w"
    "rtable_inptr w' = rtable_inptr w"
    using assms by (simp_all add: routing_def)
  have s: "csp_iflist_is_within_subnet v x (Some (ifaces w' j)) = csp_iflist_is_within_subnet v x (Some (ifaces w j))" for v x j
    by (rule is_within_subnet_cfg) (simp add: cfg)
  show "subnet_hit w' a = subnet_hit w a" "dfl_hit w' = dfl_hit w"
    using C s by (simp_all add: fun_eq_iff subnet_hit_def dfl_hit_def c)
  have "csp_iflist_is_within_subnet v x (map_option (ifaces w') rf) = csp_iflist_is_within_subnet v x (map_option (ifaces w) rf)" for v x
    by (rule is_within_subnet_cfg) (simp add: option.map_comp comp_def cfg)
  then show "skip_iface rf i w' = skip_iface rf i w" using C by (simp add: skip_iface_def c)
qed

text \<open>The interfaces a packet is sent to: those a search finds, less the ones split horizon excludes.\<close>

definition targets :: "nat option \<Rightarrow> ('a) csp_cn_scheme \<Rightarrow> nat list \<Rightarrow> nat list" where
  "targets rf w l = filter (\<lambda>i. \<not> skip_iface rf i w) l"

fun subnet_each ::
  "('a) driver \<Rightarrow> id_ref \<Rightarrow> nat \<Rightarrow> bool \<Rightarrow> nat list \<Rightarrow> csp_id \<Rightarrow> ('a) csp_cn_scheme \<Rightarrow> ('a) csp_cn_scheme option" where
  "subnet_each drv ref p fm [] idl w = Some w"
| "subnet_each drv ref p fm (i # is) idl w =
     Option.bind (send_copy drv (LocalId (local_id ref fm i idl w)) p i CSP_NO_VIA_ADDRESS fm w)
       (subnet_each drv ref p fm is (local_id ref fm i idl w))"

text \<open>A state between two copies: the packet is still ours.\<close>

definition sending where
  "sending p X w \<longleftrightarrow> own_inv (add_mset p X) w \<and> csp_hmac_key w \<noteq> [] \<and> distinct (interfaces w)"

lemma send_copy_sending:
  assumes "transmitter drv" and "sending p X w"
  shows "\<exists>w'. send_copy drv ref p i via fm w = Some w' \<and> sending p X w' \<and> kept (set_mset (add_mset p X)) w w'"
proof -
  obtain w' where w': "send_copy drv ref p i via fm w = Some w'" "own_inv (add_mset p X) w'" "kept (set_mset (add_mset p X)) w w'"
    using send_copy_own [OF assms(1), of "add_mset p X" w p] assms(2) unfolding sending_def by (metis union_single_eq_member)
  then show ?thesis using assms(2) keptD(2,11) [OF w'(3)] by (simp add: sending_def)
qed

lemma subnet_send_list:
  assumes "transmitter drv" and "sending p X w" and "\<And>b. ref = IdOfPacket b \<Longrightarrow> b = p"
    and "pending (interfaces w) (subnet_hit w (dst (id_at ref w))) c L"
  shows "\<exists>w'. subnet_send drv ref p rf c idl found w = Some (found \<or> L \<noteq> [], w') \<and> sending p X w' \<and>
     kept (set_mset (add_mset p X)) w w' \<and> subnet_each drv ref p (rf = None) (targets rf w L) idl w = Some w'"
  using assms
proof (induction L arbitrary: c idl found w)
  case Nil
  have "csp_iflist_get_by_subnet w (dst (id_at ref w)) c = None"
    using by_subnet.pending_end [of "(w, dst (id_at ref w))" c] Nil.prems(4) by simp
  then show ?case using Nil.prems(2) by (simp add: subnet_send.simps targets_def)
next
  case (Cons i L)
  let ?a = "dst (id_at ref w)" and ?B = "set_mset (add_mset p X)"
  have d: "distinct (interfaces w)" using Cons.prems(2) by (simp add: sending_def)
  have s: "csp_iflist_get_by_subnet w ?a c = Some i" and p: "pending (interfaces w) (subnet_hit w ?a) (Some i) L"
    using by_subnet.pending_hit [of "(w, ?a)" c i L] Cons.prems(4) d by simp_all
  show ?case
  proof (cases "skip_iface rf i w")
    case True
    then have "subnet_send drv ref p rf c idl found w = subnet_send drv ref p rf (Some i) idl True w"
      using s by (simp add: subnet_send.simps [of drv ref p rf c])
    then show ?thesis using Cons.IH [OF Cons.prems(1-3) p, of idl True] True by (simp add: targets_def)
  next
    case False
    let ?l = "local_id ref (rf = None) i idl w"
    obtain w1 where w1: "send_copy drv (LocalId ?l) p i CSP_NO_VIA_ADDRESS (rf = None) w = Some w1"
        "sending p X w1" "kept ?B w w1"
      using send_copy_sending [OF Cons.prems(1,2)] by blast
    have id1: "id_at ref w1 = id_at ref w" using w1(3) by (rule id_at_kept) (use Cons.prems(3) in auto)
    note R = routing_same [OF routing_kept [OF w1(3)]]
    have p1: "pending (interfaces w1) (subnet_hit w1 (dst (id_at ref w1))) (Some i) L" using p by (simp add: R id1)
    obtain w2 where w2: "subnet_send drv ref p rf (Some i) ?l True w1 = Some (True, w2)" "sending p X w2"
        "kept ?B w1 w2" "subnet_each drv ref p (rf = None) (targets rf w1 L) ?l w1 = Some w2"
      using Cons.IH [OF Cons.prems(1) w1(2) Cons.prems(3) p1, of ?l True] by auto
    have "subnet_send drv ref p rf c idl found w = Some (True, w2)"
      using s False w1(1) w2(1) by (simp add: subnet_send.simps [of drv ref p rf c])
    moreover have "targets rf w (i # L) = i # targets rf w1 L" using False by (simp add: targets_def R)
    moreover have "kept ?B w w2" using w1(3) w2(3) by (rule kept_trans1)
    ultimately show ?thesis using w1(1) w2(2,4) by simp
  qed
qed

section \<open>Routes and default interfaces\<close>

text \<open>\<open>sent\<close>: like \<open>kept\<close>, but the outgoing identifiers of connections may have changed.\<close>

definition with_idout :: "(nat \<Rightarrow> csp_id) \<Rightarrow> ('a) csp_cn_scheme \<Rightarrow> ('a) csp_cn_scheme" where
  "with_idout f w = w\<lparr>conns := (\<lambda>c. (conns w c)\<lparr>idout := f c\<rparr>)\<rparr>"

definition sent :: "nat set \<Rightarrow> ('a) csp_cn_scheme \<Rightarrow> ('a) csp_cn_scheme \<Rightarrow> bool" where
  "sent B w w' \<longleftrightarrow> (\<exists>f. kept B (with_idout f w) w')"

lemma with_idout_same: "with_idout (\<lambda>c. idout (conns w c)) w = w"
  by (simp add: with_idout_def)

lemma with_idout_twice: "with_idout g (with_idout f w) = with_idout g w"
  by (simp add: with_idout_def)

lemma pkt_with_idout [frame_simps]: "pkt (with_idout f w) b = pkt w b"
  by (simp add: with_idout_def pkt_def)

lemma kept_with_idout: "kept B w w' \<Longrightarrow> kept B (with_idout g w) (with_idout g w')"
  unfolding kept_def frame_simps by (simp add: settings_def with_idout_def)

lemma sent_kept: "kept B w w' \<Longrightarrow> sent B w w'"
  unfolding sent_def using with_idout_same by metis

lemma sent_refl [simp]: "sent B w w"
  by (simp add: sent_kept)

lemma sent_trans: "sent B w w1 \<Longrightarrow> sent B w1 w2 \<Longrightarrow> sent B w w2"
  unfolding sent_def using kept_with_idout kept_trans1 with_idout_twice by metis

lemma sentD:
  assumes "sent B w w'"
  shows "csp_conf w' = csp_conf w" "interfaces w' = interfaces w" "rtable w' = rtable w"
    "rtable_inptr w' = rtable_inptr w" "csp_dedup_array w' = csp_dedup_array w"
    "csp_dedup_timestamp w' = csp_dedup_timestamp w" "csp_dedup_in w' = csp_dedup_in w"
    "use_hmac w' = use_hmac w" "use_promisc w' = use_promisc w" "csp_hmac_key w' = csp_hmac_key w"
    "n_sockets w' = n_sockets w" "sockets w' = sockets w" "ports w' = ports w"
    "c_state (conns w' c) = c_state (conns w c)" "c_type (conns w' c) = c_type (conns w c)"
    "idin (conns w' c) = idin (conns w c)" "dest_socket (conns w' c) = dest_socket (conns w c)"
    "c_rx_queue (conns w' c) = c_rx_queue (conns w c)" "c_opts (conns w' c) = c_opts (conns w c)"
    "sport_outgoing (conns w' c) = sport_outgoing (conns w c)"
    "b \<in> B \<Longrightarrow> pkt w' b = pkt w b" "routing w' = routing w"
proof -
  obtain f where k: "kept B (with_idout f w) w'" using assms by (auto simp: sent_def)
  note K = keptD [OF k]
  show "csp_conf w' = csp_conf w" "interfaces w' = interfaces w" "rtable w' = rtable w"
    "rtable_inptr w' = rtable_inptr w" "csp_dedup_array w' = csp_dedup_array w"
    "csp_dedup_timestamp w' = csp_dedup_timestamp w" "csp_dedup_in w' = csp_dedup_in w"
    "use_hmac w' = use_hmac w" "use_promisc w' = use_promisc w" "csp_hmac_key w' = csp_hmac_key w"
    "n_sockets w' = n_sockets w" "sockets w' = sockets w" "ports w' = ports w"
    "c_state (conns w' c) = c_state (conns w c)" "c_type (conns w' c) = c_type (conns w c)"
    "idin (conns w' c) = idin (conns w c)" "dest_socket (conns w' c) = dest_socket (conns w c)"
    "c_rx_queue (conns w' c) = c_rx_queue (conns w c)" "c_opts (conns w' c) = c_opts (conns w c)"
    "sport_outgoing (conns w' c) = sport_outgoing (conns w c)"
    using K by (simp_all add: with_idout_def)
  show "b \<in> B \<Longrightarrow> pkt w' b = pkt w b" using K(16) by (simp add: frame_simps)
  have "routing (with_idout f w) = routing w" by (simp add: routing_def with_idout_def)
  then show "routing w' = routing w" using routing_kept [OF k] by simp
qed

lemma sent_set_id:
  assumes "\<And>b. ref = IdOfPacket b \<Longrightarrow> b \<notin> B"
  shows "sent B w (set_id ref x w)"
proof (cases ref)
  case (IdOfPacket b)
  then show ?thesis using assms by (simp add: sent_kept kept_set_pkt)
next
  case (IdOut c)
  have "set_id ref x w = with_idout ((\<lambda>d. idout (conns w d))(c := x)) w"
    by (auto simp: IdOut set_conn_def with_idout_def fun_eq_iff)
  then show ?thesis unfolding sent_def using kept_refl by metis
qed simp

lemma sent_claim_src: "(\<And>b. ref = IdOfPacket b \<Longrightarrow> b \<notin> B) \<Longrightarrow> sent B w (claim_src ref fm i w)"
  by (simp add: claim_src_def sent_set_id)

lemma own_set_id:
  assumes inv: "own_inv X w" and "\<And>b. ref = IdOfPacket b \<Longrightarrow> b \<in># X"
  shows "own_inv X (set_id ref x w)"
proof (cases ref)
  case (IdOfPacket b)
  then have "packet_ok ((pkt w b)\<lparr>p_id := x\<rparr>)"
    using own_packet [OF inv, of b] assms(2) by (simp add: packet_ok_def)
  then show ?thesis using own_set_pkt [OF inv] IdOfPacket by simp
next
  case (IdOut c)
  then show ?thesis using own_conn_same_queue [OF inv] by simp
qed (simp add: inv)

text \<open>One hop: write the source address if it is still open, then send a copy.\<close>

definition hop_send :: "('a) driver \<Rightarrow> id_ref \<Rightarrow> nat \<Rightarrow> bool \<Rightarrow> nat \<times> u16 \<Rightarrow> ('a) csp_cn_scheme \<Rightarrow> ('a) csp_cn_scheme option" where
  "hop_send drv ref p fm h w = send_copy drv ref p (fst h) (snd h) fm (claim_src ref fm (fst h) w)"

lemma hop_send_sending:
  assumes "transmitter drv" and s: "sending p X w" and "\<And>b. ref = IdOfPacket b \<Longrightarrow> b = p"
  shows "\<exists>w'. hop_send drv ref p fm h w = Some w' \<and> sending p X w' \<and> sent (set_mset X - {p}) w w'"
proof -
  let ?w = "claim_src ref fm (fst h) w" and ?B = "set_mset X - {p}"
  have c: "sent ?B w ?w" by (rule sent_claim_src) (use assms(3) in auto)
  have "own_inv (add_mset p X) ?w"
    using s assms(3) by (auto simp: claim_src_def sending_def intro!: own_set_id)
  then have "sending p X ?w" using s sentD(2,10) [OF c] by (simp add: sending_def)
  then obtain w' where w': "send_copy drv ref p (fst h) (snd h) fm ?w = Some w'" "sending p X w'"
      "kept (set_mset (add_mset p X)) ?w w'"
    using send_copy_sending [OF assms(1)] by blast
  have "kept ?B ?w w'" using w'(3) by (rule kept_mono) auto
  then have "sent ?B w w'" using sent_trans [OF c sent_kept] by blast
  then show ?thesis using w' by (simp add: hop_send_def)
qed

lemma dfl_send_list:
  assumes "transmitter drv" and "sending p X w" and "\<And>b. ref = IdOfPacket b \<Longrightarrow> b = p"
    and "pending (interfaces w) (dfl_hit w) c L"
  shows "\<exists>w'. dfl_send drv ref p rf c w = Some w' \<and> sending p X w' \<and> sent (set_mset X - {p}) w w' \<and>
     each (hop_send drv ref p (rf = None)) (map (\<lambda>i. (i, CSP_NO_VIA_ADDRESS)) (targets rf w L)) w = Some w'"
  using assms
proof (induction L arbitrary: c w)
  case Nil
  have "csp_iflist_get_by_isdfl w c = None" using by_dfl.pending_end [OF Nil.prems(4)] .
  then show ?case using Nil.prems(2) by (simp add: dfl_send.simps targets_def)
next
  case (Cons i L)
  let ?B = "set_mset X - {p}"
  have d: "distinct (interfaces w)" using Cons.prems(2) by (simp add: sending_def)
  note s = by_dfl.pending_hit [OF Cons.prems(4) d]
  show ?case
  proof (cases "skip_iface rf i w")
    case True
    then have "dfl_send drv ref p rf c w = dfl_send drv ref p rf (Some i) w"
      using s by (simp add: dfl_send.simps [of drv ref p rf c])
    then show ?thesis using Cons.IH [OF Cons.prems(1-3) s(2)] True by (simp add: targets_def)
  next
    case False
    obtain w1 where w1: "hop_send drv ref p (rf = None) (i, CSP_NO_VIA_ADDRESS) w = Some w1" "sending p X w1" "sent ?B w w1"
      using hop_send_sending [OF Cons.prems(1-3)] by blast
    note R = routing_same [OF sentD(22) [OF w1(3)]]
    have p1: "pending (interfaces w1) (dfl_hit w1) (Some i) L" using s(2) by (simp add: R)
    obtain w2 where w2: "dfl_send drv ref p rf (Some i) w1 = Some w2" "sending p X w2" "sent ?B w1 w2"
        "each (hop_send drv ref p (rf = None)) (map (\<lambda>i. (i, CSP_NO_VIA_ADDRESS)) (targets rf w1 L)) w1 = Some w2"
      using Cons.IH [OF Cons.prems(1) w1(2) Cons.prems(3) p1] by blast
    have "dfl_send drv ref p rf c w = Some w2"
      using s(1) False w1(1) w2(1) by (simp add: dfl_send.simps [of drv ref p rf c] hop_send_def)
    moreover have "targets rf w (i # L) = i # targets rf w1 L" using False by (simp add: targets_def R)
    moreover have "sent ?B w w2" using w1(3) w2(3) by (rule sent_trans)
    ultimately show ?thesis using w1(1) w2(2,4) by simp
  qed
qed

text \<open>The routes tried for a best route: itself, then the earlier entries for the same network, last first.\<close>

definition same_net :: "('a) csp_rt_scheme \<Rightarrow> nat \<Rightarrow> nat \<Rightarrow> bool" where
  "same_net w s i \<longleftrightarrow> r_netmask (rtable w ! i) = r_netmask (rtable w ! s) \<and> r_address (rtable w ! i) = r_address (rtable w ! s)"

definition route_chain :: "('a) csp_rt_scheme \<Rightarrow> nat \<Rightarrow> nat list" where
  "route_chain w s = s # filter (same_net w s) (rev [0..<s])"

definition route_hops :: "nat option \<Rightarrow> ('a) csp_cn_scheme \<Rightarrow> nat list \<Rightarrow> (nat \<times> u16) list" where
  "route_hops rf w rs = filter (\<lambda>(i, via). \<not> skip_iface rf i w) (map (\<lambda>r. (the (r_iface (rtable w ! r)), r_via (rtable w ! r))) rs)"

lemma search_backward_find:
  "csp_rtable_search_backward w (Some s) = find (same_net w s) (rev [0..<s])"
proof -
  have "backward_loop (rtable w) (rtable w ! s) n = find (same_net w s) (rev [0..<n])" for n
    by (induction n) (auto simp: same_net_def)
  then show ?thesis by (simp add: csp_rtable_search_backward_def del: upt.simps backward_loop.simps)
qed

lemma search_backward_chain:
  "csp_rtable_search_backward w (Some s) = None \<Longrightarrow> route_chain w s = [s]"
  "csp_rtable_search_backward w (Some s) = Some i \<Longrightarrow> i < s \<and> route_chain w s = s # route_chain w i"
proof -
  show "csp_rtable_search_backward w (Some s) = None \<Longrightarrow> route_chain w s = [s]"
    by (auto simp: search_backward_find route_chain_def find_None_iff filter_empty_conv)
  have "find P (rev [0..<n]) = Some i \<Longrightarrow> i < n \<and> P i \<and> filter P (rev [0..<n]) = i # filter P (rev [0..<i])" for P n
    by (induction n) (auto split: if_splits)
  then show "i < s \<and> route_chain w s = s # route_chain w i" if f: "csp_rtable_search_backward w (Some s) = Some i"
  proof -
    have "i < s \<and> same_net w s i \<and> filter (same_net w s) (rev [0..<s]) = i # filter (same_net w s) (rev [0..<i])"
      using f by (simp add: search_backward_find
          \<open>\<And>P n. find P (rev [0..<n]) = Some i \<Longrightarrow> i < n \<and> P i \<and> filter P (rev [0..<n]) = i # filter P (rev [0..<i])\<close>)
    moreover have "same_net w s i \<Longrightarrow> same_net w s = same_net w i" by (auto simp: same_net_def fun_eq_iff)
    ultimately show ?thesis by (simp add: route_chain_def)
  qed
qed

lemma first_hop:
  assumes "transmitter drv" and "sending p X w" and "\<And>b. ref = IdOfPacket b \<Longrightarrow> b = p"
  obtains w1 where "(if skip_iface rf i w then Some w else hop_send drv ref p (rf = None) (i, via) w) = Some w1"
    and "sending p X w1" and "sent (set_mset X - {p}) w w1"
proof (cases "skip_iface rf i w")
  case True
  then show thesis using that assms(2) by simp
next
  case False
  obtain v where "hop_send drv ref p (rf = None) (i, via) w = Some v" "sending p X v" "sent (set_mset X - {p}) w v"
    using hop_send_sending [OF assms(1,2), of ref "rf = None" "(i, via)"] assms(3) by metis
  then show thesis using that False by simp
qed

lemma route_send_list:
  assumes "transmitter drv" and "sending p X w" and "\<And>b. ref = IdOfPacket b \<Longrightarrow> b = p"
    and "\<And>i. i \<le> r \<Longrightarrow> r_iface (rtable w ! i) \<noteq> None"
  shows "\<exists>w'. route_send drv ref p rf r w = Some w' \<and> sending p X w' \<and> sent (set_mset X - {p}) w w' \<and>
     each (hop_send drv ref p (rf = None)) (route_hops rf w (route_chain w r)) w = Some w'"
  using assms
proof (induction r arbitrary: w rule: less_induct)
  case (less r)
  let ?B = "set_mset X - {p}"
  obtain i where i: "r_iface (rtable w ! r) = Some i" using less.prems(4) [of r] by auto
  let ?h = "(i, r_via (rtable w ! r))"
  obtain w1 where w1: "(if skip_iface rf i w then Some w else hop_send drv ref p (rf = None) ?h w) = Some w1"
      "sending p X w1" "sent ?B w w1"
    using first_hop [OF less.prems(1-3)] .
  have step: "route_send drv ref p rf r w =
      (case csp_rtable_search_backward w1 (Some r) of None \<Rightarrow> Some w1 | Some r' \<Rightarrow> route_send drv ref p rf r' w1)"
    using w1(1) i by (cases "skip_iface rf i w") (auto simp: route_send.simps [of drv ref p rf r] hop_send_def)
  note R = routing_same [OF sentD(22) [OF w1(3)]]
  have same: "csp_rtable_search_backward w1 (Some r) = csp_rtable_search_backward w (Some r)"
    by (simp add: csp_rtable_search_backward_def R)
  have hops: "route_hops rf w (r # l) = (if skip_iface rf i w then route_hops rf w1 l else ?h # route_hops rf w1 l)" for l
    by (simp add: route_hops_def i R)
  show ?case
  proof (cases "csp_rtable_search_backward w (Some r)")
    case None
    have "each (hop_send drv ref p (rf = None)) (route_hops rf w (route_chain w r)) w = Some w1"
      using w1(1) search_backward_chain(1) [OF None] by (simp add: hops route_hops_def [of rf w1] split: if_splits)
    moreover have "route_send drv ref p rf r w = Some w1" using step None same by simp
    ultimately show ?thesis using w1(2,3) by blast
  next
    case (Some r')
    note ch = search_backward_chain(2) [OF Some]
    have "r_iface (rtable w1 ! i) \<noteq> None" if "i \<le> r'" for i using less.prems(4) [of i] ch that by (simp add: R)
    then obtain w2 where w2: "route_send drv ref p rf r' w1 = Some w2" "sending p X w2" "sent ?B w1 w2"
        "each (hop_send drv ref p (rf = None)) (route_hops rf w1 (route_chain w1 r')) w1 = Some w2"
      using less.IH [OF conjunct1 [OF ch] less.prems(1) w1(2) less.prems(3)] by blast
    have "same_net w1 r' = same_net w r'" by (simp add: fun_eq_iff same_net_def R)
    then have "route_hops rf w (route_chain w r) =
        (if skip_iface rf i w then route_hops rf w1 (route_chain w1 r') else ?h # route_hops rf w1 (route_chain w1 r'))"
      unfolding conjunct2 [OF ch] hops by (simp add: route_chain_def)
    then have "each (hop_send drv ref p (rf = None)) (route_hops rf w (route_chain w r)) w = Some w2"
      using w1(1) w2(4) by (cases "skip_iface rf i w") auto
    moreover have "route_send drv ref p rf r w = Some w2" using step Some same w2(1) by simp
    moreover have "sent ?B w w2" using w1(3) w2(3) by (rule sent_trans)
    ultimately show ?thesis using w2(2) by blast
  qed
qed

section \<open>The routing decision\<close>

definition routes_ok :: "('a) csp_rt_scheme \<Rightarrow> bool" where
  "routes_ok w \<longleftrightarrow> length (rtable w) = CSP_RTABLE_SIZE \<and> rtable_inptr w \<le> CSP_RTABLE_SIZE \<and>
     (\<forall>r < rtable_inptr w. r_iface (rtable w ! r) \<noteq> None)"

lemma find_route_less:
  assumes "csp_rtable_find_route w a = Some r"
  shows "r < rtable_inptr w"
proof -
  obtain m where "best_so_far (version (csp_conf w)) a (routes w) (csp_rtable_find_route w a) m"
    using find_route_loop_best [of "version (csp_conf w)" a "[]" None 0 "routes w"]
    by (auto simp: csp_rtable_find_route_def routes_def best_so_far_def)
  then show ?thesis using assms by (simp add: best_so_far_def best_match_def routes_def)
qed

text \<open>
  The specification: a packet for the loopback address goes to the loopback interface. Otherwise it goes
  to every interface whose subnet contains the destination; if there is none, along every route for the
  best matching network; if there is none, to every default interface. Split horizon is applied at last:
  when it excludes all of them, the next stage is not tried. The original is freed.
\<close>

definition send_spec ::
  "('a) driver \<Rightarrow> id_ref \<Rightarrow> nat \<Rightarrow> nat option \<Rightarrow> ('a) csp_cn_scheme \<Rightarrow> ('a) csp_cn_scheme option" where
  "send_spec drv ref p rf w =
     (let a = dst (id_at ref w); fm = (rf = None)
      in if a = addr (ifaces w csp_if_lo) then csp_send_direct_iface drv ref p csp_if_lo CSP_NO_VIA_ADDRESS fm w
         else map_option (csp_buffer_free (Some p))
           (if subnet_ifaces w a \<noteq> [] then subnet_each drv ref p fm (targets rf w (subnet_ifaces w a)) (id_at ref w) w
            else case csp_rtable_find_route w a of
              Some r \<Rightarrow> each (hop_send drv ref p fm) (route_hops rf w (route_chain w r)) w
            | None \<Rightarrow> each (hop_send drv ref p fm) (map (\<lambda>i. (i, CSP_NO_VIA_ADDRESS)) (targets rf w (dfl_ifaces w))) w))"

lemma send_direct_no_subnet:
  assumes d: "transmitter drv" and s: "sending p X w" and ref: "\<And>b. ref = IdOfPacket b \<Longrightarrow> b = p" and rt: "routes_ok w"
    and lo: "dst (id_at ref w) \<noteq> addr (ifaces w csp_if_lo)" and none: "subnet_ifaces w (dst (id_at ref w)) = []"
    and w1: "subnet_send drv ref p rf None (id_at ref w) False w = Some (False, w)"
  shows "\<exists>w2. csp_send_direct drv ref p rf w = Some (csp_buffer_free (Some p) w2) \<and>
    send_spec drv ref p rf w = Some (csp_buffer_free (Some p) w2) \<and> sending p X w2 \<and> sent (set_mset X - {p}) w w2"
proof (cases "csp_rtable_find_route w (dst (id_at ref w))")
  case (Some r)
  have "r_iface (rtable w ! i) \<noteq> None" if "i \<le> r" for i
    using rt find_route_less [OF Some] that by (simp add: routes_ok_def)
  from route_send_list [OF d s ref this, where rf = rf] obtain w2 where
    "route_send drv ref p rf r w = Some w2" "sending p X w2" "sent (set_mset X - {p}) w w2"
    "each (hop_send drv ref p (rf = None)) (route_hops rf w (route_chain w r)) w = Some w2" by auto
  then show ?thesis using w1 lo none Some by (intro exI [of _ w2]) (simp add: csp_send_direct_def send_spec_def Let_def)
next
  case None
  have "pending (interfaces w) (dfl_hit w) None (dfl_ifaces w)" unfolding dfl_ifaces_def by (rule pending_start)
  from dfl_send_list [OF d s ref this, where rf = rf] obtain w2 where
    "dfl_send drv ref p rf None w = Some w2" "sending p X w2" "sent (set_mset X - {p}) w w2"
    "each (hop_send drv ref p (rf = None)) (map (\<lambda>i. (i, CSP_NO_VIA_ADDRESS)) (targets rf w (dfl_ifaces w))) w = Some w2"
    by auto
  then show ?thesis using w1 lo none None by (intro exI [of _ w2]) (simp add: csp_send_direct_def send_spec_def Let_def)
qed

lemma send_direct_main:
  assumes d: "transmitter drv" and s: "sending p X w" and ref: "\<And>b. ref = IdOfPacket b \<Longrightarrow> b = p" and rt: "routes_ok w"
  shows "\<exists>w'. csp_send_direct drv ref p rf w = Some w' \<and> send_spec drv ref p rf w = Some w' \<and>
     own_inv X w' \<and> sent (set_mset X - {p}) w w'"
proof -
  let ?B = "set_mset X - {p}" and ?a = "dst (id_at ref w)"
  have fin: "own_inv X (csp_buffer_free (Some p) v) \<and> sent ?B w (csp_buffer_free (Some p) v)"
    if "sending p X v" "sent ?B w v" for v
    using that own_free [of p X v] sent_trans [OF that(2) sent_kept [OF kept_free]] by (simp add: sending_def)
  show ?thesis
  proof (cases "?a = addr (ifaces w csp_if_lo)")
    case True
    obtain w' where "csp_send_direct_iface drv ref p csp_if_lo CSP_NO_VIA_ADDRESS (rf = None) w = Some w'"
        "own_inv X w'" "kept ?B w w'"
      using send_direct_iface_own [OF d, of p X w ref csp_if_lo CSP_NO_VIA_ADDRESS "rf = None"] s
      unfolding sending_def by blast
    then show ?thesis using True sent_kept by (auto simp: csp_send_direct_def send_spec_def Let_def)
  next
    case lo: False
    have "pending (interfaces w) (subnet_hit w ?a) None (subnet_ifaces w ?a)"
      unfolding subnet_ifaces_def by (rule pending_start)
    from subnet_send_list [OF d s ref this, of rf "id_at ref w" False] obtain w1 where
      w1: "subnet_send drv ref p rf None (id_at ref w) False w = Some (subnet_ifaces w ?a \<noteq> [], w1)"
        "sending p X w1" "kept (set_mset (add_mset p X)) w w1"
        "subnet_each drv ref p (rf = None) (targets rf w (subnet_ifaces w ?a)) (id_at ref w) w = Some w1"
      by auto
    show ?thesis
    proof (cases "subnet_ifaces w ?a = []")
      case False
      have "sent ?B w w1" using w1(3) by (intro sent_kept) (erule kept_mono, auto)
      then show ?thesis using fin [OF w1(2)] w1(1,4) lo False
        by (simp add: csp_send_direct_def send_spec_def Let_def)
    next
      case True
      then have "subnet_send drv ref p rf None (id_at ref w) False w = Some (False, w)" using w1(1,4) by (simp add: targets_def)
      from send_direct_no_subnet [OF d s ref rt lo True this] show ?thesis using fin by metis
    qed
  qed
qed

lemma ex_cn_settings: "routes_ok ex_cn" "distinct (interfaces ex_cn)" "csp_hmac_key ex_cn \<noteq> []"
  by (simp_all add: routes_ok_def empty_routes_def ex_cn_def ex_pm_def ex_dd_def ex_ks_def ex_qf_def ex_rt_def ex_ifs3_def ex_ifs_def
      csp_pm.defs csp_dd.defs csp_ks.defs csp_qf.defs csp_rt.defs csp_ifs.defs)


text \<open>
  \<^bold>\<open>Claim C4.\<close> The routing decision of \<open>csp_send_direct\<close>, three nested searches that continue from
  pointers while the interfaces transmit, is the specification \<open>send_spec\<close>: the target list is computed from
  the state at the call, filtered by split horizon, and the copies are sent in that order.
\<close>

theorem send_direct_decision:
  assumes "transmitter drv" and "own_inv (add_mset p X) w" and "csp_hmac_key w \<noteq> []" and "distinct (interfaces w)"
    and "routes_ok w" and "ref = IdOfPacket p \<or> ref = IdOut c"
  shows "csp_send_direct drv ref p rf w = send_spec drv ref p rf w"
proof -
  have "sending p X w" using assms by (simp add: sending_def)
  moreover have "\<And>b. ref = IdOfPacket b \<Longrightarrow> b = p" using assms(6) by auto
  ultimately show ?thesis using send_direct_main [OF assms(1) _ _ assms(5)] by metis
qed


theorem send_direct_decision_witness:
  "csp_send_direct csp_lo_tx (IdOfPacket 0) 0 (Some 1) ex_cn = send_spec csp_lo_tx (IdOfPacket 0) 0 (Some 1) ex_cn"
  using send_direct_decision [OF nlo.transmitter_axioms ex_cn_inv ex_cn_settings(3,2,1), of "IdOfPacket 0" undefined "Some 1"]
  by simp

end
