(* ===== verification/Api.thy ===== *)
theory Api
  imports Send_Own
begin

text \<open>
  The application interface of \<open>src/csp_io.c\<close>: accepting connections, reading, sending over a connection,
  sending without one, replying, and transactions. The queues never block on this port, so a read returns
  at once; what interrupts do while the code runs between a send and a read is the parameter \<open>env\<close>.
  An outer \<open>None\<close> is undefined behaviour: a NULL dereference, or a queue slot read as the wrong kind of
  pointer.
\<close>

section \<open>Receiving\<close>

definition csp_accept ::
  "nat option \<Rightarrow> u32 \<Rightarrow> ('a) csp_cn_scheme \<Rightarrow> (nat option \<times> ('a) csp_cn_scheme) option" where
  "csp_accept sock timeout w =
     (case sock of
        None \<Rightarrow> Some (None, set_errno CSP_DBG_ERR_INVALID_POINTER w)
      | Some s \<Rightarrow>
          if rx_queue (sockets w s) = None then Some (None, set_errno CSP_DBG_ERR_INVALID_POINTER w)
          else case csp_queue_dequeue (rx_queue (sockets w s)) timeout of
            (Some (RxConn c), q) \<Rightarrow> Some (Some c, set_socket s ((sockets w s)\<lparr>rx_queue := q\<rparr>) w)
          | (Some (RxPacket p), q) \<Rightarrow> None
          | (None, q) \<Rightarrow> Some (None, set_socket s ((sockets w s)\<lparr>rx_queue := q\<rparr>) w))"

definition csp_read :: "nat option \<Rightarrow> u32 \<Rightarrow> ('a) csp_cn_scheme \<Rightarrow> nat option \<times> ('a) csp_cn_scheme" where
  "csp_read conn timeout w =
     (case conn of
        None \<Rightarrow> (None, w)
      | Some c \<Rightarrow>
          if c_state (conns w c) \<noteq> CONN_OPEN then (None, w)
          else case csp_queue_dequeue (c_rx_queue (conns w c)) timeout of
            (x, q) \<Rightarrow> (x, set_conn c ((conns w c)\<lparr>c_rx_queue := q\<rparr>) w))"

definition csp_recvfrom ::
  "nat option \<Rightarrow> u32 \<Rightarrow> ('a) csp_cn_scheme \<Rightarrow> (nat option \<times> ('a) csp_cn_scheme) option" where
  "csp_recvfrom sock timeout w =
     (case sock of
        None \<Rightarrow> Some (None, w)
      | Some s \<Rightarrow>
          if s_opts (sockets w s) AND CSP_SO_CONN_LESS = 0 then Some (None, w)
          else case csp_queue_dequeue (rx_queue (sockets w s)) timeout of
            (Some (RxPacket p), q) \<Rightarrow> Some (Some p, set_socket s ((sockets w s)\<lparr>rx_queue := q\<rparr>) w)
          | (Some (RxConn c), q) \<Rightarrow> None
          | (None, q) \<Rightarrow> Some (None, set_socket s ((sockets w s)\<lparr>rx_queue := q\<rparr>) w))"

section \<open>Sending\<close>

definition csp_send ::
  "('a) driver \<Rightarrow> nat option \<Rightarrow> nat option \<Rightarrow> ('a) csp_cn_scheme \<Rightarrow> ('a) csp_cn_scheme option" where
  "csp_send drv conn packet w =
     (case packet of
        None \<Rightarrow> Some w
      | Some p \<Rightarrow>
          (case conn of
             None \<Rightarrow> Some (csp_buffer_free (Some p) w)
           | Some c \<Rightarrow>
               if c_state (conns w c) \<noteq> CONN_OPEN then Some (csp_buffer_free (Some p) w)
               else csp_send_direct drv (IdOut c) p None w))"

definition csp_send_prio ::
  "('a) driver \<Rightarrow> u8 \<Rightarrow> nat option \<Rightarrow> nat option \<Rightarrow> ('a) csp_cn_scheme \<Rightarrow> ('a) csp_cn_scheme option" where
  "csp_send_prio drv prio conn packet w =
     (case conn of
        None \<Rightarrow> None
      | Some c \<Rightarrow>
          let w = set_conn c ((conns w c)\<lparr>idout := (idout (conns w c))\<lparr>pri := prio\<rparr>\<rparr>) w
          in csp_send drv conn packet w)"

definition or_flags :: "u8 \<Rightarrow> csp_packet \<Rightarrow> csp_packet" where
  "or_flags f p = p\<lparr>p_id := (p_id p)\<lparr>flags := flags (p_id p) OR f\<rparr>\<rparr>"

definition csp_sendto ::
  "('a) driver \<Rightarrow> u8 \<Rightarrow> u16 \<Rightarrow> u8 \<Rightarrow> u8 \<Rightarrow> u32 \<Rightarrow> nat \<Rightarrow> ('a) csp_cn_scheme \<Rightarrow> ('a) csp_cn_scheme option" where
  "csp_sendto drv prio dest dp src_port opts packet w =
     (let w = (if opts AND CSP_O_SAME = 0
               then set_pkt packet ((pkt w packet)\<lparr>p_id := (p_id (pkt w packet))\<lparr>flags := 0\<rparr>\<rparr>) w else w)
      in if opts AND CSP_O_RDP \<noteq> 0 then
           Some (csp_buffer_free (Some packet) (set_errno CSP_DBG_ERR_UNSUPPORTED w))
         else if opts AND CSP_O_HMAC \<noteq> 0 \<and> \<not> use_hmac w then
           Some (csp_buffer_free (Some packet) (set_errno CSP_DBG_ERR_UNSUPPORTED w))
         else
           let w = (if opts AND CSP_O_HMAC \<noteq> 0 then set_pkt packet (or_flags CSP_FHMAC (pkt w packet)) w else w);
               w = (if opts AND CSP_O_CRC32 \<noteq> 0 then set_pkt packet (or_flags CSP_FCRC32 (pkt w packet)) w else w);
               k = pkt w packet;
               w = set_pkt packet (k\<lparr>p_id := (p_id k)\<lparr>dst := dest, dport := dp, sport := src_port, pri := prio\<rparr>\<rparr>) w
           in csp_send_direct drv (IdOfPacket packet) packet None w)"

text \<open>The request and the reply may be the same packet: every field is read from the state at that point.\<close>

definition csp_sendto_reply ::
  "('a) driver \<Rightarrow> nat option \<Rightarrow> nat \<Rightarrow> u32 \<Rightarrow> ('a) csp_cn_scheme \<Rightarrow> ('a) csp_cn_scheme option" where
  "csp_sendto_reply drv request reply opts w =
     (case request of
        None \<Rightarrow> Some w
      | Some q \<Rightarrow>
          let w = (if opts AND CSP_O_SAME \<noteq> 0
                   then set_pkt reply ((pkt w reply)\<lparr>p_id := (p_id (pkt w reply))\<lparr>flags := flags (p_id (pkt w q))\<rparr>\<rparr>) w
                   else w);
              dest = src (p_id (pkt w q));
              from = (if dst (p_id (pkt w q)) \<noteq> csp_id_get_max_nodeid (version (csp_conf w))
                      then dst (p_id (pkt w q)) else 0);
              w = set_pkt reply ((pkt w reply)\<lparr>p_id := (p_id (pkt w reply))\<lparr>src := from\<rparr>\<rparr>) w;
              r = p_id (pkt w q)
          in csp_sendto drv (pri r) dest (sport r) (dport r) opts reply w)"

section \<open>Transactions\<close>

text \<open>\<open>memcpy\<close> into the payload of a packet.\<close>

definition data_put :: "nat \<Rightarrow> u8 list \<Rightarrow> csp_packet \<Rightarrow> csp_packet" where
  "data_put off bs p = p\<lparr>area := mem_put (area p) (DATA_OFF + off) bs\<rparr>"

text \<open>
  \<open>outbuf\<close> and \<open>outlen\<close> are the request; the result is the returned status and the bytes written to
  \<open>inbuf\<close>. The \<open>int\<close> of the target has 16 bits, so a length is read back with its sign.
\<close>

definition csp_transaction_persistent ::
  "('a) driver \<Rightarrow> (('a) csp_cn_scheme \<Rightarrow> ('a) csp_cn_scheme) \<Rightarrow> nat option \<Rightarrow> u32 \<Rightarrow> u8 list option \<Rightarrow> int \<Rightarrow> int \<Rightarrow>
     ('a) csp_cn_scheme \<Rightarrow> (int \<times> u8 list \<times> ('a) csp_cn_scheme) option" where
  "csp_transaction_persistent drv env conn timeout outbuf outlen inlen w =
     (if int CSP_BUFFER_SIZE < outlen then Some (0, [], w)
      else case csp_buffer_get w of
        (None, w) \<Rightarrow> Some (0, [], w)
      | (Some packet, w) \<Rightarrow>
          let w = (case outbuf of
                     None \<Rightarrow> w
                   | Some bs \<Rightarrow> if 0 < outlen then set_pkt packet (data_put 0 (take (nat outlen) bs) (pkt w packet)) w else w);
              w = set_pkt packet ((pkt w packet)\<lparr>p_length := word_of_int outlen\<rparr>) w
          in case csp_send drv conn (Some packet) w of
               None \<Rightarrow> None
             | Some w \<Rightarrow>
                 if inlen = 0 then Some (1, [], w)
                 else case csp_read conn timeout (env w) of
                   (None, w) \<Rightarrow> Some (0, [], w)
                 | (Some packet, w) \<Rightarrow>
                     if inlen \<noteq> -1 \<and> sint (p_length (pkt w packet)) \<noteq> inlen then
                       (let w = w\<lparr>dbg_inval_reply := dbg_inval_reply w + 1\<rparr>
                        in Some (0, [], csp_buffer_free (Some packet) w))
                     else Some (sint (p_length (pkt w packet)), payload (pkt w packet), csp_buffer_free (Some packet) w))"

definition csp_transaction_w_opts ::
  "('a) driver \<Rightarrow> (('a) csp_cn_scheme \<Rightarrow> ('a) csp_cn_scheme) \<Rightarrow> u8 \<Rightarrow> u16 \<Rightarrow> u8 \<Rightarrow> u32 \<Rightarrow> u8 list option \<Rightarrow> int \<Rightarrow> int \<Rightarrow>
     u32 \<Rightarrow> ('a) csp_cn_scheme \<Rightarrow> (int \<times> u8 list \<times> ('a) csp_cn_scheme) option" where
  "csp_transaction_w_opts drv env prio dest port timeout outbuf outlen inlen opts w =
     (case csp_connect prio dest port 0 opts w of
        (None, w) \<Rightarrow> Some (0, [], w)
      | (Some c, w) \<Rightarrow>
          (case csp_transaction_persistent drv env (Some c) timeout outbuf outlen inlen w of
             None \<Rightarrow> None
           | Some (status, bs, w) \<Rightarrow> Some (status, bs, snd (csp_close (Some c) w))))"

text \<open>The inline function of \<open>csp.h\<close>.\<close>

definition csp_transaction ::
  "('a) driver \<Rightarrow> (('a) csp_cn_scheme \<Rightarrow> ('a) csp_cn_scheme) \<Rightarrow> u8 \<Rightarrow> u16 \<Rightarrow> u8 \<Rightarrow> u32 \<Rightarrow> u8 list option \<Rightarrow> int \<Rightarrow> int \<Rightarrow>
     ('a) csp_cn_scheme \<Rightarrow> (int \<times> u8 list \<times> ('a) csp_cn_scheme) option" where
  "csp_transaction drv env prio dest port timeout outbuf outlen inlen w =
     csp_transaction_w_opts drv env prio dest port timeout outbuf outlen inlen 0 w"

end
