(* ===== verification/System_Inv.thy ===== *)
theory System_Inv
  imports Api
begin

text \<open>
  The invariant of the running node: the references of the pool are accounted for (\<open>own_inv\<close>) and the
  tables refer only to what exists (\<open>net_ok\<close>). A socket's queue holds packets exactly when the socket is
  connection-less, connections belong to sockets that take connections, and the ports that identify open
  connections do not collide.
\<close>

section \<open>Well-formed tables\<close>

definition conn_less :: "('a) csp_cn_scheme \<Rightarrow> nat \<Rightarrow> bool" where
  "conn_less w s \<longleftrightarrow> s_opts (sockets w s) AND CSP_SO_CONN_LESS \<noteq> 0"

definition conn_ok :: "('a) csp_cn_scheme \<Rightarrow> nat \<Rightarrow> csp_conn \<Rightarrow> bool" where
  "conn_ok w c k \<longleftrightarrow>
     sport_outgoing k = of_nat (CSP_PORT_MAX_BIND + 1 + c) \<and>
     (c_state k = CONN_OPEN \<longrightarrow>
        (\<forall>s. dest_socket k = Some s \<longrightarrow> s < n_sockets w \<and> \<not> conn_less w s) \<and>
        (if c_type k = CONN_CLIENT then dport (idin k) = sport_outgoing k
         else unat (dport (idin k)) \<le> CSP_PORT_MAX_BIND))"

definition item_ok :: "bool \<Rightarrow> rx_item \<Rightarrow> bool" where
  "item_ok packets it \<longleftrightarrow> (case it of RxPacket p \<Rightarrow> packets | RxConn c \<Rightarrow> \<not> packets \<and> c < CSP_CONN_MAX)"

definition conns_ok :: "('a) csp_cn_scheme \<Rightarrow> bool" where
  "conns_ok w \<longleftrightarrow> (\<forall>c < CSP_CONN_MAX. conn_ok w c (conns w c))"

definition socks_ok :: "('a) csp_cn_scheme \<Rightarrow> bool" where
  "socks_ok w \<longleftrightarrow> (\<forall>s < n_sockets w. list_all (item_ok (conn_less w s)) (qh_items (rx_queue (sockets w s))))"

definition net_ok :: "('a) csp_cn_scheme \<Rightarrow> bool" where
  "net_ok w \<longleftrightarrow> ports_ok w \<and> routes_ok w \<and> distinct (interfaces w) \<and> csp_hmac_key w \<noteq> [] \<and> dedup_ok w \<and>
     conns_ok w \<and> socks_ok w"

definition sys_ok :: "nat multiset \<Rightarrow> ('a) csp_cn_scheme \<Rightarrow> bool" where
  "sys_ok X w \<longleftrightarrow> own_inv X w \<and> net_ok w"

lemma sys_ok_own: "sys_ok X w \<Longrightarrow> own_inv X w"
  by (simp add: sys_ok_def)

section \<open>What leaves the tables alone\<close>

lemma net_ok_frame [frame_simps]:
  "net_ok (w\<lparr>pool := p\<rparr>) = net_ok w" "net_ok (w\<lparr>csp_buffers := q\<rparr>) = net_ok w" "net_ok (w\<lparr>dbg_errno := e\<rparr>) = net_ok w"
  "net_ok (w\<lparr>dbg_conn_ovf := n\<rparr>) = net_ok w" "net_ok (w\<lparr>dbg_conn_out := n\<rparr>) = net_ok w"
  "net_ok (w\<lparr>dbg_inval_reply := n\<rparr>) = net_ok w" "net_ok (w\<lparr>csp_conn_last_given := g\<rparr>) = net_ok w"
  "net_ok (w\<lparr>qfifo_queue_handle := qq\<rparr>) = net_ok w" "net_ok (w\<lparr>csp_promisc_queue := pq\<rparr>) = net_ok w"
  "net_ok (w\<lparr>ifaces := f\<rparr>) = net_ok w"
  by (simp_all add: net_ok_def ports_ok_def routes_ok_def dedup_ok_def conns_ok_def conn_ok_def socks_ok_def
      conn_less_def)

lemma net_ok_sent:
  assumes s: "sent B w w'" and n: "net_ok w"
  shows "net_ok w'"
proof -
  note S = sentD [OF s]
  have "ports_ok w'" "routes_ok w'" "dedup_ok w'"
    using n by (simp_all add: net_ok_def ports_ok_def routes_ok_def dedup_ok_def S(2-20))
  moreover have "conns_ok w'" "socks_ok w'"
    using n by (simp_all add: net_ok_def conns_ok_def conn_ok_def socks_ok_def conn_less_def S(2-20))
  ultimately show ?thesis using n by (simp add: net_ok_def S(2-20))
qed

lemma net_ok_kept: "kept B w w' \<Longrightarrow> net_ok w \<Longrightarrow> net_ok w'"
  by (rule net_ok_sent [OF sent_kept])

lemma net_ok_set_errno [simp]: "net_ok (set_errno e w) = net_ok w"
  by (simp add: set_errno_def frame_simps)

lemma net_ok_set_pkt [simp]: "net_ok (set_pkt b k w) = net_ok w"
  by (simp add: set_pkt_def frame_simps)

lemma net_ok_free [simp]: "net_ok (csp_buffer_free p w) = net_ok w"
  by (subst csp_buffer_free_more) (simp add: frame_simps)

lemma net_ok_set_iface [simp]: "net_ok (set_iface i f w) = net_ok w"
  by (simp add: set_iface_def frame_simps)

lemma net_ok_set_conn: "net_ok w \<Longrightarrow> conn_ok w c k \<Longrightarrow> net_ok (set_conn c k w)"
  by (auto simp: net_ok_def set_conn_def ports_ok_def routes_ok_def dedup_ok_def conns_ok_def conn_ok_def socks_ok_def
      conn_less_def)

lemma net_ok_conn: "net_ok w \<Longrightarrow> c < CSP_CONN_MAX \<Longrightarrow> conn_ok w c (conns w c)"
  by (simp add: net_ok_def conns_ok_def)

lemma net_ok_set_socket:
  assumes n: "net_ok w" and o: "s_opts k = s_opts (sockets w s)" and q: "list_all (item_ok (conn_less w s)) (qh_items (rx_queue k))"
  shows "net_ok (set_socket s k w)"
proof -
  have "conn_less (set_socket s k w) = conn_less w"
    using o by (auto simp: conn_less_def set_socket_def fun_eq_iff)
  then show ?thesis
    using n q by (auto simp: net_ok_def set_socket_def ports_ok_def routes_ok_def dedup_ok_def conns_ok_def conn_ok_def
        socks_ok_def)
qed

lemma net_ok_items: "net_ok w \<Longrightarrow> s < n_sockets w \<Longrightarrow> list_all (item_ok (conn_less w s)) (qh_items (rx_queue (sockets w s)))"
  by (simp add: net_ok_def socks_ok_def)

text \<open>Only the queue of the connection changed.\<close>

lemma conn_ok_queue [simp]:
  "conn_ok w c (k\<lparr>c_rx_queue := q\<rparr>) = conn_ok w c k" "conn_ok w c (k\<lparr>c_timestamp := t\<rparr>) = conn_ok w c k"
  "conn_ok w c (k\<lparr>idout := i\<rparr>) = conn_ok w c k" "conn_ok w c (k\<lparr>c_opts := op\<rparr>) = conn_ok w c k"
  by (simp_all add: conn_ok_def)

lemma conn_ok_closed: "conn_ok w c k \<Longrightarrow> conn_ok w c (k\<lparr>c_state := CONN_CLOSED\<rparr>)"
  by (simp add: conn_ok_def)

section \<open>Sending\<close>

lemma sys_send_direct:
  assumes "transmitter drv" and s: "sys_ok (add_mset p X) w" and "\<And>b. ref = IdOfPacket b \<Longrightarrow> b = p"
  shows "\<exists>w'. csp_send_direct drv ref p rf w = Some w' \<and> sys_ok X w' \<and> sent (set_mset X - {p}) w w'"
proof -
  have "sending p X w" "routes_ok w" using s by (simp_all add: sending_def sys_ok_def net_ok_def)
  then obtain w' where "csp_send_direct drv ref p rf w = Some w'" "own_inv X w'" "sent (set_mset X - {p}) w w'"
    using send_direct_main [OF assms(1) _ assms(3)] by blast
  then show ?thesis using net_ok_sent s by (auto simp: sys_ok_def)
qed

lemma sys_free: "sys_ok (add_mset p X) w \<Longrightarrow> sys_ok X (csp_buffer_free (Some p) w)"
  by (simp add: sys_ok_def own_free)

lemma sys_set_pkt: "sys_ok X w \<Longrightarrow> packet_ok k \<Longrightarrow> sys_ok X (set_pkt b k w)"
  by (simp add: sys_ok_def own_set_pkt)

lemma sys_packet: "sys_ok X w \<Longrightarrow> b \<in># X \<Longrightarrow> packet_ok (pkt w b)"
  using own_packet by (auto simp: sys_ok_def)

text \<open>A packet that keeps its data area and its length stays a packet, whatever its identifier is.\<close>

lemma packet_ok_id [simp]: "packet_ok (k\<lparr>p_id := i\<rparr>) = packet_ok k"
  by (simp add: packet_ok_def)

lemma sys_get:
  assumes s: "sys_ok X w" and g: "csp_buffer_get w = (x, w')"
  shows "case x of None \<Rightarrow> sys_ok X w' | Some b \<Rightarrow> b \<notin># X \<and> sys_ok (add_mset b X) w' \<and> pkt w' b = csp_packet_init (pkt w b)"
    and "kept (set_mset X) w w'"
proof -
  note G = own_get [OF sys_ok_own [OF s] g]
  show "kept (set_mset X) w w'" by (fact G(2))
  have "net_ok w'" using net_ok_kept [OF G(2)] s by (simp add: sys_ok_def)
  then show "case x of None \<Rightarrow> sys_ok X w' | Some b \<Rightarrow> b \<notin># X \<and> sys_ok (add_mset b X) w' \<and> pkt w' b = csp_packet_init (pkt w b)"
    using G(1) by (auto simp: sys_ok_def split: option.splits)
qed

end
