(* ===== verification/Api_Own.thy ===== *)
theory Api_Own
  imports System_Inv
begin

text \<open>
  The application interface keeps the invariant of the node: what a client passes in is consumed, what it
  gets back is its own. What runs between a send and a read (interrupts, the router) is the locale
  \<open>environment\<close>.
\<close>

section \<open>Receiving\<close>

lemma read_ok:
  assumes s: "sys_ok X w" and c: "c < CSP_CONN_MAX" and r: "csp_read (Some c) t w = (x, w')"
  shows "sys_ok (case x of None \<Rightarrow> X | Some p \<Rightarrow> add_mset p X) w'"
proof (cases "c_state (conns w c) = CONN_OPEN")
  case False
  then show ?thesis using r s by (auto simp: csp_read_def)
next
  case True
  obtain q where d: "csp_queue_dequeue (c_rx_queue (conns w c)) t = (x, q)"
    and w': "w' = set_conn c ((conns w c)\<lparr>c_rx_queue := q\<rparr>) w"
    using r True by (auto simp: csp_read_def split: prod.splits)
  note D = dequeue_mset [OF own_conn_queue_ok [OF sys_ok_own [OF s] c] d]
  have "own_inv (case x of None \<Rightarrow> X | Some p \<Rightarrow> add_mset p X) w'"
    unfolding w' by (rule own_conn_move [OF sys_ok_own [OF s] c]) (use D in \<open>auto split: option.splits\<close>)
  moreover have "net_ok w'"
    unfolding w' using net_ok_conn [of w c] s c by (intro net_ok_set_conn) (auto simp: sys_ok_def)
  ultimately show ?thesis by (simp add: sys_ok_def)
qed

text \<open>A socket's queue with one item less.\<close>

lemma socket_dequeue_ok:
  assumes s: "sys_ok X w" and n: "s < n_sockets w" and d: "csp_queue_dequeue (rx_queue (sockets w s)) t = (x, q)"
  shows "sys_ok (case x of None \<Rightarrow> X | Some it \<Rightarrow> X + item_refs it) (set_socket s ((sockets w s)\<lparr>rx_queue := q\<rparr>) w)"
    and "x = Some it \<Longrightarrow> item_ok (conn_less w s) it"
proof -
  note D = dequeue_mset [OF own_socket_queue_ok [OF sys_ok_own [OF s] n] d]
  have items: "list_all (item_ok (conn_less w s)) (qh_items (rx_queue (sockets w s)))"
    using net_ok_items [of w s] s n by (simp add: sys_ok_def)
  have "own_inv (case x of None \<Rightarrow> X | Some it \<Rightarrow> X + item_refs it) (set_socket s ((sockets w s)\<lparr>rx_queue := q\<rparr>) w)"
    by (rule own_socket_move [OF sys_ok_own [OF s] n]) (use D in \<open>auto split: option.splits\<close>)
  moreover have "net_ok (set_socket s ((sockets w s)\<lparr>rx_queue := q\<rparr>) w)"
    using s items D(2,3) by (intro net_ok_set_socket) (auto simp: sys_ok_def split: option.splits)
  ultimately show "sys_ok (case x of None \<Rightarrow> X | Some it \<Rightarrow> X + item_refs it) (set_socket s ((sockets w s)\<lparr>rx_queue := q\<rparr>) w)"
    by (simp add: sys_ok_def)
  show "x = Some it \<Longrightarrow> item_ok (conn_less w s) it" using items D(2) by simp
qed

lemma accept_ok:
  assumes s: "sys_ok X w" and n: "s < n_sockets w" and l: "\<not> conn_less w s"
  shows "\<exists>x w'. csp_accept (Some s) t w = Some (x, w') \<and> sys_ok X w' \<and> (\<forall>c. x = Some c \<longrightarrow> c < CSP_CONN_MAX)"
proof (cases "rx_queue (sockets w s) = None")
  case True
  then show ?thesis using s by (simp add: csp_accept_def sys_ok_def)
next
  case False
  obtain x q where d: "csp_queue_dequeue (rx_queue (sockets w s)) t = (x, q)" by fastforce
  note D = socket_dequeue_ok [OF s n d]
  show ?thesis
  proof (cases x)
    case None
    then show ?thesis using False d D(1) by (auto simp: csp_accept_def)
  next
    case (Some it)
    obtain c where it: "it = RxConn c" "c < CSP_CONN_MAX"
      using D(2) [OF Some] l by (cases it) (auto simp: item_ok_def)
    then show ?thesis using False d D(1) Some by (auto simp: csp_accept_def)
  qed
qed

lemma recvfrom_ok:
  assumes s: "sys_ok X w" and n: "s < n_sockets w"
  shows "\<exists>x w'. csp_recvfrom (Some s) t w = Some (x, w') \<and> sys_ok (case x of None \<Rightarrow> X | Some p \<Rightarrow> add_mset p X) w'"
proof (cases "conn_less w s")
  case False
  then show ?thesis using s by (simp add: csp_recvfrom_def conn_less_def)
next
  case True
  then have l: "s_opts (sockets w s) AND CSP_SO_CONN_LESS \<noteq> 0" by (simp add: conn_less_def)
  obtain x q where d: "csp_queue_dequeue (rx_queue (sockets w s)) t = (x, q)" by fastforce
  note D = socket_dequeue_ok [OF s n d]
  show ?thesis
  proof (cases x)
    case None
    then show ?thesis using l d D(1) by (simp add: csp_recvfrom_def)
  next
    case (Some it)
    obtain p where "it = RxPacket p"
      using D(2) [OF Some] True by (cases it) (auto simp: item_ok_def)
    then show ?thesis using l d D(1) Some by (simp add: csp_recvfrom_def)
  qed
qed

section \<open>Sending\<close>

lemma send_ok:
  assumes "transmitter drv" and s: "sys_ok (add_mset p X) w"
  shows "\<exists>w'. csp_send drv conn (Some p) w = Some w' \<and> sys_ok X w' \<and> sent (set_mset X - {p}) w w'"
proof -
  have f: "sys_ok X (csp_buffer_free (Some p) w) \<and> sent (set_mset X - {p}) w (csp_buffer_free (Some p) w)"
    using sys_free [OF s] sent_kept [OF kept_free] by blast
  show ?thesis
  proof (cases conn)
    case None
    then show ?thesis using f by (simp add: csp_send_def)
  next
    case (Some c)
    then show ?thesis using f sys_send_direct [OF assms, of "IdOut c" None] by (simp add: csp_send_def)
  qed
qed

lemma or_flags_ok [simp]: "packet_ok (or_flags f p) = packet_ok p"
  by (simp add: or_flags_def)

lemma sys_set_own_pkt:
  assumes "sys_ok (add_mset p X) w" and "packet_ok (pkt w p) \<Longrightarrow> packet_ok k"
  shows "sys_ok (add_mset p X) (set_pkt p k w)"
  using sys_set_pkt [OF assms(1)] assms sys_packet [OF assms(1), of p] by simp

lemma sendto_ok:
  assumes "transmitter drv" and s: "sys_ok (add_mset p X) w"
  shows "\<exists>w'. csp_sendto drv prio dest dp sp opts p w = Some w' \<and> sys_ok X w'"
proof -
  define w1 where "w1 = (if opts AND CSP_O_SAME = 0
               then set_pkt p ((pkt w p)\<lparr>p_id := (p_id (pkt w p))\<lparr>flags := 0\<rparr>\<rparr>) w else w)"
  have s1: "sys_ok (add_mset p X) w1" using s by (simp add: w1_def sys_set_own_pkt)
  define w2 where "w2 = (if opts AND CSP_O_HMAC \<noteq> 0 then set_pkt p (or_flags CSP_FHMAC (pkt w1 p)) w1 else w1)"
  have s2: "sys_ok (add_mset p X) w2" using s1 by (simp add: w2_def sys_set_own_pkt)
  define w3 where "w3 = (if opts AND CSP_O_CRC32 \<noteq> 0 then set_pkt p (or_flags CSP_FCRC32 (pkt w2 p)) w2 else w2)"
  have s3: "sys_ok (add_mset p X) w3" using s2 by (simp add: w3_def sys_set_own_pkt)
  define w4 where "w4 = set_pkt p ((pkt w3 p)\<lparr>p_id := (p_id (pkt w3 p))\<lparr>dst := dest, dport := dp, sport := sp, pri := prio\<rparr>\<rparr>) w3"
  have s4: "sys_ok (add_mset p X) w4" using s3 by (simp add: w4_def sys_set_own_pkt)
  have f: "sys_ok X (csp_buffer_free (Some p) (set_errno CSP_DBG_ERR_UNSUPPORTED w1))"
    using s1 by (intro sys_free) (simp add: sys_ok_def)
  have "csp_sendto drv prio dest dp sp opts p w =
      (if opts AND CSP_O_RDP \<noteq> 0 \<or> opts AND CSP_O_HMAC \<noteq> 0 \<and> \<not> use_hmac w1 then
         Some (csp_buffer_free (Some p) (set_errno CSP_DBG_ERR_UNSUPPORTED w1))
       else csp_send_direct drv (IdOfPacket p) p None w4)"
    by (simp add: csp_sendto_def Let_def flip: w1_def w2_def w3_def w4_def)
  then show ?thesis using f sys_send_direct [OF assms(1) s4, of "IdOfPacket p" None] by auto
qed

lemma sendto_reply_ok:
  assumes "transmitter drv" and s: "sys_ok (add_mset p X) w"
  shows "\<exists>w'. csp_sendto_reply drv (Some q) p opts w = Some w' \<and> sys_ok X w'"
proof -
  define w1 where "w1 = (if opts AND CSP_O_SAME \<noteq> 0
      then set_pkt p ((pkt w p)\<lparr>p_id := (p_id (pkt w p))\<lparr>flags := flags (p_id (pkt w q))\<rparr>\<rparr>) w else w)"
  have s1: "sys_ok (add_mset p X) w1" using s by (simp add: w1_def sys_set_own_pkt)
  show ?thesis
    using sendto_ok [OF assms(1) sys_set_own_pkt [OF s1]]
    by (simp add: csp_sendto_reply_def Let_def flip: w1_def)
qed

section \<open>Connections\<close>

lemma close_ok:
  assumes s: "sys_ok X w" and c: "c < CSP_CONN_MAX"
  shows "sys_ok X (snd (csp_close (Some c) w))"
proof -
  obtain pl b e q where u: "csp_conn_flush_rx_queue c w =
      w\<lparr>pool := pl, csp_buffers := b, dbg_errno := e, conns := (conns w)(c := (conns w c)\<lparr>c_rx_queue := q\<rparr>)\<rparr>"
    using flush_upd by blast
  let ?v = "w\<lparr>pool := pl, csp_buffers := b, dbg_errno := e\<rparr>"
  have "conn_ok w c ((conns w c)\<lparr>c_rx_queue := q, c_state := CONN_CLOSED\<rparr>)"
    using net_ok_conn [of w c] s c by (simp add: sys_ok_def conn_ok_closed)
  then have "net_ok (set_conn c ((conns w c)\<lparr>c_rx_queue := q, c_state := CONN_CLOSED\<rparr>) ?v)"
    using s by (intro net_ok_set_conn) (simp_all add: sys_ok_def frame_simps conn_ok_def conn_less_def)
  moreover have "set_conn c ((conns (csp_conn_flush_rx_queue c w) c)\<lparr>c_state := CONN_CLOSED\<rparr>) (csp_conn_flush_rx_queue c w) =
      set_conn c ((conns w c)\<lparr>c_rx_queue := q, c_state := CONN_CLOSED\<rparr>) ?v"
    by (simp add: u set_conn_def)
  ultimately have "net_ok (snd (csp_close (Some c) w))"
    using s by (simp add: csp_close_def csp_conn_close_eq sys_ok_def)
  then show ?thesis
    using own_close [OF sys_ok_own [OF s] c] by (simp add: sys_ok_def csp_close_def)
qed

lemma conn_new_net:
  assumes n: "csp_conn_new a b ty w = (Some c, w')" and s: "sys_ok X w"
    and k: "\<And>q. qh_items q = [] \<Longrightarrow> conn_ok w c (f ((conns w c)\<lparr>c_state := CONN_OPEN, c_type := ty, idin := a, idout := b,
         c_timestamp := csp_get_ms w, c_rx_queue := q\<rparr>))"
    and q: "\<And>k. c_rx_queue (f k) = c_rx_queue k"
  shows "sys_ok X (set_conn c (f (conns w' c)) w')"
proof -
  note N = conn_new_Some [OF n sys_ok_own [OF s]]
  obtain pl bu e q where u: "w' = w\<lparr>csp_conn_last_given := 0, pool := pl, csp_buffers := bu, dbg_errno := e,
       conns := (conns w)(c := (conns w c)\<lparr>c_state := CONN_OPEN, c_type := ty, idin := a, idout := b,
         c_timestamp := csp_get_ms w, c_rx_queue := q\<rparr>)\<rparr>" and e: "qh_items q = []"
    using N(4) by blast
  let ?v = "w\<lparr>csp_conn_last_given := 0, pool := pl, csp_buffers := bu, dbg_errno := e\<rparr>"
  have "own_inv X (set_conn c (f (conns w' c)) w')" by (rule own_conn_same_queue [OF N(3)]) (simp add: q)
  moreover have "net_ok (set_conn c (f (conns w' c)) ?v)"
    using s k [OF e] by (intro net_ok_set_conn) (simp_all add: sys_ok_def frame_simps u conn_ok_def conn_less_def)
  moreover have "set_conn c (f (conns w' c)) ?v = set_conn c (f (conns w' c)) w'" by (simp add: u set_conn_def)
  ultimately show ?thesis by (simp add: sys_ok_def)
qed

lemma connect_ok:
  assumes s: "sys_ok X w" and cn: "csp_connect prio dest dp t opts w = (x, w')"
  shows "sys_ok X w'"
    and "x = Some c \<Longrightarrow> c < CSP_CONN_MAX \<and> c_state (conns w' c) = CONN_OPEN \<and> qh_items (c_rx_queue (conns w' c)) = []"
proof -
  let ?in = "\<lparr>pri = prio, flags = opt_flags (eff_opts w opts), src = dest, dst = 0, dport = 0, sport = dp\<rparr>"
  let ?out = "\<lparr>pri = prio, flags = opt_flags (eff_opts w opts), src = 0, dst = dest, dport = dp, sport = 0\<rparr>"
  let ?f = "\<lambda>k. k\<lparr>idout := (idout k)\<lparr>sport := sport_outgoing k\<rparr>, idin := (idin k)\<lparr>dport := sport_outgoing k\<rparr>,
      dest_socket := None, c_opts := eff_opts w opts\<rparr>"
  obtain y v where new: "csp_conn_new ?in ?out CONN_CLIENT w = (y, v)" by fastforce
  have "sys_ok X w' \<and> (x = Some c \<longrightarrow> c < CSP_CONN_MAX \<and> c_state (conns w' c) = CONN_OPEN \<and> qh_items (c_rx_queue (conns w' c)) = [])"
  proof (cases "unsupported w opts")
    case True
    then show ?thesis using cn s by (auto simp: csp_connect_eq sys_ok_def)
  next
    case False
    show ?thesis
    proof (cases y)
      case None
      then show ?thesis using False cn new conn_new_None [of ?in ?out CONN_CLIENT w v] s
        by (simp add: csp_connect_eq sys_ok_def frame_simps)
    next
      case (Some d)
      note N = conn_new_Some [OF new [unfolded Some] sys_ok_own [OF s]]
      have e: "x = Some d" "w' = set_conn d (?f (conns v d)) v"
        using cn False new Some by (simp_all add: csp_connect_eq)
      have "sys_ok X w'" unfolding e
        by (rule conn_new_net [OF new [unfolded Some] s])
          (use net_ok_conn [of w d] N(1) s in \<open>simp_all add: conn_ok_def sys_ok_def\<close>)
      moreover have "c_state (conns w' d) = CONN_OPEN" "qh_items (c_rx_queue (conns w' d)) = []"
        using N(4) by (auto simp: e set_conn_def)
      ultimately show ?thesis using N(1) e(1) by simp
    qed
  qed
  then show "sys_ok X w'"
    and "x = Some c \<Longrightarrow> c < CSP_CONN_MAX \<and> c_state (conns w' c) = CONN_OPEN \<and> qh_items (c_rx_queue (conns w' c)) = []"
    by auto
qed

section \<open>Transactions\<close>

text \<open>What happens between a send and a read keeps the invariant.\<close>

locale environment =
  fixes env :: "('a) csp_cn_scheme \<Rightarrow> ('a) csp_cn_scheme"
  assumes env_ok: "sys_ok X w \<Longrightarrow> sys_ok X (env w)"
begin

text \<open>So does a read after it: what it returns is a packet.\<close>

lemma read_after:
  assumes "sys_ok X w" and "c < CSP_CONN_MAX" and "csp_read (Some c) t (env w) = (Some p, w')"
  shows "sys_ok (add_mset p X) w'" and "packet_ok (pkt w' p)"
proof -
  show s: "sys_ok (add_mset p X) w'" using read_ok [OF env_ok [OF assms(1)] assms(2,3)] by simp
  show "packet_ok (pkt w' p)" by (rule sys_packet [OF s]) simp
qed

end

interpretation quiet: environment "\<lambda>w. w"
  by unfold_locales

lemma data_put_ok:
  assumes "packet_ok k" and "off + length bs \<le> CSP_BUFFER_SIZE"
  shows "packet_ok (data_put off bs k)"
  using assms by (simp add: packet_ok_def data_put_def)

text \<open>A length is small enough to be read back as a signed 16-bit number.\<close>

lemma sint_small: "unat x \<le> 256 \<Longrightarrow> sint (x :: u16) = int (unat x)"
proof -
  assume "unat x \<le> 256"
  then have "int (unat x) \<le> 256" by linarith
  then have "uint x \<le> 256" by simp
  moreover have "0 \<le> uint x" by simp
  ultimately have "- (2 ^ 15) \<le> uint x \<and> uint x < 2 ^ 15" by (simp add: order.trans [of _ "0 :: int"])
  then show ?thesis by (simp add: sint_uint signed_take_bit_int_eq_self)
qed

text \<open>Filling a fresh packet with the request.\<close>

definition request_packet :: "u8 list option \<Rightarrow> int \<Rightarrow> nat \<Rightarrow> ('a) csp_cn_scheme \<Rightarrow> ('a) csp_cn_scheme" where
  "request_packet outbuf outlen p w =
     (let w = (case outbuf of
                 None \<Rightarrow> w
               | Some bs \<Rightarrow> if 0 < outlen then set_pkt p (data_put 0 (take (nat outlen) bs) (pkt w p)) w else w)
      in set_pkt p ((pkt w p)\<lparr>p_length := word_of_int outlen\<rparr>) w)"

lemma request_packet_ok:
  assumes s: "sys_ok (add_mset p X) w" and l: "0 \<le> outlen" "outlen \<le> 256"
  shows "sys_ok (add_mset p X) (request_packet outbuf outlen p w)"
proof -
  define w1 where "w1 = (case outbuf of
                 None \<Rightarrow> w
               | Some bs \<Rightarrow> if 0 < outlen then set_pkt p (data_put 0 (take (nat outlen) bs) (pkt w p)) w else w)"
  have "length (take (nat outlen) bs) \<le> 256" for bs :: "u8 list" using l by (simp add: min_def) arith
  then have s1: "sys_ok (add_mset p X) w1"
    using s by (auto simp: w1_def intro!: sys_set_own_pkt data_put_ok split: option.split)
  obtain n where "outlen = int n" using l by (auto elim: nonneg_int_cases)
  then have "unat (word_of_int outlen :: u16) \<le> 256" using l by (simp add: unat_of_nat take_bit_eq_mod)
  then have "packet_ok (k\<lparr>p_length := word_of_int outlen\<rparr>)" if "packet_ok k" for k
    using that by (simp add: packet_ok_def)
  then have "sys_ok (add_mset p X) (set_pkt p ((pkt w1 p)\<lparr>p_length := word_of_int outlen\<rparr>) w1)"
    by (intro sys_set_own_pkt s1)
  then show ?thesis by (simp add: request_packet_def Let_def w1_def)
qed

lemma request_packet_frame:
  "c_rx_queue (conns (request_packet outbuf outlen p w) c) = c_rx_queue (conns w c)"
  by (simp add: request_packet_def Let_def set_pkt_def split: option.split)

lemma transaction_eq:
  "csp_transaction_persistent drv env conn t outbuf outlen inlen w =
     (if int CSP_BUFFER_SIZE < outlen then Some (0, [], w)
      else case csp_buffer_get w of
        (None, w) \<Rightarrow> Some (0, [], w)
      | (Some p, w) \<Rightarrow>
          (case csp_send drv conn (Some p) (request_packet outbuf outlen p w) of
             None \<Rightarrow> None
           | Some w \<Rightarrow>
               if inlen = 0 then Some (1, [], w)
               else case csp_read conn t (env w) of
                 (None, w) \<Rightarrow> Some (0, [], w)
               | (Some p, w) \<Rightarrow>
                   if inlen \<noteq> -1 \<and> sint (p_length (pkt w p)) \<noteq> inlen
                   then Some (0, [], csp_buffer_free (Some p) (w\<lparr>dbg_inval_reply := dbg_inval_reply w + 1\<rparr>))
                   else Some (sint (p_length (pkt w p)), payload (pkt w p), csp_buffer_free (Some p) w)))"
  by (simp only: csp_transaction_persistent_def request_packet_def Let_def)

context environment
begin

lemma persistent_ok:
  assumes d: "transmitter drv" and s: "sys_ok X w" and l: "0 \<le> outlen" and c: "c < CSP_CONN_MAX"
  shows "\<exists>st bs w'. csp_transaction_persistent drv env (Some c) t outbuf outlen inlen w = Some (st, bs, w') \<and>
     sys_ok X w' \<and> length bs \<le> 256 \<and> (bs \<noteq> [] \<longrightarrow> st = int (length bs) \<and> (inlen = -1 \<or> st = inlen))"
proof (cases "256 < outlen")
  case True
  then show ?thesis using s by (simp add: transaction_eq)
next
  case False
  obtain x w1 where g: "csp_buffer_get w = (x, w1)" by fastforce
  note G = sys_get(1) [OF s g]
  show ?thesis
  proof (cases x)
    case None
    then show ?thesis using False g G by (simp add: transaction_eq)
  next
    case (Some p)
    have "sys_ok (add_mset p X) (request_packet outbuf outlen p w1)"
      using G Some l False by (intro request_packet_ok) simp_all
    from send_ok [OF d this, of "Some c"] obtain w2 where
      w2: "csp_send drv (Some c) (Some p) (request_packet outbuf outlen p w1) = Some w2" "sys_ok X w2" by blast
    obtain y w3 where r: "csp_read (Some c) t (env w2) = (y, w3)" by fastforce
    have T: "csp_transaction_persistent drv env (Some c) t outbuf outlen inlen w =
        (if inlen = 0 then Some (1, [], w2)
         else case csp_read (Some c) t (env w2) of
           (None, w) \<Rightarrow> Some (0, [], w)
         | (Some p, w) \<Rightarrow>
             if inlen \<noteq> -1 \<and> sint (p_length (pkt w p)) \<noteq> inlen
             then Some (0, [], csp_buffer_free (Some p) (w\<lparr>dbg_inval_reply := dbg_inval_reply w + 1\<rparr>))
             else Some (sint (p_length (pkt w p)), payload (pkt w p), csp_buffer_free (Some p) w))"
      using False g Some w2(1) by (simp add: transaction_eq)
    show ?thesis
    proof (cases y)
      case None
      then show ?thesis using T w2(2) r read_ok [OF env_ok [OF w2(2)] c r] by simp
    next
      case (Some q)
      note R = read_after [OF w2(2) c r [unfolded Some]]
      have le: "unat (p_length (pkt w3 q)) \<le> 256" using R(2) by (simp add: packet_ok_def)
      then have si: "sint (p_length (pkt w3 q)) = int (unat (p_length (pkt w3 q)))" by (simp add: sint_small)
      have "sys_ok X (csp_buffer_free (Some q) w3)" by (rule sys_free [OF R(1)])
      moreover have "sys_ok X (csp_buffer_free (Some q) (w3\<lparr>dbg_inval_reply := dbg_inval_reply w3 + 1\<rparr>))"
        using R(1) by (intro sys_free) (simp add: sys_ok_def frame_simps)
      ultimately show ?thesis using T w2(2) r Some si le R(2) by simp
    qed
  qed
qed

lemma w_opts_ok:
  assumes d: "transmitter drv" and s: "sys_ok X w" and l: "0 \<le> outlen"
  shows "\<exists>st bs w'. csp_transaction_w_opts drv env prio dest port t outbuf outlen inlen opts w = Some (st, bs, w') \<and>
     sys_ok X w' \<and> length bs \<le> 256 \<and> (bs \<noteq> [] \<longrightarrow> st = int (length bs) \<and> (inlen = -1 \<or> st = inlen))"
proof -
  obtain x w1 where cn: "csp_connect prio dest port 0 opts w = (x, w1)" by fastforce
  note C = connect_ok [OF s cn]
  show ?thesis
  proof (cases x)
    case None
    then show ?thesis using cn C(1) by (simp add: csp_transaction_w_opts_def)
  next
    case (Some c)
    obtain st bs w2 where "csp_transaction_persistent drv env (Some c) t outbuf outlen inlen w1 = Some (st, bs, w2)"
      "sys_ok X w2" "length bs \<le> 256" "bs \<noteq> [] \<longrightarrow> st = int (length bs) \<and> (inlen = -1 \<or> st = inlen)"
      using persistent_ok [OF d C(1) l conjunct1 [OF C(2) [OF Some]]] by blast
    then show ?thesis using cn Some close_ok C(2) [OF Some] by (auto simp: csp_transaction_w_opts_def)
  qed
qed

end

section \<open>Properties\<close>

lemma conn_queue_sent: "sent B w w' \<Longrightarrow> c_rx_queue (conns w' c) = c_rx_queue (conns w c)"
  by (simp add: sentD)

lemma read_empty: "qh_items (c_rx_queue (conns w c)) = [] \<Longrightarrow> csp_read (Some c) t w = (None, w)"
  by (auto simp: csp_read_def qh_recv_empty set_conn_def)

lemma ex_cn_sys: "sys_ok {#0#} ex_cn" "sys_ok {#} (csp_buffer_free (Some 0) ex_cn)"
proof -
  have "conns_ok ex_cn" "socks_ok ex_cn"
    by (simp_all add: conns_ok_def conn_ok_def socks_ok_def ex_cn_fields ex_conn_def ex_socket_def new_queue_facts)
  moreover have "ports_ok ex_cn" by (simp add: ports_ok_def ex_cn_fields nth_replicate)
  moreover have "dedup_ok ex_cn"
    by (simp add: dedup_ok_def ex_cn_def ex_pm_def ex_dd_def ex_ks_def csp_pm.defs csp_dd.defs csp_ks.defs)
  ultimately show s: "sys_ok {#0#} ex_cn"
    using ex_cn_inv ex_cn_settings by (simp add: sys_ok_def net_ok_def)
  show "sys_ok {#} (csp_buffer_free (Some 0) ex_cn)" using sys_free [OF s] .
qed



text \<open>
  The timeout of a transaction is not a waiting time on this port, whose queues never block:
  when nothing else runs between the send and the read, a transaction that expects a reply always returns
  0, even if the driver has handed the reply to the router's queue already.
\<close>

theorem transaction_never_waits:
  assumes d: "transmitter drv" and s: "sys_ok X w" and l: "0 \<le> outlen" and i: "inlen \<noteq> 0"
  shows "\<exists>w'. csp_transaction_w_opts drv (\<lambda>w. w) prio dest port t outbuf outlen inlen opts w = Some (0, [], w')"
proof -
  obtain x w1 where cn: "csp_connect prio dest port 0 opts w = (x, w1)" by fastforce
  note C = connect_ok [OF s cn]
  show ?thesis
  proof (cases x)
    case None
    then show ?thesis using cn by (simp add: csp_transaction_w_opts_def)
  next
    case (Some c)
    obtain y w2 where g: "csp_buffer_get w1 = (y, w2)" by fastforce
    note G = sys_get [OF C(1) g]
    have "\<exists>w'. csp_transaction_persistent drv (\<lambda>w. w) (Some c) t outbuf outlen inlen w1 = Some (0, [], w')"
    proof (cases "y = None \<or> 256 < outlen")
      case True
      then show ?thesis using g by (auto simp: transaction_eq)
    next
      case False
      then obtain p where p: "y = Some p" by auto
      have "sys_ok (add_mset p X) (request_packet outbuf outlen p w2)"
        using G(1) p l False by (intro request_packet_ok) simp_all
      from send_ok [OF d this, of "Some c"] obtain w3 where
        w3: "csp_send drv (Some c) (Some p) (request_packet outbuf outlen p w2) = Some w3"
          "sent (set_mset X - {p}) (request_packet outbuf outlen p w2) w3" by blast
      have "c_rx_queue (conns w2 c) = c_rx_queue (conns w1 c)" by (simp add: keptD(15) [OF G(2)])
      then have "qh_items (c_rx_queue (conns w3 c)) = []"
        using C(2) [OF Some] conn_queue_sent [OF w3(2)] by (auto simp: request_packet_frame)
      then show ?thesis using False g p w3(1) i by (simp add: transaction_eq read_empty)
    qed
    then show ?thesis using cn Some by (auto simp: csp_transaction_w_opts_def)
  qed
qed

theorem transaction_never_waits_witness:
  "\<exists>w'. csp_transaction_w_opts csp_lo_tx (\<lambda>w. w) 2 0 1 1000 None 0 4 CSP_O_CRC32 ex_cn = Some (0, [], w')"
  using transaction_never_waits [OF nlo.transmitter_axioms ex_cn_sys(1), of 0 4] by simp

text \<open>The identifier of a reply: addresses and ports swapped, a broadcast request answered from an open address.\<close>

definition reply_id :: "u8 \<Rightarrow> csp_id \<Rightarrow> csp_id" where
  "reply_id v r = \<lparr>pri = pri r, flags = flags r, src = (if dst r \<noteq> csp_id_get_max_nodeid v then dst r else 0),
     dst = src r, dport = sport r, sport = dport r\<rparr>"

lemma sendto_reply_eq:
  "csp_sendto_reply drv (Some p) p CSP_O_SAME w =
     csp_send_direct drv (IdOfPacket p) p None
       (set_pkt p ((pkt w p)\<lparr>p_id := reply_id (version (csp_conf w)) (p_id (pkt w p))\<rparr>) w)"
proof -
  have twice: "set_pkt p k2 (set_pkt p k1 w) = set_pkt p k2 w" "pkt (set_pkt p k1 w) p = k1" for k1 k2 and w :: "'a csp_cn_scheme"
    by (simp_all add: set_pkt_def pkt_def)
  have v: "version (csp_conf (set_pkt p k w)) = version (csp_conf w)" for k by (simp add: set_pkt_def)
  show ?thesis
    by (cases "p_id (pkt w p)") (simp add: csp_sendto_reply_def csp_sendto_def Let_def twice v reply_id_def)
qed

text \<open>
  Replying in the request's own packet, as every service does, sends exactly the packet with
  addresses and ports swapped: although the request is overwritten while it is read, no field is read
  after it was changed. A request to the broadcast address is answered from an open source address.
\<close>

theorem reply_swaps:
  "csp_sendto_reply drv (Some p) p CSP_O_SAME w =
     csp_send_direct drv (IdOfPacket p) p None
       (set_pkt p ((pkt w p)\<lparr>p_id := reply_id (version (csp_conf w)) (p_id (pkt w p))\<rparr>) w)"
  by (rule sendto_reply_eq)

end
