(* ===== verification/Route.thy ===== *)
theory Route
  imports Api_Own
begin

text \<open>
  The router (\<open>src/csp_route.c\<close>) and the bridge (\<open>src/csp_bridge.c\<close>). One call of \<open>csp_route_work\<close>
  takes one packet from the router's queue and forwards it, gives it to a callback, delivers it to a
  socket or a connection, or drops it. The work up to the call of a callback is \<open>route_step\<close>; the callback
  itself is a parameter. An outer \<open>None\<close> is undefined behaviour, as in the theories before.
\<close>

section \<open>Checks\<close>

definition count_rx_error :: "nat \<Rightarrow> ('a) csp_cn_scheme \<Rightarrow> ('a) csp_cn_scheme" where
  "count_rx_error i w = set_iface i ((ifaces w i)\<lparr>rx_error := rx_error (ifaces w i) + 1\<rparr>) w"

definition count_autherr :: "nat \<Rightarrow> ('a) csp_cn_scheme \<Rightarrow> ('a) csp_cn_scheme" where
  "count_autherr i w = set_iface i ((ifaces w i)\<lparr>autherr := autherr (ifaces w i) + 1\<rparr>) w"

definition csp_route_check_options :: "nat \<Rightarrow> nat \<Rightarrow> ('a) csp_cn_scheme \<Rightarrow> int \<times> ('a) csp_cn_scheme" where
  "csp_route_check_options iface packet w =
     (if \<not> use_hmac w \<and> flags (p_id (pkt w packet)) AND CSP_FHMAC \<noteq> 0 then
        (CSP_ERR_NOTSUP, count_autherr iface (set_errno CSP_DBG_ERR_UNSUPPORTED w))
      else if flags (p_id (pkt w packet)) AND CSP_FRDP \<noteq> 0 then
        (CSP_ERR_NOTSUP, count_rx_error iface (set_errno CSP_DBG_ERR_UNSUPPORTED w))
      else (CSP_ERR_NONE, w))"

definition crc_check :: "u32 \<Rightarrow> nat \<Rightarrow> nat \<Rightarrow> ('a) csp_cn_scheme \<Rightarrow> int \<times> ('a) csp_cn_scheme" where
  "crc_check security_opts iface packet w =
     (if flags (p_id (pkt w packet)) AND CSP_FCRC32 \<noteq> 0 then
        (case csp_crc32_verify (version (csp_conf w)) (pkt w packet) of
           (r, p) \<Rightarrow>
             let w = set_pkt packet p w
             in if r \<noteq> CSP_ERR_NONE then (CSP_ERR_CRC32, count_rx_error iface w) else (CSP_ERR_NONE, w))
      else if security_opts AND CSP_SO_CRC32REQ \<noteq> 0 then (CSP_ERR_CRC32, count_rx_error iface w)
      else (CSP_ERR_NONE, w))"

definition hmac_check :: "u32 \<Rightarrow> nat \<Rightarrow> nat \<Rightarrow> ('a) csp_cn_scheme \<Rightarrow> (int \<times> ('a) csp_cn_scheme) option" where
  "hmac_check security_opts iface packet w =
     (if \<not> use_hmac w then Some (CSP_ERR_NONE, w)
      else if flags (p_id (pkt w packet)) AND CSP_FHMAC \<noteq> 0 then
        (case csp_hmac_verify (csp_hmac_key w) False (pkt w packet) of
           None \<Rightarrow> None
         | Some (r, p) \<Rightarrow>
             let w = set_pkt packet p w
             in Some (if r \<noteq> CSP_ERR_NONE then (CSP_ERR_HMAC, count_autherr iface w) else (CSP_ERR_NONE, w)))
      else if security_opts AND CSP_SO_HMACREQ \<noteq> 0 then Some (CSP_ERR_HMAC, count_autherr iface w)
      else Some (CSP_ERR_NONE, w))"

definition csp_route_security_check ::
  "u32 \<Rightarrow> nat \<Rightarrow> nat \<Rightarrow> ('a) csp_cn_scheme \<Rightarrow> (int \<times> ('a) csp_cn_scheme) option" where
  "csp_route_security_check security_opts iface packet w =
     (case crc_check security_opts iface packet w of
        (r, w) \<Rightarrow> if r \<noteq> CSP_ERR_NONE then Some (r, w) else hmac_check security_opts iface packet w)"

text \<open>The weak \<open>csp_input_hook\<close> of the file only prints.\<close>

definition csp_input_hook :: "nat \<Rightarrow> nat \<Rightarrow> ('a) csp_cn_scheme \<Rightarrow> ('a) csp_cn_scheme" where
  "csp_input_hook iface packet w = w"

section \<open>Delivery\<close>

text \<open>To a connection-less socket.\<close>

definition deliver_conn_less ::
  "nat \<Rightarrow> nat \<Rightarrow> nat \<Rightarrow> ('a) csp_cn_scheme \<Rightarrow> (int \<times> ('a) csp_cn_scheme) option" where
  "deliver_conn_less s iface packet w =
     (case csp_route_security_check (s_opts (sockets w s)) iface packet w of
        None \<Rightarrow> None
      | Some (r, w) \<Rightarrow>
          if r \<noteq> CSP_ERR_NONE then Some (CSP_ERR_NONE, csp_buffer_free (Some packet) w)
          else case csp_queue_enqueue (rx_queue (sockets w s)) (RxPacket packet) 0 of
            (r, q) \<Rightarrow>
              let w = set_socket s ((sockets w s)\<lparr>rx_queue := q\<rparr>) w
              in if r \<noteq> CSP_QUEUE_OK then
                   Some (CSP_ERR_NONE, csp_buffer_free (Some packet) (w\<lparr>dbg_conn_ovf := dbg_conn_ovf w + 1\<rparr>))
                 else Some (CSP_ERR_NONE, w))"

text \<open>The identifier of the answers on a connection that a packet opens.\<close>

definition answer_id :: "csp_id \<Rightarrow> csp_id" where
  "answer_id k = \<lparr>pri = pri k, flags = flags k, src = dst k, dst = src k, dport = sport k, sport = dport k\<rparr>"

text \<open>The connection a packet belongs to: an existing one or a new one; \<open>None\<close> when the packet was dropped.\<close>

definition find_or_open ::
  "nat option \<Rightarrow> nat \<Rightarrow> nat \<Rightarrow> ('a) csp_cn_scheme \<Rightarrow> (nat option \<times> ('a) csp_cn_scheme) option" where
  "find_or_open sock iface packet w =
     (case csp_conn_find_existing (p_id (pkt w packet)) w of
        None \<Rightarrow>
          (case sock of
             None \<Rightarrow> Some (None, csp_buffer_free (Some packet) w)
           | Some s \<Rightarrow>
               (case csp_route_security_check (s_opts (sockets w s)) iface packet w of
                  None \<Rightarrow> None
                | Some (r, w) \<Rightarrow>
                    if r \<noteq> CSP_ERR_NONE then Some (None, csp_buffer_free (Some packet) w)
                    else case csp_conn_new (p_id (pkt w packet)) (answer_id (p_id (pkt w packet))) CONN_SERVER w of
                      (None, w) \<Rightarrow> Some (None, csp_buffer_free (Some packet) (w\<lparr>dbg_conn_out := dbg_conn_out w + 1\<rparr>))
                    | (Some c, w) \<Rightarrow>
                        Some (Some c, set_conn c ((conns w c)\<lparr>dest_socket := Some s, c_opts := s_opts (sockets w s)\<rparr>) w)))
      | Some c \<Rightarrow>
          (case csp_route_security_check (c_opts (conns w c)) iface packet w of
             None \<Rightarrow> None
           | Some (r, w) \<Rightarrow>
               if r \<noteq> CSP_ERR_NONE then Some (None, csp_buffer_free (Some packet) w) else Some (Some c, w)))"

text \<open>Into a connection's queue; the first packet also posts the connection to its socket.\<close>

definition deliver_conn :: "nat \<Rightarrow> nat \<Rightarrow> ('a) csp_cn_scheme \<Rightarrow> int \<times> ('a) csp_cn_scheme" where
  "deliver_conn c packet w =
     (case csp_conn_enqueue_packet (Some c) packet w of
        (r, w) \<Rightarrow>
          if r \<noteq> CSP_ERR_NONE then
            (CSP_ERR_NONE, csp_buffer_free (Some packet) (w\<lparr>dbg_conn_ovf := dbg_conn_ovf w + 1\<rparr>))
          else case dest_socket (conns w c) of
            None \<Rightarrow> (CSP_ERR_NONE, w)
          | Some s \<Rightarrow>
              (case csp_queue_enqueue (rx_queue (sockets w s)) (RxConn c) 0 of
                 (r, q) \<Rightarrow>
                   let w = set_socket s ((sockets w s)\<lparr>rx_queue := q\<rparr>) w
                   in if r \<noteq> CSP_QUEUE_OK then
                        (CSP_ERR_NONE, snd (csp_close (Some c) (w\<lparr>dbg_conn_ovf := dbg_conn_ovf w + 1\<rparr>)))
                      else (CSP_ERR_NONE, set_conn c ((conns w c)\<lparr>dest_socket := None\<rparr>) w)))"

definition deliver_or_open ::
  "nat option \<Rightarrow> nat \<Rightarrow> nat \<Rightarrow> ('a) csp_cn_scheme \<Rightarrow> (int \<times> ('a) csp_cn_scheme) option" where
  "deliver_or_open sock iface packet w =
     (case find_or_open sock iface packet w of
        None \<Rightarrow> None
      | Some (None, w) \<Rightarrow> Some (CSP_ERR_NONE, w)
      | Some (Some c, w) \<Rightarrow> Some (deliver_conn c packet w))"

definition takes_packets :: "nat option \<Rightarrow> ('a) csp_cn_scheme \<Rightarrow> bool" where
  "takes_packets sock w \<longleftrightarrow> (case sock of None \<Rightarrow> False | Some s \<Rightarrow> s_opts (sockets w s) AND CSP_SO_CONN_LESS \<noteq> 0)"

section \<open>One packet\<close>

datatype 'w route_result = Done int 'w | Call csp_callback nat 'w

definition route_local :: "nat \<Rightarrow> nat \<Rightarrow> ('a) csp_cn_scheme \<Rightarrow> ('a) csp_cn_scheme route_result option" where
  "route_local iface packet w =
     (case csp_route_check_options iface packet w of
        (r, w) \<Rightarrow>
          if r \<noteq> CSP_ERR_NONE then Some (Done CSP_ERR_NONE (csp_buffer_free (Some packet) w))
          else
            let dp = unat (dport (p_id (pkt w packet)))
            in case csp_port_get_callback dp w of
              Some f \<Rightarrow>
                (case csp_route_security_check CSP_SO_CRC32REQ iface packet w of
                   None \<Rightarrow> None
                 | Some (r, w) \<Rightarrow>
                     if r \<noteq> CSP_ERR_NONE then Some (Done CSP_ERR_NONE (csp_buffer_free (Some packet) w))
                     else Some (Call f packet w))
            | None \<Rightarrow>
                let sock = csp_port_get_socket dp w
                in map_option (\<lambda>(r, w). Done r w)
                     (if takes_packets sock w then deliver_conn_less (the sock) iface packet w
                      else deliver_or_open sock iface packet w))"

definition is_to_me :: "nat \<Rightarrow> nat \<Rightarrow> ('a) csp_cn_scheme \<Rightarrow> bool" where
  "is_to_me iface packet w \<longleftrightarrow>
     csp_iflist_get_by_addr w (dst (p_id (pkt w packet))) \<noteq> None \<or>
     csp_id_is_broadcast (version (csp_conf w)) (dst (p_id (pkt w packet))) (ifaces w iface)"

definition dedup_wanted :: "bool \<Rightarrow> ('a) csp_cn_scheme \<Rightarrow> bool" where
  "dedup_wanted to_me w \<longleftrightarrow>
     dedup (csp_conf w) = CSP_DEDUP_ALL \<or> to_me \<and> dedup (csp_conf w) = CSP_DEDUP_INCOMING \<or>
     \<not> to_me \<and> dedup (csp_conf w) = CSP_DEDUP_FWD"

definition count_rx :: "nat \<Rightarrow> nat \<Rightarrow> ('a) csp_cn_scheme \<Rightarrow> ('a) csp_cn_scheme" where
  "count_rx i p w = set_iface i ((ifaces w i)\<lparr>rx := rx (ifaces w i) + 1, rxbytes := rxbytes (ifaces w i) + ucast (p_length (pkt w p))\<rparr>) w"

definition route_packet ::
  "('a) driver \<Rightarrow> nat \<Rightarrow> nat \<Rightarrow> ('a) csp_cn_scheme \<Rightarrow> ('a) csp_cn_scheme route_result option" where
  "route_packet drv iface packet w =
     (let w = csp_input_hook iface packet w;
          w = count_rx iface packet w;
          to_me = is_to_me iface packet w
      in case (if dedup_wanted to_me w then csp_dedup_is_duplicate packet w else Some (False, w)) of
           None \<Rightarrow> None
         | Some (True, w) \<Rightarrow>
             Some (Done CSP_ERR_NONE (csp_buffer_free (Some packet)
               (set_iface iface ((ifaces w iface)\<lparr>drop_ctr := drop_ctr (ifaces w iface) + 1\<rparr>) w)))
         | Some (False, w) \<Rightarrow>
             let w = (if use_promisc w then csp_promisc_add packet w else w)
             in if \<not> to_me then map_option (Done CSP_ERR_NONE) (csp_send_direct drv (IdOfPacket packet) packet (Some iface) w)
                else route_local iface packet w)"

definition route_step :: "('a) driver \<Rightarrow> ('a) csp_cn_scheme \<Rightarrow> ('a) csp_cn_scheme route_result option" where
  "route_step drv w =
     (let w = csp_conn_check_timeouts w
      in case csp_qfifo_read w of
           (r, e, w) \<Rightarrow>
             if r \<noteq> CSP_ERR_NONE then Some (Done CSP_ERR_TIMEDOUT w)
             else case e of
               None \<Rightarrow> None
             | Some input \<Rightarrow>
                 (case qe_packet input of
                    None \<Rightarrow> Some (Done CSP_ERR_TIMEDOUT w)
                  | Some packet \<Rightarrow>
                      (case qe_iface input of None \<Rightarrow> None | Some iface \<Rightarrow> route_packet drv iface packet w)))"

type_synonym 'a callbacks = "csp_callback \<Rightarrow> nat \<Rightarrow> ('a) csp_cn_scheme \<Rightarrow> ('a) csp_cn_scheme option"

definition csp_route_work ::
  "('a) driver \<Rightarrow> ('a) callbacks \<Rightarrow> ('a) csp_cn_scheme \<Rightarrow> (int \<times> ('a) csp_cn_scheme) option" where
  "csp_route_work drv cb w =
     (case route_step drv w of
        None \<Rightarrow> None
      | Some (Done r w) \<Rightarrow> Some (r, w)
      | Some (Call f packet w) \<Rightarrow> map_option (Pair CSP_ERR_NONE) (cb f packet w))"

end
