(* ===== verification/Route_Own.thy ===== *)
theory Route_Own
  imports Route
begin

text \<open>
  The router keeps the invariant of the node and delivers only what passed the checks: the security check
  as a function of flags and payload, and the ownership of the packet on every branch of \<open>route_step\<close>.
\<close>

section \<open>The security check\<close>

text \<open>What the check leaves of a payload: \<open>None\<close> when it is rejected, else without checksum and code.\<close>

definition crc_passed :: "u32 \<Rightarrow> u8 \<Rightarrow> csp_id \<Rightarrow> u8 list \<Rightarrow> u8 list option" where
  "crc_passed opts v i m =
     (if flags i AND CSP_FCRC32 \<noteq> 0 then (if crc_good v i m then Some (take (length m - 4) m) else None)
      else if opts AND CSP_SO_CRC32REQ \<noteq> 0 then None else Some m)"

definition hmac_passed :: "u32 \<Rightarrow> u8 list \<Rightarrow> csp_id \<Rightarrow> u8 list \<Rightarrow> u8 list option" where
  "hmac_passed opts hkey i m =
     (if flags i AND CSP_FHMAC \<noteq> 0 then (if hmac_good hkey m then Some (take (length m - 4) m) else None)
      else if opts AND CSP_SO_HMACREQ \<noteq> 0 then None else Some m)"

definition accepted :: "u32 \<Rightarrow> ('a) csp_cn_scheme \<Rightarrow> nat \<Rightarrow> u8 list option" where
  "accepted opts w p =
     Option.bind (crc_passed opts (version (csp_conf w)) (p_id (pkt w p)) (payload (pkt w p)))
       (\<lambda>m. if use_hmac w then hmac_passed opts (csp_hmac_key w) (p_id (pkt w p)) m else Some m)"

text \<open>A step on a packet that stays the caller's: others and the tables are kept, and its identifier.\<close>

definition holds :: "nat \<Rightarrow> nat multiset \<Rightarrow> ('a) csp_cn_scheme \<Rightarrow> ('a) csp_cn_scheme \<Rightarrow> bool" where
  "holds p X w w' \<longleftrightarrow> sys_ok (add_mset p X) w' \<and> kept (set_mset X - {p}) w w' \<and> p_id (pkt w' p) = p_id (pkt w p)"

lemma holds_trans: "holds p X w w1 \<Longrightarrow> holds p X w1 w2 \<Longrightarrow> holds p X w w2"
  unfolding holds_def using kept_trans1 by metis

lemma holds_set_pkt:
  "sys_ok (add_mset p X) w \<Longrightarrow> packet_ok k \<Longrightarrow> p_id k = p_id (pkt w p) \<Longrightarrow> holds p X w (set_pkt p k w)"
  by (simp add: holds_def sys_set_pkt kept_set_pkt frame_simps)

lemma holds_iface:
  "sys_ok (add_mset p X) w \<Longrightarrow> iface_cfg f = iface_cfg (ifaces w i) \<Longrightarrow> holds p X w (set_iface i f w)"
  by (simp add: holds_def sys_ok_def kept_set_iface) (simp add: set_iface_def pkt_def)

lemma holds_errno: "sys_ok (add_mset p X) w \<Longrightarrow> holds p X w (set_errno e w)"
  by (simp add: holds_def sys_ok_def) (simp add: set_errno_def pkt_def)

lemma pkt_set_iface [simp]: "pkt (set_iface i f w) b = pkt w b" "pkt (set_pkt b k w) b = k"
  by (simp_all add: set_iface_def set_pkt_def pkt_def)

lemma holds_refl: "sys_ok (add_mset p X) w \<Longrightarrow> holds p X w w"
  by (simp add: holds_def)

lemma holds_sys: "holds p X w w' \<Longrightarrow> sys_ok (add_mset p X) w'"
  by (simp add: holds_def)

lemma crc_check_spec:
  assumes s: "sys_ok (add_mset p X) w"
  shows "\<exists>r w'. crc_check opts i p w = (r, w') \<and> holds p X w w' \<and>
     (case crc_passed opts (version (csp_conf w)) (p_id (pkt w p)) (payload (pkt w p)) of
        None \<Rightarrow> r \<noteq> CSP_ERR_NONE
      | Some m \<Rightarrow> r = CSP_ERR_NONE \<and> payload (pkt w' p) = m)"
proof -
  let ?k = "pkt w p" and ?v = "version (csp_conf w)"
  have ok: "packet_ok ?k" using sys_packet [OF s] by simp
  have err: "CSP_ERR_CRC32 \<noteq> CSP_ERR_NONE" by (simp add: CSP_ERR_CRC32_def CSP_ERR_NONE_def)
  have cnt: "holds p X v (count_rx_error i v)" if "sys_ok (add_mset p X) v" for v :: "'a csp_cn_scheme"
    unfolding count_rx_error_def by (rule holds_iface [OF that]) simp
  show ?thesis
  proof (cases "flags (p_id ?k) AND CSP_FCRC32 \<noteq> 0")
    case flag: True
    show ?thesis
    proof (cases "crc_good ?v (p_id ?k) (payload ?k)")
      case True
      then have four: "4 \<le> unat (p_length (csp_id_prepend ?v ?k))" using ok by (simp add: crc_good_def)
      note S = payload_shorter [OF _ four]
      let ?q = "(csp_id_prepend ?v ?k)\<lparr>p_length := p_length ?k - 4\<rparr>"
      have "holds p X w (set_pkt p ?q w)" using S(1) ok by (intro holds_set_pkt [OF s]) simp_all
      then show ?thesis using flag True S(2) ok
        by (simp add: crc_check_def crc32_verify_spec [OF ok] crc_passed_def Let_def)
    next
      case False
      let ?q = "if 4 \<le> unat (p_length ?k) then csp_id_prepend ?v ?k else ?k"
      have h: "holds p X w (set_pkt p ?q w)" using ok by (intro holds_set_pkt [OF s]) simp_all
      then show ?thesis using flag False err holds_trans [OF h cnt [OF holds_sys [OF h]]]
        by (simp add: crc_check_def crc32_verify_spec [OF ok] crc_passed_def Let_def)
    qed
  next
    case False
    then show ?thesis using err cnt [OF s] holds_refl [OF s] by (simp add: crc_check_def crc_passed_def)
  qed
qed

lemma hmac_check_spec:
  assumes s: "sys_ok (add_mset p X) w"
  shows "\<exists>r w'. hmac_check opts i p w = Some (r, w') \<and> holds p X w w' \<and>
     (case (if use_hmac w then hmac_passed opts (csp_hmac_key w) (p_id (pkt w p)) (payload (pkt w p)) else Some (payload (pkt w p))) of
        None \<Rightarrow> r \<noteq> CSP_ERR_NONE
      | Some m \<Rightarrow> r = CSP_ERR_NONE \<and> payload (pkt w' p) = m)"
proof -
  let ?k = "pkt w p"
  have ok: "packet_ok ?k" using sys_packet [OF s] by simp
  have key: "csp_hmac_key w \<noteq> []" using s by (simp add: sys_ok_def net_ok_def)
  have err: "CSP_ERR_HMAC \<noteq> CSP_ERR_NONE" by (simp add: CSP_ERR_HMAC_def CSP_ERR_NONE_def)
  have cnt: "holds p X v (count_autherr i v)" if "sys_ok (add_mset p X) v" for v :: "'a csp_cn_scheme"
    unfolding count_autherr_def by (rule holds_iface [OF that]) simp
  show ?thesis
  proof (cases "use_hmac w \<and> flags (p_id ?k) AND CSP_FHMAC \<noteq> 0")
    case flag: True
    show ?thesis
    proof (cases "hmac_good (csp_hmac_key w) (payload ?k)")
      case True
      then have four: "4 \<le> unat (p_length ?k)" using ok by (simp add: hmac_good_def)
      note S = payload_shorter [OF ok four]
      have "holds p X w (set_pkt p (?k\<lparr>p_length := p_length ?k - 4\<rparr>) w)"
        using S(1) by (intro holds_set_pkt [OF s]) simp_all
      then show ?thesis using flag True S(2)
        by (simp add: hmac_check_def hmac_verify_spec [OF ok key] hmac_passed_def Let_def)
    next
      case False
      have h: "holds p X w (set_pkt p ?k w)" using ok by (intro holds_set_pkt [OF s]) simp_all
      then show ?thesis using flag False err holds_trans [OF h cnt [OF holds_sys [OF h]]]
        by (simp add: hmac_check_def hmac_verify_spec [OF ok key] hmac_passed_def Let_def)
    qed
  next
    case False
    then show ?thesis using err cnt [OF s] holds_refl [OF s] by (auto simp: hmac_check_def hmac_passed_def)
  qed
qed

lemma security_check_spec:
  assumes s: "sys_ok (add_mset p X) w"
  shows "\<exists>r w'. csp_route_security_check opts i p w = Some (r, w') \<and> holds p X w w' \<and>
     (case accepted opts w p of None \<Rightarrow> r \<noteq> CSP_ERR_NONE | Some m \<Rightarrow> r = CSP_ERR_NONE \<and> payload (pkt w' p) = m)"
proof -
  obtain r1 w1 where c: "crc_check opts i p w = (r1, w1)" "holds p X w w1"
     "case crc_passed opts (version (csp_conf w)) (p_id (pkt w p)) (payload (pkt w p)) of
        None \<Rightarrow> r1 \<noteq> CSP_ERR_NONE | Some m \<Rightarrow> r1 = CSP_ERR_NONE \<and> payload (pkt w1 p) = m"
    using crc_check_spec [OF s] by metis
  show ?thesis
  proof (cases "crc_passed opts (version (csp_conf w)) (p_id (pkt w p)) (payload (pkt w p))")
    case None
    then show ?thesis using c by (simp add: csp_route_security_check_def accepted_def)
  next
    case (Some m)
    note K = keptD [OF conjunct1 [OF conjunct2 [OF c(2) [unfolded holds_def]]]]
    have i: "p_id (pkt w1 p) = p_id (pkt w p)" using c(2) by (simp add: holds_def)
    obtain r2 w2 where h: "hmac_check opts i p w1 = Some (r2, w2)" "holds p X w1 w2"
      "case (if use_hmac w1 then hmac_passed opts (csp_hmac_key w1) (p_id (pkt w1 p)) (payload (pkt w1 p)) else Some (payload (pkt w1 p))) of
        None \<Rightarrow> r2 \<noteq> CSP_ERR_NONE | Some m \<Rightarrow> r2 = CSP_ERR_NONE \<and> payload (pkt w2 p) = m"
      using hmac_check_spec [OF holds_sys [OF c(2)]] by metis
    have m: "payload (pkt w1 p) = m" "r1 = CSP_ERR_NONE" using c(3) Some by simp_all
    then show ?thesis using c(1) h holds_trans [OF c(2) h(2)] Some
      by (cases "use_hmac w") (simp_all add: csp_route_security_check_def accepted_def i K)
  qed
qed

section \<open>Delivery\<close>

lemma pkt_set_socket [simp]: "pkt (set_socket s k w) b = pkt w b" "pkt (w\<lparr>dbg_conn_ovf := n\<rparr>) b = pkt w b"
  by (simp_all add: set_socket_def pkt_def)

lemma sys_dbg [simp]:
  "sys_ok X (w\<lparr>dbg_conn_ovf := n\<rparr>) = sys_ok X w" "sys_ok X (w\<lparr>dbg_conn_out := n\<rparr>) = sys_ok X w"
  by (simp_all add: sys_ok_def frame_simps)

lemma holdsD:
  assumes "holds p X w w'"
  shows "sockets w' = sockets w" "n_sockets w' = n_sockets w" "conns w' = conns w" "ports w' = ports w"
    "csp_conf w' = csp_conf w" "p_id (pkt w' p) = p_id (pkt w p)" "use_hmac w' = use_hmac w"
    "csp_hmac_key w' = csp_hmac_key w" "interfaces w' = interfaces w" "conn_less w' = conn_less w"
    "b \<in># X \<Longrightarrow> b \<noteq> p \<Longrightarrow> pkt w' b = pkt w b"
  using assms unfolding holds_def by (auto simp: keptD conn_less_def fun_eq_iff)

text \<open>A queue takes an item exactly when it has room.\<close>

lemma enqueue_room:
  assumes "qh_ok h" and "csp_queue_enqueue h x t = (r, q)"
  shows "r = CSP_QUEUE_OK \<longleftrightarrow> length (qh_items h) < qh_cap h"
proof (cases "length (qh_items h) < qh_cap h")
  case True
  then show ?thesis using qh_send_ok [OF assms(1), of x t] assms(2) by simp
next
  case False
  then have "length (qh_items h) = qh_cap h" using qh_items_le_cap [OF assms(1)] by simp
  then show ?thesis using qh_send_full [of h x t] assms by (simp add: CSP_QUEUE_OK_def CSP_QUEUE_ERROR_def)
qed

lemma socket_enqueue_ok:
  assumes s: "sys_ok (X + item_refs it) w" and n: "s < n_sockets w" and it: "item_ok (conn_less w s) it"
    and e: "csp_queue_enqueue (rx_queue (sockets w s)) it t = (r, q)"
  shows "sys_ok (if r = CSP_QUEUE_OK then X else X + item_refs it) (set_socket s ((sockets w s)\<lparr>rx_queue := q\<rparr>) w)"
    and "qh_items q = (if length (qh_items (rx_queue (sockets w s))) < qh_cap (rx_queue (sockets w s))
       then qh_items (rx_queue (sockets w s)) @ [it] else qh_items (rx_queue (sockets w s)))"
    and "r = CSP_QUEUE_OK \<longleftrightarrow> length (qh_items (rx_queue (sockets w s))) < qh_cap (rx_queue (sockets w s))"
proof -
  note Q = own_socket_queue_ok [OF sys_ok_own [OF s] n]
  note E = enqueue_mset [OF Q e] enqueue_room [OF Q e]
  show "r = CSP_QUEUE_OK \<longleftrightarrow> length (qh_items (rx_queue (sockets w s))) < qh_cap (rx_queue (sockets w s))" by (fact E(3))
  show "qh_items q = (if length (qh_items (rx_queue (sockets w s))) < qh_cap (rx_queue (sockets w s))
       then qh_items (rx_queue (sockets w s)) @ [it] else qh_items (rx_queue (sockets w s)))"
    using E(2,3) by simp
  have items: "list_all (item_ok (conn_less w s)) (qh_items (rx_queue (sockets w s)))"
    using net_ok_items [of w s] s n by (simp add: sys_ok_def)
  have "own_inv (if r = CSP_QUEUE_OK then X else X + item_refs it) (set_socket s ((sockets w s)\<lparr>rx_queue := q\<rparr>) w)"
    by (rule own_socket_move [OF sys_ok_own [OF s] n]) (use E in \<open>auto simp: ac_simps\<close>)
  moreover have "net_ok (set_socket s ((sockets w s)\<lparr>rx_queue := q\<rparr>) w)"
    using s items E(2) it by (intro net_ok_set_socket) (auto simp: sys_ok_def)
  ultimately show "sys_ok (if r = CSP_QUEUE_OK then X else X + item_refs it) (set_socket s ((sockets w s)\<lparr>rx_queue := q\<rparr>) w)"
    by (simp add: sys_ok_def)
qed

text \<open>The queue of a socket after a packet was offered to it.\<close>

definition offered :: "u8 list option \<Rightarrow> rx_item queue_handle \<Rightarrow> rx_item \<Rightarrow> rx_item list" where
  "offered a h it = (if a \<noteq> None \<and> length (qh_items h) < qh_cap h then qh_items h @ [it] else qh_items h)"

lemma deliver_conn_less_ok:
  assumes s: "sys_ok (add_mset p X) w" and n: "s < n_sockets w" and cl: "conn_less w s"
  shows "\<exists>w'. deliver_conn_less s i p w = Some (CSP_ERR_NONE, w') \<and> sys_ok X w' \<and>
     qh_items (rx_queue (sockets w' s)) = offered (accepted (s_opts (sockets w s)) w p) (rx_queue (sockets w s)) (RxPacket p) \<and>
     (\<forall>m. accepted (s_opts (sockets w s)) w p = Some m \<longrightarrow> payload (pkt w' p) = m) \<and> p_id (pkt w' p) = p_id (pkt w p)"
proof -
  obtain r1 w1 where c: "csp_route_security_check (s_opts (sockets w s)) i p w = Some (r1, w1)" "holds p X w w1"
     "case accepted (s_opts (sockets w s)) w p of None \<Rightarrow> r1 \<noteq> CSP_ERR_NONE | Some m \<Rightarrow> r1 = CSP_ERR_NONE \<and> payload (pkt w1 p) = m"
    using security_check_spec [OF s] by metis
  note H = holdsD [OF c(2)]
  show ?thesis
  proof (cases "accepted (s_opts (sockets w s)) w p")
    case None
    then show ?thesis using c sys_free [OF holds_sys [OF c(2)]] H(6)
      by (simp add: deliver_conn_less_def offered_def frame_simps H(1))
  next
    case (Some m)
    then have ok: "r1 = CSP_ERR_NONE" "payload (pkt w1 p) = m" using c(3) by simp_all
    obtain r q where e: "csp_queue_enqueue (rx_queue (sockets w1 s)) (RxPacket p) 0 = (r, q)" by fastforce
    have s1: "sys_ok (X + item_refs (RxPacket p)) w1" using holds_sys [OF c(2)] by simp
    have "s < n_sockets w1" "item_ok (conn_less w1 s) (RxPacket p)" using n cl H by (simp_all add: item_ok_def)
    note E = socket_enqueue_ok [OF s1 this e]
    let ?w = "set_socket s ((sockets w1 s)\<lparr>rx_queue := q\<rparr>) w1"
    have f: "sockets ?w s = (sockets w1 s)\<lparr>rx_queue := q\<rparr>" by (simp add: set_socket_def)
    show ?thesis
    proof (cases "r = CSP_QUEUE_OK")
      case True
      then show ?thesis using c(1) ok e E Some H f by (simp add: deliver_conn_less_def offered_def Let_def)
    next
      case False
      have "sys_ok X (csp_buffer_free (Some p) (?w\<lparr>dbg_conn_ovf := dbg_conn_ovf ?w + 1\<rparr>))"
        using E(1) False by (intro sys_free) simp
      then show ?thesis using c(1) ok e E Some H f False
        by (simp add: deliver_conn_less_def offered_def Let_def frame_simps)
    qed
  qed
qed

lemma find_existing_cases:
  assumes "csp_conn_find_existing ident w = Some c"
  shows "c < CSP_CONN_MAX" and "c_state (conns w c) = CONN_OPEN"
  using assms by (auto simp: csp_conn_find_existing_def Let_def split: if_splits)

lemma find_or_open_ok:
  assumes s: "sys_ok (add_mset p X) w"
    and so: "\<And>t. so = Some t \<Longrightarrow> t < n_sockets w \<and> \<not> conn_less w t \<and> unat (dport (p_id (pkt w p))) \<le> CSP_PORT_MAX_BIND"
  shows "\<exists>x w'. find_or_open so i p w = Some (x, w') \<and>
     (case x of None \<Rightarrow> sys_ok X w' | Some c \<Rightarrow> c < CSP_CONN_MAX \<and> c_state (conns w' c) = CONN_OPEN \<and> sys_ok (add_mset p X) w')"
proof (cases "csp_conn_find_existing (p_id (pkt w p)) w")
  case (Some c)
  note C = find_existing_cases [OF Some]
  obtain r1 w1 where c: "csp_route_security_check (c_opts (conns w c)) i p w = Some (r1, w1)" "holds p X w w1"
    using security_check_spec [OF s] by metis
  show ?thesis
    using Some C c(1) holds_sys [OF c(2)] sys_free [OF holds_sys [OF c(2)]] holdsD [OF c(2)]
    by (cases "r1 = CSP_ERR_NONE") (simp_all add: find_or_open_def)
next
  case None
  show ?thesis
  proof (cases so)
    case None2: None
    then show ?thesis using None sys_free [OF s] by (simp add: find_or_open_def)
  next
    case (Some t)
    obtain r1 w1 where c: "csp_route_security_check (s_opts (sockets w t)) i p w = Some (r1, w1)" "holds p X w w1"
      using security_check_spec [OF s] by metis
    note H = holdsD [OF c(2)] and s1 = holds_sys [OF c(2)]
    show ?thesis
    proof (cases "r1 = CSP_ERR_NONE")
      case False
      then show ?thesis using None Some c(1) sys_free [OF s1] by (simp add: find_or_open_def)
    next
      case True
      obtain x w2 where n: "csp_conn_new (p_id (pkt w1 p)) (answer_id (p_id (pkt w1 p))) CONN_SERVER w1 = (x, w2)"
        by fastforce
      show ?thesis
      proof (cases x)
        case None3: None
        then have "w2 = w1\<lparr>dbg_conn_out := dbg_conn_out w1 + 1\<rparr>" using conn_new_None n by blast
        then have "sys_ok X (csp_buffer_free (Some p) (w2\<lparr>dbg_conn_out := dbg_conn_out w2 + 1\<rparr>))"
          using s1 by (intro sys_free) simp
        then show ?thesis using None Some c(1) True n None3 by (simp add: find_or_open_def)
      next
        case (Some c')
        note N = conn_new_Some [OF n [unfolded Some] sys_ok_own [OF s1]]
        let ?f = "\<lambda>k. k\<lparr>dest_socket := so, c_opts := s_opts (sockets w2 t)\<rparr>"
        have "sys_ok (add_mset p X) (set_conn c' (?f (conns w2 c')) w2)"
          by (rule conn_new_net [OF n [unfolded Some] s1])
            (use so [OF \<open>so = Some t\<close>] net_ok_conn [of w1 c'] s1 N(1) H in \<open>simp_all add: conn_ok_def sys_ok_def \<open>so = Some t\<close>\<close>)
        moreover have "c_state (conns w2 c') = CONN_OPEN" using N(4) by auto
        ultimately show ?thesis using None \<open>so = Some t\<close> c(1) True n Some N(1)
          by (simp add: find_or_open_def set_conn_def)
      qed
    qed
  qed
qed

lemma pkt_set_conn [simp]: "pkt (set_conn c k w) b = pkt w b"
  by (simp add: set_conn_def pkt_def)

text \<open>The packet in the connection's queue: its reference moves there, or stays when the queue is full.\<close>

lemma enqueue_packet_ok:
  assumes s: "sys_ok (add_mset p X) w" and c: "c < CSP_CONN_MAX"
    and e: "csp_queue_enqueue (c_rx_queue (conns w c)) p 0 = (r, q)"
  shows "sys_ok (if r = CSP_QUEUE_OK then X else add_mset p X) (set_conn c ((conns w c)\<lparr>c_rx_queue := q\<rparr>) w)"
proof -
  let ?w = "set_conn c ((conns w c)\<lparr>c_rx_queue := q\<rparr>) w"
  note Q = own_conn_queue_ok [OF sys_ok_own [OF s] c] and K = net_ok_conn [of w c, OF _ c]
  note E = enqueue_mset [OF Q e] enqueue_room [OF Q e]
  have "own_inv (if r = CSP_QUEUE_OK then X else add_mset p X) ?w"
    using own_conn_move [OF sys_ok_own [OF s] c, of "(conns w c)\<lparr>c_rx_queue := q\<rparr>"] E by auto
  moreover have "net_ok ?w" using K s by (intro net_ok_set_conn) (simp_all add: sys_ok_def)
  ultimately show ?thesis by (simp add: sys_ok_def)
qed

text \<open>The connection in its socket's queue: it loses its destination, or is closed when the queue is full.\<close>

lemma post_conn_ok:
  fixes w :: "('a) csp_cn_scheme"
  assumes s: "sys_ok X w" and c: "c < CSP_CONN_MAX" and t: "t < n_sockets w" "\<not> conn_less w t"
    and e: "csp_queue_enqueue (rx_queue (sockets w t)) (RxConn c) 0 = (r, q)"
  defines "v \<equiv> set_socket t ((sockets w t)\<lparr>rx_queue := q\<rparr>) w"
  shows "sys_ok X (snd (csp_close (Some c) (v\<lparr>dbg_conn_ovf := m\<rparr>)))"
    and "sys_ok X (set_conn c ((conns v c)\<lparr>dest_socket := None\<rparr>) v)"
    and "r = CSP_QUEUE_OK \<longleftrightarrow> length (qh_items (rx_queue (sockets w t))) < qh_cap (rx_queue (sockets w t))"
    and "r = CSP_QUEUE_OK \<Longrightarrow> qh_items q = qh_items (rx_queue (sockets w t)) @ [RxConn c]"
proof -
  have "sys_ok (X + item_refs (RxConn c)) w" using s by simp
  moreover have "item_ok (conn_less w t) (RxConn c)" using t c by (simp add: item_ok_def conn_less_def)
  ultimately have T: "sys_ok X v" "r = CSP_QUEUE_OK \<longleftrightarrow> length (qh_items (rx_queue (sockets w t))) < qh_cap (rx_queue (sockets w t))"
      "r = CSP_QUEUE_OK \<Longrightarrow> qh_items q = qh_items (rx_queue (sockets w t)) @ [RxConn c]"
    using socket_enqueue_ok [of X "RxConn c" w t 0 r q] t e by (auto simp: v_def split: if_splits)
  show "r = CSP_QUEUE_OK \<longleftrightarrow> length (qh_items (rx_queue (sockets w t))) < qh_cap (rx_queue (sockets w t))"
    and "r = CSP_QUEUE_OK \<Longrightarrow> qh_items q = qh_items (rx_queue (sockets w t)) @ [RxConn c]" by (fact T)+
  show "sys_ok X (snd (csp_close (Some c) (v\<lparr>dbg_conn_ovf := m\<rparr>)))" using T(1) c by (intro close_ok) simp
  let ?k = "(conns v c)\<lparr>dest_socket := None\<rparr>"
  have "own_inv X (set_conn c ?k v)" using T(1) by (intro own_conn_same_queue) (simp_all add: sys_ok_def)
  moreover have "net_ok (set_conn c ?k v)"
    using T(1) net_ok_conn [of v c, OF _ c] by (intro net_ok_set_conn) (simp_all add: sys_ok_def conn_ok_def)
  ultimately show "sys_ok X (set_conn c ?k v)" by (simp add: sys_ok_def)
qed

text \<open>Into a connection: every branch consumes the packet; with room it is queued and the connection posted.\<close>

lemma deliver_conn_ok:
  assumes s: "sys_ok (add_mset p X) w" and c: "c < CSP_CONN_MAX" and o: "c_state (conns w c) = CONN_OPEN"
  shows "\<exists>w'. deliver_conn c p w = (CSP_ERR_NONE, w') \<and> sys_ok X w' \<and>
     (length (qh_items (c_rx_queue (conns w c))) < qh_cap (c_rx_queue (conns w c)) \<longrightarrow>
      (\<forall>t. dest_socket (conns w c) = Some t \<longrightarrow> length (qh_items (rx_queue (sockets w t))) < qh_cap (rx_queue (sockets w t))) \<longrightarrow>
      qh_items (c_rx_queue (conns w' c)) = qh_items (c_rx_queue (conns w c)) @ [p] \<and> pkt w' p = pkt w p \<and>
      c_state (conns w' c) = CONN_OPEN \<and> idin (conns w' c) = idin (conns w c) \<and> n_sockets w' = n_sockets w \<and> dest_socket (conns w' c) = None \<and>
      (\<forall>t. dest_socket (conns w c) = Some t \<longrightarrow> qh_items (rx_queue (sockets w' t)) = qh_items (rx_queue (sockets w t)) @ [RxConn c]))"
proof -
  note Q = own_conn_queue_ok [OF sys_ok_own [OF s] c] and K = net_ok_conn [of w c, OF _ c]
  obtain r0 q where e: "csp_queue_enqueue (c_rx_queue (conns w c)) p 0 = (r0, q)" by fastforce
  note E = enqueue_mset [OF Q e] enqueue_room [OF Q e] and s1 = enqueue_packet_ok [OF s c e]
  let ?w = "set_conn c ((conns w c)\<lparr>c_rx_queue := q\<rparr>) w"
  have cc: "conns ?w c = (conns w c)\<lparr>c_rx_queue := q\<rparr>" "sockets ?w = sockets w" "n_sockets ?w = n_sockets w"
    by (simp_all add: set_conn_def)
  show ?thesis
  proof (cases "r0 = CSP_QUEUE_OK")
    case False
    have "sys_ok X (csp_buffer_free (Some p) (?w\<lparr>dbg_conn_ovf := m\<rparr>))" for m
      using s1 False by (intro sys_free) simp
    moreover have "CSP_ERR_NOMEM \<noteq> CSP_ERR_NONE" by (simp add: CSP_ERR_NOMEM_def CSP_ERR_NONE_def)
    ultimately show ?thesis using e E False
      by (simp add: deliver_conn_def csp_conn_enqueue_packet_def Let_def del: sys_dbg)
  next
    case True
    have en: "csp_conn_enqueue_packet (Some c) p w = (CSP_ERR_NONE, ?w)"
      using e True by (simp add: csp_conn_enqueue_packet_def Let_def)
    have s2: "sys_ok X ?w" using s1 True by simp
    show ?thesis
    proof (cases "dest_socket (conns w c)")
      case None
      then show ?thesis using en s2 E True cc o by (simp add: deliver_conn_def)
    next
      case (Some t)
      have t: "t < n_sockets ?w" "\<not> conn_less ?w t"
        using K s o Some by (simp_all add: sys_ok_def conn_ok_def conn_less_def set_conn_def)
      obtain r q2 where e2: "csp_queue_enqueue (rx_queue (sockets ?w t)) (RxConn c) 0 = (r, q2)" by fastforce
      let ?v = "set_socket t ((sockets ?w t)\<lparr>rx_queue := q2\<rparr>) ?w"
      note P = post_conn_ok [OF s2 c t e2]
      show ?thesis
      proof (cases "r = CSP_QUEUE_OK")
        case False
        then show ?thesis using en e2 Some P(1,3) by (simp add: deliver_conn_def cc Let_def)
      next
        case True2: True
        let ?u = "set_conn c ((conns ?v c)\<lparr>dest_socket := None\<rparr>) ?v"
        have "deliver_conn c p w = (CSP_ERR_NONE, ?u)"
          using en e2 Some True2 by (simp add: deliver_conn_def cc Let_def)
        moreover have "conns ?u c = (conns w c)\<lparr>c_rx_queue := q, dest_socket := None\<rparr>"
          "rx_queue (sockets ?u t) = q2" "n_sockets ?u = n_sockets w"
          by (simp_all add: set_conn_def set_socket_def)
        ultimately show ?thesis using E True True2 P(2,4) o Some by (simp add: cc)
      qed
    qed
  qed
qed

lemma deliver_or_open_ok:
  assumes s: "sys_ok (add_mset p X) w"
    and so: "\<And>t. so = Some t \<Longrightarrow> t < n_sockets w \<and> \<not> conn_less w t \<and> unat (dport (p_id (pkt w p))) \<le> CSP_PORT_MAX_BIND"
  shows "\<exists>w'. deliver_or_open so i p w = Some (CSP_ERR_NONE, w') \<and> sys_ok X w'"
proof -
  from find_or_open_ok [OF s so, where i = i] obtain x w1 where f: "find_or_open so i p w = Some (x, w1)"
     "case x of None \<Rightarrow> sys_ok X w1 | Some c \<Rightarrow> c < CSP_CONN_MAX \<and> c_state (conns w1 c) = CONN_OPEN \<and> sys_ok (add_mset p X) w1"
    by blast
  show ?thesis
  proof (cases x)
    case None
    then show ?thesis using f by (simp add: deliver_or_open_def)
  next
    case (Some c)
    then obtain w2 where "deliver_conn c p w1 = (CSP_ERR_NONE, w2)" "sys_ok X w2"
      using f(2) deliver_conn_ok [of p X w1 c] by auto
    then show ?thesis using f(1) Some by (simp add: deliver_or_open_def)
  qed
qed

section \<open>One packet\<close>

text \<open>What a step of the router may end with.\<close>

definition result_ok :: "nat multiset \<Rightarrow> ('a) csp_cn_scheme route_result option \<Rightarrow> bool" where
  "result_ok X res \<longleftrightarrow>
     (case res of None \<Rightarrow> False | Some (Done r w) \<Rightarrow> sys_ok X w | Some (Call f p w) \<Rightarrow> sys_ok (add_mset p X) w)"

lemma check_options_holds:
  assumes s: "sys_ok (add_mset p X) w" and c: "csp_route_check_options i p w = (r, w')"
  shows "holds p X w w'"
proof -
  have e: "holds p X w (set_errno CSP_DBG_ERR_UNSUPPORTED w)" by (rule holds_errno [OF s])
  have "holds p X w (count_rx_error i (set_errno CSP_DBG_ERR_UNSUPPORTED w))"
    "holds p X w (count_autherr i (set_errno CSP_DBG_ERR_UNSUPPORTED w))"
    unfolding count_rx_error_def count_autherr_def
    by (rule holds_trans [OF e holds_iface [OF holds_sys [OF e]]], simp)+
  then show ?thesis using c holds_refl [OF s] by (auto simp: csp_route_check_options_def split: if_splits)
qed

lemma get_socket_ok:
  assumes "ports_ok w" and "csp_port_get_socket dp w = Some t"
  shows "t < n_sockets w" and "dp \<le> CSP_PORT_MAX_BIND"
proof -
  show d: "dp \<le> CSP_PORT_MAX_BIND" using assms(2) by (simp add: csp_port_get_socket_def split: if_splits)
  have "ports w ! dp = PORT_OPEN t \<or> ports w ! 33 = PORT_OPEN t"
    using assms(2) by (simp add: csp_port_get_socket_def split: if_splits csp_port.splits)
  moreover have "t < n_sockets w" if "n < 34" "ports w ! n = PORT_OPEN t" for n
    using assms(1) that by (simp add: ports_ok_def)
  from this [of dp] this [of 33] have "ports w ! dp = PORT_OPEN t \<Longrightarrow> t < n_sockets w" "ports w ! 33 = PORT_OPEN t \<Longrightarrow> t < n_sockets w"
    using d by simp_all
  ultimately show "t < n_sockets w" by blast
qed

lemma route_local_ok:
  assumes s: "sys_ok (add_mset p X) w"
  shows "result_ok X (route_local i p w)"
proof -
  obtain r0 w0 where c: "csp_route_check_options i p w = (r0, w0)" by fastforce
  note s0 = holds_sys [OF check_options_holds [OF s c]]
  let ?dp = "unat (dport (p_id (pkt w0 p)))"
  show ?thesis
  proof (cases "r0 = CSP_ERR_NONE")
    case False
    then show ?thesis using c sys_free [OF s0] by (simp add: route_local_def result_ok_def)
  next
    case True
    show ?thesis
    proof (cases "csp_port_get_callback ?dp w0")
      case (Some f)
      obtain r1 w1 where k: "csp_route_security_check CSP_SO_CRC32REQ i p w0 = Some (r1, w1)" "holds p X w0 w1"
        using security_check_spec [OF s0] by metis
      show ?thesis using c True Some k(1) holds_sys [OF k(2)] sys_free [OF holds_sys [OF k(2)]]
        by (simp add: route_local_def result_ok_def Let_def)
    next
      case None
      let ?so = "csp_port_get_socket ?dp w0"
      have ports: "ports_ok w0" using s0 by (simp add: sys_ok_def net_ok_def)
      show ?thesis
      proof (cases "takes_packets ?so w0")
        case True2: True
        then obtain t where t: "?so = Some t" "conn_less w0 t"
          by (auto simp: takes_packets_def conn_less_def split: option.splits)
        obtain w1 where "deliver_conn_less t i p w0 = Some (CSP_ERR_NONE, w1)" "sys_ok X w1"
          using deliver_conn_less_ok [OF s0 get_socket_ok(1) [OF ports t(1)] t(2)] by blast
        then show ?thesis using c True None True2 t(1) by (simp add: route_local_def result_ok_def Let_def)
      next
        case False
        have "t < n_sockets w0 \<and> \<not> conn_less w0 t \<and> ?dp \<le> CSP_PORT_MAX_BIND" if "?so = Some t" for t
          using get_socket_ok [OF ports that] False that by (simp add: takes_packets_def conn_less_def)
        from deliver_or_open_ok [OF s0 this] obtain w1 where
          "deliver_or_open ?so i p w0 = Some (CSP_ERR_NONE, w1)" "sys_ok X w1" by blast
        then show ?thesis using c True None False by (simp add: route_local_def result_ok_def Let_def)
      qed
    qed
  qed
qed

text \<open>Until the packet is delivered: nothing that decides the delivery changes.\<close>

definition passes :: "nat \<Rightarrow> nat multiset \<Rightarrow> ('a) csp_cn_scheme \<Rightarrow> ('a) csp_cn_scheme \<Rightarrow> bool" where
  "passes p X w w' \<longleftrightarrow> sys_ok (add_mset p X) w' \<and>
     (sockets w', n_sockets w', conns w', ports w') = (sockets w, n_sockets w, conns w, ports w) \<and>
     (csp_conf w', use_hmac w', csp_hmac_key w', interfaces w') = (csp_conf w, use_hmac w, csp_hmac_key w, interfaces w) \<and>
     p_id (pkt w' p) = p_id (pkt w p) \<and> payload (pkt w' p) = payload (pkt w p)"

lemma passes_trans: "passes p X w w1 \<Longrightarrow> passes p X w1 w2 \<Longrightarrow> passes p X w w2"
  by (simp add: passes_def)

lemma passes_refl: "sys_ok (add_mset p X) w \<Longrightarrow> passes p X w w"
  by (simp add: passes_def)

lemma passes_sys: "passes p X w w' \<Longrightarrow> sys_ok (add_mset p X) w'"
  by (simp add: passes_def)

lemma passesD:
  assumes "passes p X w w'"
  shows "sockets w' = sockets w" "n_sockets w' = n_sockets w" "conns w' = conns w" "ports w' = ports w"
    "csp_conf w' = csp_conf w" "use_hmac w' = use_hmac w" "csp_hmac_key w' = csp_hmac_key w"
    "p_id (pkt w' p) = p_id (pkt w p)" "payload (pkt w' p) = payload (pkt w p)" "conn_less w' = conn_less w"
    "accepted opts w' p = accepted opts w p"
  using assms by (auto simp: passes_def conn_less_def accepted_def fun_eq_iff)

lemma holds_passes: "holds p X w w' \<Longrightarrow> payload (pkt w' p) = payload (pkt w p) \<Longrightarrow> passes p X w w'"
  using holdsD [of p X w w'] holds_sys [of p X w w'] by (simp add: passes_def)

lemma count_rx_passes: "sys_ok (add_mset p X) w \<Longrightarrow> passes p X w (count_rx i p w)"
  unfolding count_rx_def by (rule holds_passes [OF holds_iface]) simp_all

lemma promisc_passes:
  assumes s: "sys_ok (add_mset p X) w"
  shows "passes p X w (csp_promisc_add p w)"
proof -
  note P = own_promisc_add [OF sys_ok_own [OF s], of p]
  have "sys_ok (add_mset p X) (csp_promisc_add p w)"
    using P net_ok_kept [OF P(2)] s by (simp add: sys_ok_def)
  then show ?thesis using keptD [OF P(2)] by (simp add: passes_def)
qed

lemma dedup_passes:
  assumes s: "sys_ok (add_mset p X) w"
  shows "\<exists>dup w'. csp_dedup_is_duplicate p w = Some (dup, w') \<and> passes p X w w'"
proof -
  let ?k = "csp_id_prepend (version (csp_conf w)) (pkt w p)"
  have ok: "packet_ok (pkt w p)" using sys_packet [OF s] by simp
  define w1 where "w1 = set_pkt p ?k w"
  have s1: "sys_ok (add_mset p X) w1" unfolding w1_def by (rule sys_set_pkt [OF s]) (simp add: ok)
  have p1: "passes p X w w1" using s1 ok by (simp add: passes_def w1_def) (simp add: set_pkt_def)
  define crc where "crc = csp_crc32_memory (frame_bytes (pkt w1 p))"
  have d1: "dedup_ok w1" using s1 by (simp add: sys_ok_def net_ok_def)
  from dedup_search [OF d1, of crc "csp_get_ms w1"] obtain dup where
    l: "dedup_loop CSP_DEDUP_COUNT w1 crc (csp_get_ms w1) ((csp_dedup_in w1 - 1) mod 16) = Some dup" by blast
  let ?w2 = "w1\<lparr>csp_dedup_array := (csp_dedup_array w1)[unat (csp_dedup_in w1) := crc],
      csp_dedup_timestamp := (csp_dedup_timestamp w1)[unat (csp_dedup_in w1) := csp_get_ms w1],
      csp_dedup_in := (csp_dedup_in w1 + 1) mod 16\<rparr>"
  have d2: "dedup_ok ?w2" using dedup_insert(1) [OF d1, of ?w2 crc "csp_get_ms w1"] by simp
  have "own_inv (add_mset p X) ?w2" using s1 by (simp add: sys_ok_def)
  moreover have "net_ok ?w2"
    using s1 d2 by (simp add: sys_ok_def net_ok_def ports_ok_def routes_ok_def conns_ok_def conn_ok_def socks_ok_def conn_less_def)
  ultimately have "passes p X w1 ?w2" by (simp add: passes_def sys_ok_def pkt_def)
  then have "passes p X w ?w2" by (rule passes_trans [OF p1])
  moreover have "csp_dedup_is_duplicate p w = Some (dup, if dup then w1 else ?w2)"
    using l by (simp add: csp_dedup_is_duplicate_def Let_def crc_def flip: w1_def)
  ultimately show ?thesis using p1 by auto
qed

text \<open>The state in which the packet is delivered locally.\<close>

definition before_local :: "nat \<Rightarrow> nat \<Rightarrow> ('a) csp_cn_scheme \<Rightarrow> ('a) csp_cn_scheme" where
  "before_local i p w = (let w = count_rx i p w in if use_promisc w then csp_promisc_add p w else w)"

lemma before_local_passes: "sys_ok (add_mset p X) w \<Longrightarrow> passes p X w (before_local i p w)"
  using passes_trans [OF count_rx_passes promisc_passes [OF passes_sys [OF count_rx_passes]]] count_rx_passes
  by (auto simp: before_local_def Let_def)

lemma is_to_me_count [simp]: "is_to_me i p (count_rx i p w) = is_to_me i p w"
proof -
  have "by_addr_loop (count_rx i p w) a l = by_addr_loop w a l" for a l
    by (induction l) (simp_all add: count_rx_def set_iface_def)
  moreover have "csp_id_is_broadcast v a ((ifaces w i)\<lparr>rx := n, rxbytes := m\<rparr>) = csp_id_is_broadcast v a (ifaces w i)" for v a n m
    by (simp add: csp_id_is_broadcast_def)
  ultimately show ?thesis
    by (simp add: is_to_me_def csp_iflist_get_by_addr_def) (simp add: count_rx_def set_iface_def pkt_def)
qed

lemma route_packet_ok:
  assumes d: "transmitter drv" and s: "sys_ok (add_mset p X) w"
  shows "result_ok X (route_packet drv i p w)"
    and "route_packet drv i p w = Some (Call f q w') \<Longrightarrow> \<exists>v. passes p X w v \<and> route_local i p v = Some (Call f q w')"
proof -
  define w1 where "w1 = count_rx i p w"
  note P1 = count_rx_passes [OF s, of i, folded w1_def]
  obtain dup w2 where D: "(if dedup_wanted (is_to_me i p w) w1 then csp_dedup_is_duplicate p w1 else Some (False, w1)) = Some (dup, w2)"
      "passes p X w1 w2"
    using dedup_passes [OF passes_sys [OF P1]] passes_refl [OF passes_sys [OF P1]] by (cases "dedup_wanted (is_to_me i p w) w1") auto
  define w3 where "w3 = (if use_promisc w2 then csp_promisc_add p w2 else w2)"
  have P3: "passes p X w w3"
    using passes_trans [OF P1 D(2)] promisc_passes [OF passes_sys [OF D(2)]] by (auto simp: w3_def intro: passes_trans)
  have to_me: "is_to_me i p w1 = is_to_me i p w" by (simp add: w1_def)
  have R: "route_packet drv i p w =
      (if dup then Some (Done CSP_ERR_NONE (csp_buffer_free (Some p) (set_iface i ((ifaces w2 i)\<lparr>drop_ctr := drop_ctr (ifaces w2 i) + 1\<rparr>) w2)))
       else if \<not> is_to_me i p w then map_option (Done CSP_ERR_NONE) (csp_send_direct drv (IdOfPacket p) p (Some i) w3)
       else route_local i p w3)"
    by (cases dup) (simp_all only: route_packet_def csp_input_hook_def Let_def w1_def [symmetric] to_me D(1) w3_def [symmetric]
        option.case prod.case bool.case if_True if_False simp_thms)
  have f: "sys_ok X (csp_buffer_free (Some p) (set_iface i ((ifaces w2 i)\<lparr>drop_ctr := drop_ctr (ifaces w2 i) + 1\<rparr>) w2))"
    by (rule sys_free [OF holds_sys [OF holds_iface [OF passes_sys [OF D(2)]]]]) simp
  show "result_ok X (route_packet drv i p w)"
    using f sys_send_direct [OF d passes_sys [OF P3], of "IdOfPacket p" "Some i"] route_local_ok [OF passes_sys [OF P3], of i]
    by (auto simp: R result_ok_def)
  show "route_packet drv i p w = Some (Call f q w') \<Longrightarrow> \<exists>v. passes p X w v \<and> route_local i p v = Some (Call f q w')"
    using P3 by (auto simp: R split: if_splits)
qed

section \<open>The router\<close>

text \<open>Taking an element from the router's queue.\<close>

lemma own_qfifo_read:
  assumes inv: "own_inv X w"
  shows "case qf_items w of
      [] \<Rightarrow> csp_qfifo_read w = (CSP_ERR_TIMEDOUT, None, w)
    | e # es \<Rightarrow> \<exists>q. csp_qfifo_read w = (CSP_ERR_NONE, Some e, w\<lparr>qfifo_queue_handle := q\<rparr>) \<and>
        qf_items (w\<lparr>qfifo_queue_handle := q\<rparr>) = es \<and> elem_ok e \<and> own_inv (X + elem_refs e) (w\<lparr>qfifo_queue_handle := q\<rparr>)"
proof (cases "qf_items w")
  case Nil
  then show ?thesis using inv qfifo_read_cases [of w] by (simp add: own_inv_def queues_ok_def)
next
  case (Cons e es)
  define R where "R = pm_refs w + cn_refs (conns w) + so_refs (n_sockets w) (sockets w)"
  have ok: "qf_ok w" using inv by (simp add: own_inv_def queues_ok_def)
  have h: "held v = R + qf_refs v" if "v = w\<lparr>qfifo_queue_handle := q\<rparr>" for v q
    by (simp add: held_def that R_def pm_refs_def ac_simps)
  have b: "bufs_inv (X + R + qf_refs w) w" using inv h [of w "qfifo_queue_handle w"] by (simp add: own_inv_def ac_simps)
  obtain r f w' where rd: "csp_qfifo_read w = (r, f, w')" by (cases "csp_qfifo_read w") auto
  note Q = qfifo_read_hands_over [OF b ok Cons rd]
  have en: "qf_entries_ok w" "elem_ok e" "list_all elem_ok es" using inv Cons by (simp_all add: own_inv_def queues_ok_def qf_entries_ok_def)
  have same: "csp_promisc_queue w' = csp_promisc_queue w" "conns w' = conns w" "sockets w' = sockets w" "n_sockets w' = n_sockets w"
    by (subst Q(6), simp)+
  have "queues_ok w'"
    using inv Q(3,4) en by (simp add: own_inv_def queues_ok_def same qf_entries_ok_def)
  moreover have "bufs_inv (X + elem_refs e + held w') w'" using Q(5) h [OF Q(6)] by (simp add: ac_simps)
  ultimately have o: "own_inv (X + elem_refs e) w'" by (simp add: own_inv_def)
  obtain q where wq: "w' = w\<lparr>qfifo_queue_handle := q\<rparr>" using Q(6) by blast
  have "csp_qfifo_read w = (CSP_ERR_NONE, Some e, w')" using rd Q(1,2) by simp
  then show ?thesis using Q(3) o en(2) unfolding wq Cons list.case by blast
qed

text \<open>The packet the router takes next, with the state it then starts from.\<close>

definition next_packet :: "('a) csp_cn_scheme \<Rightarrow> nat \<Rightarrow> nat \<Rightarrow> ('a) csp_cn_scheme \<Rightarrow> bool" where
  "next_packet w i p v \<longleftrightarrow> (\<exists>es q. qf_items w = \<lparr>qe_iface = Some i, qe_packet = Some p\<rparr> # es \<and> v = w\<lparr>qfifo_queue_handle := q\<rparr>)"

lemma route_step_cases:
  assumes s: "sys_ok X w"
  shows "(\<exists>w'. route_step drv w = Some (Done CSP_ERR_TIMEDOUT w') \<and> sys_ok X w') \<or>
     (\<exists>i p v. next_packet w i p v \<and> sys_ok (add_mset p X) v \<and> route_step drv w = route_packet drv i p v)"
proof -
  have T: "CSP_ERR_TIMEDOUT \<noteq> CSP_ERR_NONE" by (simp add: CSP_ERR_TIMEDOUT_def CSP_ERR_NONE_def)
  note R = own_qfifo_read [OF sys_ok_own [OF s]]
  show ?thesis
  proof (cases "qf_items w")
    case Nil
    then show ?thesis using R s T by (simp add: route_step_def csp_conn_check_timeouts_def)
  next
    case (Cons e es)
    then obtain q where q: "csp_qfifo_read w = (CSP_ERR_NONE, Some e, w\<lparr>qfifo_queue_handle := q\<rparr>)" "elem_ok e"
        "own_inv (X + elem_refs e) (w\<lparr>qfifo_queue_handle := q\<rparr>)"
      using R by auto
    let ?v = "w\<lparr>qfifo_queue_handle := q\<rparr>"
    have v: "sys_ok (X + elem_refs e) ?v" using q(3) s by (simp add: sys_ok_def frame_simps)
    show ?thesis
    proof (cases "qe_packet e")
      case None
      then show ?thesis using q(1) v by (simp add: route_step_def csp_conn_check_timeouts_def elem_refs_def)
    next
      case (Some p)
      then obtain i where i: "qe_iface e = Some i" using q(2) by (auto simp: elem_ok_def)
      have "next_packet w i p ?v" using Cons Some i by (cases e) (auto simp: next_packet_def)
      moreover have "sys_ok (add_mset p X) ?v" using v Some by (simp add: elem_refs_def)
      ultimately show ?thesis using q(1) Some i by (auto simp: route_step_def csp_conn_check_timeouts_def)
    qed
  qed
qed

lemma route_step_ok:
  assumes d: "transmitter drv" and s: "sys_ok X w"
  shows "result_ok X (route_step drv w)"
  using route_step_cases [OF s, of drv] route_packet_ok(1) [OF d] by (auto simp: result_ok_def)

text \<open>What a callback owes the router: it takes over the packet and keeps the invariant.\<close>

locale port_callbacks =
  fixes cb :: "csp_callback \<Rightarrow> nat \<Rightarrow> ('a) csp_cn_scheme \<Rightarrow> ('a) csp_cn_scheme option"
    and ready :: "csp_callback \<Rightarrow> nat \<Rightarrow> ('a) csp_cn_scheme \<Rightarrow> bool"
  assumes cb_ok: "sys_ok (add_mset p X) w \<Longrightarrow> ready f p w \<Longrightarrow> \<exists>w'. cb f p w = Some w' \<and> sys_ok X w'"
begin

lemma work_ok:
  assumes d: "transmitter drv" and s: "sys_ok X w"
    and r: "\<And>f p v. route_step drv w = Some (Call f p v) \<Longrightarrow> ready f p v"
  shows "\<exists>st w'. csp_route_work drv cb w = Some (st, w') \<and> sys_ok X w'"
proof -
  note R = route_step_ok [OF d s]
  then obtain res where res: "route_step drv w = Some res" by (auto simp: result_ok_def split: option.splits)
  show ?thesis
  proof (cases res)
    case (Done st w')
    then show ?thesis using R res by (simp add: csp_route_work_def result_ok_def)
  next
    case (Call f p v)
    then obtain w' where "cb f p v = Some w'" "sys_ok X w'"
      using cb_ok [of p X v f] R res r by (auto simp: result_ok_def)
    then show ?thesis using Call res by (simp add: csp_route_work_def)
  qed
qed

end

text \<open>An application callback that drops every packet is one.\<close>

interpretation dropper: port_callbacks "\<lambda>f p w. Some (csp_buffer_free (Some p) w)" "\<lambda>f p w. True"
  by unfold_locales (simp add: sys_free)

end
