(* ===== verification/Delivery.thy ===== *)
theory Delivery
  imports Route_Own
begin

text \<open>
  What the router delivers, and to whom: the properties of \<open>csp_route_work\<close> as an application sees them.
\<close>

section \<open>Helpers\<close>

lemma flush_cap:
  "own_inv X w \<Longrightarrow> c < CSP_CONN_MAX \<Longrightarrow>
     qh_cap (c_rx_queue (conns (csp_conn_flush_rx_queue c w) c)) = qh_cap (c_rx_queue (conns w c))"
proof (induction c w rule: csp_conn_flush_rx_queue.induct)
  case (1 c w)
  obtain x q where d: "csp_queue_dequeue (c_rx_queue (conns w c)) 0 = (x, q)" by fastforce
  have cap: "qh_cap q = qh_cap (c_rx_queue (conns w c))"
    using qh_recv_inv [OF own_conn_queue_ok [OF "1.prems"], of 0] d by simp
  show ?case
  proof (cases x)
    case None
    then show ?thesis using d cap by (simp add: flush_step(1) set_conn_def)
  next
    case (Some p)
    let ?v = "set_conn c ((conns w c)\<lparr>c_rx_queue := q\<rparr>) w"
    note D = dequeue_mset [OF own_conn_queue_ok [OF "1.prems"] d]
    have "own_inv (add_mset p X) ?v"
      by (rule own_conn_move [OF "1.prems"]) (use D Some in auto)
    then have "own_inv X (csp_buffer_free (Some p) ?v)" by (rule own_free)
    then have "qh_cap (c_rx_queue (conns (csp_conn_flush_rx_queue c (csp_buffer_free (Some p) ?v)) c)) =
        qh_cap (c_rx_queue (conns (csp_buffer_free (Some p) ?v) c))"
      using "1.IH" [of x q p] d Some "1.prems"(2) by simp
    moreover have "qh_cap (c_rx_queue (conns (csp_buffer_free (Some p) ?v) c)) = qh_cap (c_rx_queue (conns w c))"
      using cap by (simp add: frame_simps) (simp add: set_conn_def)
    ultimately show ?thesis using d Some by (simp add: flush_step(2))
  qed
qed

lemma conn_new_cap:
  assumes "csp_conn_new a b ty w = (Some c, w')" and "own_inv X w"
  shows "qh_cap (c_rx_queue (conns w' c)) = qh_cap (c_rx_queue (conns w c))"
proof -
  let ?k = "(conns w c)\<lparr>c_state := CONN_OPEN, c_type := ty, idin := a, idout := b, c_timestamp := csp_get_ms w\<rparr>"
  let ?w = "set_conn c ?k (w\<lparr>csp_conn_last_given := 0\<rparr>)"
  have "w' = csp_conn_flush_rx_queue c ?w" and c: "c < CSP_CONN_MAX"
    using assms(1) by (auto simp: csp_conn_new_def csp_conn_allocate_eq Let_def set_conn_def csp_get_ms_def split: if_splits)
  moreover have "own_inv X ?w" by (rule own_conn_same_queue) (simp_all add: assms(2))
  ultimately show ?thesis using flush_cap [of X ?w c] by (simp add: set_conn_def)
qed

lemma pkt_flush: "pkt (csp_conn_flush_rx_queue c w) b = pkt w b"
proof (induction c w rule: csp_conn_flush_rx_queue.induct)
  case (1 c w)
  obtain x q where d: "csp_queue_dequeue (c_rx_queue (conns w c)) 0 = (x, q)" by fastforce
  then show ?case using "1.IH" [of x q] by (cases x) (simp_all add: flush_step frame_simps)
qed

lemma conn_new_pkt: "csp_conn_new a b ty w = (x, w') \<Longrightarrow> pkt w' p = pkt w p"
  by (auto simp: csp_conn_new_def csp_conn_allocate_eq Let_def pkt_flush split: if_splits) (simp_all add: pkt_def)

text \<open>A packet for this node with supported options, when duplicates are not looked for.\<close>

definition arrives :: "('a) csp_cn_scheme \<Rightarrow> nat \<Rightarrow> nat \<Rightarrow> bool" where
  "arrives w i p \<longleftrightarrow> (\<exists>es. qf_items w = \<lparr>qe_iface = Some i, qe_packet = Some p\<rparr> # es) \<and> is_to_me i p w \<and>
     dedup (csp_conf w) = CSP_DEDUP_OFF \<and> flags (p_id (pkt w p)) AND CSP_FRDP = 0 \<and>
     (flags (p_id (pkt w p)) AND CSP_FHMAC \<noteq> 0 \<longrightarrow> use_hmac w)"

lemma route_step_next:
  assumes s: "sys_ok X w" and q: "qf_items w = \<lparr>qe_iface = Some i, qe_packet = Some p\<rparr> # es"
  shows "\<exists>qq. let v = w\<lparr>qfifo_queue_handle := qq\<rparr>
     in qf_items v = es \<and> sys_ok (add_mset p X) v \<and> route_step drv w = route_packet drv i p v"
proof -
  obtain qq where v: "csp_qfifo_read w = (CSP_ERR_NONE, Some \<lparr>qe_iface = Some i, qe_packet = Some p\<rparr>, w\<lparr>qfifo_queue_handle := qq\<rparr>)"
      "qf_items (w\<lparr>qfifo_queue_handle := qq\<rparr>) = es" "own_inv (add_mset p X) (w\<lparr>qfifo_queue_handle := qq\<rparr>)"
    using own_qfifo_read [OF sys_ok_own [OF s]] by (auto simp: q elem_refs_def)
  have "sys_ok (add_mset p X) (w\<lparr>qfifo_queue_handle := qq\<rparr>)" using v(3) s by (simp add: sys_ok_def frame_simps)
  moreover have "route_step drv w = route_packet drv i p (w\<lparr>qfifo_queue_handle := qq\<rparr>)"
    using v(1) by (simp add: route_step_def csp_conn_check_timeouts_def)
  ultimately show ?thesis using v(2) by (auto simp: Let_def)
qed

lemma passes_qfifo: "sys_ok (add_mset p X) (w\<lparr>qfifo_queue_handle := q\<rparr>) \<Longrightarrow> passes p X w (w\<lparr>qfifo_queue_handle := q\<rparr>)"
  by (simp add: passes_def pkt_def)

lemma arrives_before:
  assumes s: "sys_ok X w" and a: "arrives w i p" and q: "qf_items w = \<lparr>qe_iface = Some i, qe_packet = Some p\<rparr> # es"
  shows "\<exists>qq. let u = w\<lparr>qfifo_queue_handle := qq\<rparr>; v = before_local i p u
     in qf_items u = es \<and> passes p X w v \<and> csp_route_check_options i p v = (CSP_ERR_NONE, v) \<and> route_step drv w = route_local i p v"
proof -
  obtain qq where u: "sys_ok (add_mset p X) (w\<lparr>qfifo_queue_handle := qq\<rparr>)" "qf_items (w\<lparr>qfifo_queue_handle := qq\<rparr>) = es"
      "route_step drv w = route_packet drv i p (w\<lparr>qfifo_queue_handle := qq\<rparr>)"
    using route_step_next [OF s q, of drv] by (auto simp: Let_def)
  let ?u = "w\<lparr>qfifo_queue_handle := qq\<rparr>" and ?c = "count_rx i p (w\<lparr>qfifo_queue_handle := qq\<rparr>)"
  let ?v = "before_local i p ?u"
  have P: "passes p X w ?v" by (rule passes_trans [OF passes_qfifo [OF u(1)] before_local_passes [OF u(1)]])
  have "by_addr_loop ?u b l = by_addr_loop w b l" for b l by (induction l) simp_all
  then have me: "is_to_me i p ?u" using a by (simp add: arrives_def is_to_me_def csp_iflist_get_by_addr_def pkt_def)
  have "csp_conf ?c = csp_conf w" by (simp add: count_rx_def set_iface_def)
  then have "\<not> dedup_wanted True ?c" using a by (simp add: arrives_def dedup_wanted_def csp_dedup_defs)
  then have "route_packet drv i p ?u = route_local i p ?v"
    using me by (simp add: route_packet_def csp_input_hook_def before_local_def Let_def)
  moreover have "csp_route_check_options i p ?v = (CSP_ERR_NONE, ?v)"
    using a passesD(6,8) [OF P] by (auto simp: csp_route_check_options_def arrives_def)
  ultimately show ?thesis using P u(2,3) by (auto simp: Let_def)
qed

lemma arrives_local:
  assumes s: "sys_ok X w" and a: "arrives w i p"
  shows "\<exists>v. passes p X w v \<and> csp_route_check_options i p v = (CSP_ERR_NONE, v) \<and> route_step drv w = route_local i p v"
proof -
  obtain es where "qf_items w = \<lparr>qe_iface = Some i, qe_packet = Some p\<rparr> # es" using a by (auto simp: arrives_def)
  from arrives_before [OF s a this, of drv] show ?thesis unfolding Let_def by blast
qed

lemma passes_ports: "passes p X w v \<Longrightarrow> csp_port_get_callback n v = csp_port_get_callback n w \<and> csp_port_get_socket n v = csp_port_get_socket n w"
  unfolding csp_port_get_callback_def csp_port_get_socket_def by (simp only: passesD(4))

lemma route_local_calls:
  assumes s: "sys_ok (add_mset p X) v" and o: "csp_route_check_options i p v = (CSP_ERR_NONE, v)"
    and f: "csp_port_get_callback (unat (dport (p_id (pkt v p)))) v = Some f" and a: "accepted CSP_SO_CRC32REQ v p \<noteq> None"
  shows "\<exists>u. route_local i p v = Some (Call f p u)"
proof -
  obtain r w1 where k: "csp_route_security_check CSP_SO_CRC32REQ i p v = Some (r, w1)"
      "case accepted CSP_SO_CRC32REQ v p of None \<Rightarrow> r \<noteq> CSP_ERR_NONE | Some m \<Rightarrow> r = CSP_ERR_NONE \<and> payload (pkt w1 p) = m"
    using security_check_spec [OF s] by metis
  then have "r = CSP_ERR_NONE" using a by auto
  then show ?thesis using k(1) o f by (simp add: route_local_def Let_def)
qed

section \<open>Example states\<close>

abbreviation (input) drop_all :: "('a) callbacks" where "drop_all \<equiv> \<lambda>f p w. Some (csp_buffer_free (Some p) w)"

text \<open>The example state with port 1 bound, and with a request from node 20 in the router's queue.\<close>

definition ex_bound :: "csp_port \<Rightarrow> u32 \<Rightarrow> csp_cn" where
  "ex_bound b opts = ex_cn\<lparr>ports := (ports ex_cn)[1 := b], sockets := (\<lambda>s. (sockets ex_cn s)\<lparr>s_opts := opts\<rparr>)\<rparr>"

definition ex_request :: csp_packet where
  "ex_request = snd (csp_crc32_append
     (packet_zero\<lparr>p_length := 1, p_id := \<lparr>pri = 2, flags = 1, src = 20, dst = 0, dport = 1, sport = 33\<rparr>\<rparr>))"

definition ex_arrived :: "csp_port \<Rightarrow> u32 \<Rightarrow> csp_cn" where
  "ex_arrived b opts = csp_qfifo_write (Some 0) (Some csp_if_lo) False (set_pkt 0 ex_request (ex_bound b opts))"

lemma ex_request_facts:
  "packet_ok ex_request" "p_id ex_request = \<lparr>pri = 2, flags = 1, src = 20, dst = 0, dport = 1, sport = 33\<rparr>"
  "crc_good v (p_id ex_request) (payload ex_request)" "take (length (payload ex_request) - 4) (payload ex_request) = [0]"
proof -
  let ?p = "packet_zero\<lparr>p_length := 1, p_id := \<lparr>pri = 2, flags = 1, src = 20, dst = 0, dport = 1, sport = 33\<rparr>\<rparr>"
  have ok: "packet_ok ?p" by (simp add: packet_ok_def packet_zero_def)
  have pl: "payload ?p = [0]" by (simp add: payload_def mem_read_def packet_zero_def)
  have "unat (p_length ?p) + 4 \<le> CSP_BUFFER_SIZE" by simp
  from crc32_append_ok [OF ok this] have "csp_crc32_append ?p = (CSP_ERR_NONE, ex_request)" by (simp add: ex_request_def)
  note A = crc32_append_packet [OF ok this]
  show "packet_ok ex_request" by (fact A(1))
  show "p_id ex_request = \<lparr>pri = 2, flags = 1, src = 20, dst = 0, dport = 1, sport = 33\<rparr>" using A(3) by simp
  show "crc_good v (p_id ex_request) (payload ex_request)" "take (length (payload ex_request) - 4) (payload ex_request) = [0]"
    unfolding A(4) pl by (simp_all add: crc_good_def)
qed

lemma ex_bound_sys:
  assumes "\<And>s. b = PORT_OPEN s \<Longrightarrow> s = 0"
  shows "sys_ok {#0#} (ex_bound b opts)"
proof -
  have h: "held (ex_bound b opts) = held ex_cn"
    by (simp add: ex_bound_def held_def qf_refs_def qf_items_def pm_refs_def so_refs_def)
  have "queues_ok (ex_bound b opts) = queues_ok ex_cn"
    by (simp add: ex_bound_def queues_ok_def qf_ok_def qf_entries_ok_def qf_items_def)
  moreover have "bufs_inv M (ex_bound b opts) = bufs_inv M ex_cn" for M
    by (simp add: ex_bound_def bufs_inv_def free_list_def pkt_def)
  ultimately have "own_inv {#0#} (ex_bound b opts)" using ex_cn_inv by (simp add: own_inv_def h)
  moreover have "net_ok (ex_bound b opts)"
  proof -
    have "ports_ok (ex_bound b opts)" using assms
      by (auto simp: ports_ok_def ex_bound_def ex_cn_fields nth_list_update)
    moreover have "socks_ok (ex_bound b opts)"
      by (simp add: socks_ok_def ex_bound_def ex_cn_fields ex_socket_def new_queue_facts)
    ultimately show ?thesis using ex_cn_sys(1)
      by (simp add: sys_ok_def net_ok_def routes_ok_def dedup_ok_def conns_ok_def ex_bound_def conn_ok_def ex_cn_fields ex_conn_def)
  qed
  ultimately show ?thesis by (simp add: sys_ok_def)
qed

lemma ex_arrived_fields:
  "ports (ex_arrived b opts) = (replicate 34 PORT_CLOSED)[1 := b]"
  "sockets (ex_arrived b opts) s = \<lparr>rx_queue = new_queue (RxPacket 0), s_opts = opts\<rparr>"
  "conns (ex_arrived b opts) c = ex_conn" "use_hmac (ex_arrived b opts)" "pkt (ex_arrived b opts) 0 = ex_request"
  "csp_conf (ex_arrived b opts) = boot_conf" "interfaces (ex_arrived b opts) = [0, 1, 2]"
proof -
  let ?w = "set_pkt 0 ex_request (ex_bound b opts)"
  have k: "settings (ex_arrived b opts) = settings ?w" "pkt (ex_arrived b opts) 0 = pkt ?w 0"
    by (simp_all only: ex_arrived_def qfifo_write_pkt)
  show "pkt (ex_arrived b opts) 0 = ex_request" using k(2) by simp
  show "ports (ex_arrived b opts) = (replicate 34 PORT_CLOSED)[1 := b]"
    "sockets (ex_arrived b opts) s = \<lparr>rx_queue = new_queue (RxPacket 0), s_opts = opts\<rparr>"
    "conns (ex_arrived b opts) c = ex_conn" "use_hmac (ex_arrived b opts)"
    using k(1) by (simp_all add: settings_def set_pkt_def ex_bound_def ex_cn_fields ex_socket_def)
  show "csp_conf (ex_arrived b opts) = boot_conf" "interfaces (ex_arrived b opts) = [0, 1, 2]"
    using k(1) by (simp_all add: settings_def set_pkt_def ex_bound_def)
      (simp_all add: ex_cn_def ex_pm_def ex_dd_def ex_ks_def ex_qf_def ex_rt_def ex_ifs3_def ex_ifs_def ready_bufs_def boot_bufs_def
        csp_pm.defs csp_dd.defs csp_ks.defs csp_qf.defs csp_rt.defs csp_ifs.defs csp_bufs.defs)
qed

lemma ex_arrived_sys:
  assumes "\<And>s. b = PORT_OPEN s \<Longrightarrow> s = 0"
  shows "sys_ok {#} (ex_arrived b opts)"
proof -
  have s: "sys_ok {#0#} (set_pkt 0 ex_request (ex_bound b opts))"
    using ex_bound_sys [OF assms] by (intro sys_set_own_pkt) (simp_all add: ex_request_facts)
  note W = own_qfifo_write [OF sys_ok_own [OF s], where i = "Some csp_if_lo" and isr = False]
  show ?thesis using W(1) net_ok_kept [OF W(2)] s by (simp add: sys_ok_def ex_arrived_def)
qed

lemma ex_arrived_arrives: "arrives (ex_arrived b opts) 0 0"
proof -
  let ?w = "set_pkt 0 ex_request (ex_bound b opts)"
  have q: "qfifo_queue_handle ?w = qfifo_queue_handle ex_qf"
    by (simp add: set_pkt_def ex_bound_def ex_cn_def ex_pm_def ex_dd_def ex_ks_def csp_pm.defs csp_dd.defs csp_ks.defs)
      (simp add: csp_qf.defs)
  have "qf_ok ?w" "qf_items ?w = []" using ex_qf_ok by (simp_all add: qf_ok_def qf_items_def q)
  then have "qf_items (ex_arrived b opts) = [\<lparr>qe_iface = Some csp_if_lo, qe_packet = Some 0\<rparr>]"
    by (simp add: ex_arrived_def qf_items_write)
  moreover have "addr (ifaces (ex_arrived b opts) 0) = 0"
  proof -
    have "settings (ex_arrived b opts) = settings ?w" by (simp only: ex_arrived_def qfifo_write_pkt)
    then have "iface_cfg (ifaces (ex_arrived b opts) 0) = iface_cfg (ifaces ?w 0)" by (simp add: settings_def fun_eq_iff)
    moreover have "ifaces ?w 0 = ex_ifaces 0"
      by (simp add: set_pkt_def ex_bound_def)
        (simp add: ex_cn_def ex_pm_def ex_dd_def ex_ks_def ex_qf_def ex_rt_def ex_ifs3_def ex_ifs_def
          csp_pm.defs csp_dd.defs csp_ks.defs csp_qf.defs csp_rt.defs csp_ifs.defs csp_bufs.defs)
    ultimately show ?thesis by (simp add: iface_cfg_def ex_ifaces_def no_iface_def)
  qed
  ultimately show ?thesis
    by (simp add: arrives_def is_to_me_def csp_iflist_get_by_addr_def ex_arrived_fields ex_request_facts boot_conf_def)
qed

lemma ex_arrived_accepted:
  assumes "opts' AND CSP_SO_HMACREQ = 0"
  shows "accepted opts' (ex_arrived b opts) 0 = Some [0]"
  using assms ex_request_facts(3) [of 2] ex_request_facts(4)
  by (simp add: accepted_def crc_passed_def hmac_passed_def ex_arrived_fields ex_request_facts boot_conf_def)

section \<open>Properties\<close>

text \<open>
  \<^bold>\<open>Claim C2.\<close> The router never crashes and never loses a packet: from a well-formed node, whatever is in
  its queue, one call of \<open>csp_route_work\<close> returns, every packet reference ends in a queue, with the pool or
  with a callback, and the node is well formed again: ports, sockets, connections, routes and the record of
  duplicates. Of a driver and of a callback only the documented contract is assumed.
\<close>

theorem router_keeps_invariant:
  assumes "transmitter drv"
    and "\<And>f p X v. sys_ok (add_mset p X) v \<Longrightarrow> ready f p v \<Longrightarrow> \<exists>v'. cb f p v = Some v' \<and> sys_ok X v'"
    and "sys_ok X w" and "\<And>f p v. route_step drv w = Some (Call f p v) \<Longrightarrow> ready f p v"
  shows "\<exists>r w'. csp_route_work drv cb w = Some (r, w') \<and> sys_ok X w'"
proof -
  have "port_callbacks cb ready" using assms(2) by unfold_locales
  from port_callbacks.work_ok [OF this assms(1,3,4)] show ?thesis .
qed

theorem router_keeps_invariant_witness:
  "\<exists>r w'. csp_route_work csp_lo_tx drop_all (ex_arrived PORT_CLOSED 0) = Some (r, w') \<and> sys_ok {#} w'"
  using router_keeps_invariant [OF nlo.transmitter_axioms _ ex_arrived_sys, of "\<lambda>f p v. True" drop_all] sys_free by blast

text \<open>What reaches a callback.\<close>

lemma route_step_call:
  assumes d: "transmitter drv" and s: "sys_ok X w" and c: "route_step drv w = Some (Call f p v)"
  shows "sys_ok (add_mset p X) v \<and> (\<exists>i es. qf_items w = \<lparr>qe_iface = Some i, qe_packet = Some p\<rparr> # es) \<and>
     csp_port_get_callback (unat (dport (p_id (pkt w p)))) w = Some f \<and>
     flags (p_id (pkt w p)) AND CSP_FCRC32 \<noteq> 0 \<and> crc_good (version (csp_conf w)) (p_id (pkt w p)) (payload (pkt w p)) \<and>
     p_id (pkt v p) = p_id (pkt w p) \<and> accepted CSP_SO_CRC32REQ w p = Some (payload (pkt v p))"
proof -
  have sv: "sys_ok (add_mset p X) v" using route_step_ok [OF d s] c by (simp add: result_ok_def)
  obtain i q u where n: "next_packet w i q u" "sys_ok (add_mset q X) u" "route_packet drv i q u = Some (Call f p v)"
    using route_step_cases [OF s, of drv] c by auto
  obtain x where x: "passes q X u x" "route_local i q x = Some (Call f p v)" using route_packet_ok(2) [OF d n(2,3)] by blast
  have u: "passes q X w u" "\<exists>es. qf_items w = \<lparr>qe_iface = Some i, qe_packet = Some q\<rparr> # es"
    using n(1,2) passes_qfifo by (auto simp: next_packet_def)
  note P = passes_trans [OF u(1) x(1)]
  obtain r0 w0 where o: "csp_route_check_options i q x = (r0, w0)" by fastforce
  note H0 = check_options_holds [OF passes_sys [OF P] o]
  have l: "r0 = CSP_ERR_NONE" "csp_port_get_callback (unat (dport (p_id (pkt w0 q)))) w0 = Some f"
      "csp_route_security_check CSP_SO_CRC32REQ i q w0 = Some (CSP_ERR_NONE, v)" "p = q"
    using x(2) o by (auto simp: route_local_def Let_def split: if_splits option.splits prod.splits)
  have w0: "w0 = x" using o l(1) by (auto simp: csp_route_check_options_def CSP_ERR_NOTSUP_def CSP_ERR_NONE_def split: if_splits)
  obtain r1 w1 where k: "csp_route_security_check CSP_SO_CRC32REQ i q w0 = Some (r1, w1)" "holds q X w0 w1"
      "case accepted CSP_SO_CRC32REQ w0 q of None \<Rightarrow> r1 \<noteq> CSP_ERR_NONE | Some m \<Rightarrow> r1 = CSP_ERR_NONE \<and> payload (pkt w1 q) = m"
    using security_check_spec [OF holds_sys [OF H0]] by metis
  have a: "accepted CSP_SO_CRC32REQ w q = Some (payload (pkt v p))"
    using k l(3,4) passesD(11) [OF P] by (auto simp: w0 split: option.splits)
  then have "flags (p_id (pkt w q)) AND CSP_FCRC32 \<noteq> 0" "crc_good (version (csp_conf w)) (p_id (pkt w q)) (payload (pkt w q))"
    by (auto simp: accepted_def crc_passed_def split: if_splits bind_splits)
  moreover have "csp_port_get_callback (unat (dport (p_id (pkt w q)))) w = Some f"
    using l(2) passes_ports [OF P] passesD(8) [OF P] by (simp add: w0)
  moreover have "p_id (pkt v q) = p_id (pkt w q)" using holdsD(6) [OF k(2)] k(1) l(3) passesD(8) [OF P] by (simp add: w0)
  ultimately show ?thesis using sv u(2) a l(4) by blast
qed

text \<open>
  \<^bold>\<open>Claim C10.\<close> A callback only ever sees packets whose CRC-32 was verified, even when the sender did not ask
  for one: it is called with the packet at the head of the router's queue, for the port that packet is
  addressed to, after checksum and authentication code were checked and cut off.
\<close>

theorem callbacks_get_verified_packets:
  assumes d: "transmitter drv" and s: "sys_ok X w" and c: "route_step drv w = Some (Call f p v)"
  shows "sys_ok (add_mset p X) v \<and> (\<exists>i es. qf_items w = \<lparr>qe_iface = Some i, qe_packet = Some p\<rparr> # es) \<and>
     csp_port_get_callback (unat (dport (p_id (pkt w p)))) w = Some f \<and>
     flags (p_id (pkt w p)) AND CSP_FCRC32 \<noteq> 0 \<and> crc_good (version (csp_conf w)) (p_id (pkt w p)) (payload (pkt w p)) \<and>
     p_id (pkt v p) = p_id (pkt w p) \<and> accepted CSP_SO_CRC32REQ w p = Some (payload (pkt v p))"
  by (rule route_step_call [OF assms])

theorem callbacks_get_verified_packets_witness:
  "\<exists>f p v. route_step csp_lo_tx (ex_arrived (PORT_OPEN_CB CbService) 0) = Some (Call f p v) \<and>
     accepted CSP_SO_CRC32REQ (ex_arrived (PORT_OPEN_CB CbService) 0) p = Some (payload (pkt v p))"
proof -
  let ?w = "ex_arrived (PORT_OPEN_CB CbService) 0"
  have s: "sys_ok {#} ?w" by (rule ex_arrived_sys) simp
  obtain v where v: "passes 0 {#} ?w v" "csp_route_check_options 0 0 v = (CSP_ERR_NONE, v)" "route_step csp_lo_tx ?w = route_local 0 0 v"
    using arrives_local [OF s ex_arrived_arrives] by blast
  have "csp_port_get_callback (unat (dport (p_id (pkt v 0)))) v = Some CbService"
    by (simp add: csp_port_get_callback_def passesD(4,8) [OF v(1)] ex_arrived_fields ex_request_facts)
  moreover have "accepted CSP_SO_CRC32REQ v 0 \<noteq> None" by (simp add: passesD(11) [OF v(1)] ex_arrived_accepted)
  ultimately obtain u where "route_local 0 0 v = Some (Call CbService 0 u)"
    using route_local_calls [OF passes_sys [OF v(1)] v(2)] by blast
  then have "route_step csp_lo_tx ?w = Some (Call CbService 0 u)" using v(3) by simp
  from callbacks_get_verified_packets [OF nlo.transmitter_axioms s this] this show ?thesis by blast
qed



text \<open>What waits in a connection is read, and a connection that waits in a socket is accepted.\<close>

lemma read_waiting:
  assumes "sys_ok X w" and "c < CSP_CONN_MAX" and "c_state (conns w c) = CONN_OPEN"
    and "qh_items (c_rx_queue (conns w c)) = p # ps"
  shows "\<exists>q. csp_read (Some c) t w = (Some p, set_conn c ((conns w c)\<lparr>c_rx_queue := q\<rparr>) w)"
proof -
  obtain q where "csp_queue_dequeue (c_rx_queue (conns w c)) t = (Some p, q)"
    using qh_recv_Cons [OF own_conn_queue_ok [OF sys_ok_own [OF assms(1)] assms(2)] assms(4), of t] by (metis prod.collapse)
  then show ?thesis using assms(3) by (auto simp: csp_read_def)
qed

lemma accept_waiting:
  assumes "sys_ok X w" and "s < n_sockets w" and "qh_items (rx_queue (sockets w s)) = RxConn c # cs"
  shows "\<exists>q. csp_accept (Some s) t w = Some (Some c, set_socket s ((sockets w s)\<lparr>rx_queue := q\<rparr>) w) \<and>
    sys_ok X (set_socket s ((sockets w s)\<lparr>rx_queue := q\<rparr>) w)"
proof -
  obtain q where q: "csp_queue_dequeue (rx_queue (sockets w s)) t = (Some (RxConn c), q)"
    using qh_recv_Cons [OF own_socket_queue_ok [OF sys_ok_own [OF assms(1)] assms(2)] assms(3), of t] by (metis prod.collapse)
  have "rx_queue (sockets w s) \<noteq> None"
    using assms(3) by (cases "rx_queue (sockets w s)") (simp_all add: qh_items_def)
  then show ?thesis using socket_dequeue_ok(1) [OF assms(1,2) q] q by (auto simp: csp_accept_def)
qed

text \<open>The first packet for a socket opens the free connection.\<close>

lemma opens_connection:
  assumes P: "passes p X w v" and ports: "ports_ok w"
    and so: "csp_port_get_socket (unat (dport (p_id (pkt w p)))) w = Some s" and cl: "\<not> conn_less w s"
    and closed: "c_state (conns w 0) = CONN_CLOSED" and acc: "accepted (s_opts (sockets w s)) w p = Some m"
  shows "\<exists>w3. find_or_open (Some s) i p v = Some (Some 0, w3) \<and> sys_ok (add_mset p X) w3 \<and> payload (pkt w3 p) = m \<and>
    c_state (conns w3 0) = CONN_OPEN \<and> qh_items (c_rx_queue (conns w3 0)) = [] \<and>
    qh_cap (c_rx_queue (conns w3 0)) = qh_cap (c_rx_queue (conns w 0)) \<and> dest_socket (conns w3 0) = Some s \<and>
    idin (conns w3 0) = p_id (pkt w p) \<and> sockets w3 = sockets w \<and> n_sockets w3 = n_sockets w"
proof -
  note V = passesD [OF P] and sv = passes_sys [OF P]
  have so': "\<And>t. Some s = Some t \<Longrightarrow> t < n_sockets v \<and> \<not> conn_less v t \<and> unat (dport (p_id (pkt v p))) \<le> CSP_PORT_MAX_BIND"
    using get_socket_ok [OF ports so] cl by (simp add: V)
  have none: "csp_conn_find_existing ident v = None" for ident
    using closed by (simp add: csp_conn_find_existing_def V Let_def)
  obtain w1 where k: "csp_route_security_check (s_opts (sockets v s)) i p v = Some (CSP_ERR_NONE, w1)" "holds p X v w1"
      "payload (pkt w1 p) = m"
    using security_check_spec [OF sv, of "s_opts (sockets v s)" i] acc by (auto simp: V)
  note H = holdsD [OF k(2)] and s1 = holds_sys [OF k(2)]
  let ?id = "p_id (pkt w1 p)"
  obtain x w2 where nw: "csp_conn_new ?id (answer_id ?id) CONN_SERVER w1 = (x, w2)" by fastforce
  have "x \<noteq> None" using conn_new_None [of ?id "answer_id ?id" CONN_SERVER w1 w2] nw closed by (auto simp: H V)
  then obtain c where x: "x = Some c" by blast
  note N = conn_new_Some [OF nw [unfolded x] sys_ok_own [OF s1]] and cap = conn_new_cap [OF nw [unfolded x] sys_ok_own [OF s1]]
  have c0: "c = 0" using N(1) by simp
  obtain pl bu e q where u: "w2 = w1\<lparr>csp_conn_last_given := 0, pool := pl, csp_buffers := bu, dbg_errno := e,
       conns := (conns w1)(0 := (conns w1 0)\<lparr>c_state := CONN_OPEN, c_type := CONN_SERVER, idin := ?id, idout := answer_id ?id,
         c_timestamp := csp_get_ms w1, c_rx_queue := q\<rparr>)\<rparr>" "qh_items q = []"
    using N(4) unfolding c0 by blast
  let ?w3 = "set_conn 0 ((conns w2 0)\<lparr>dest_socket := Some s, c_opts := s_opts (sockets w2 s)\<rparr>) w2"
  have f: "find_or_open (Some s) i p v = Some (Some 0, ?w3)"
    using none k(1) nw by (simp add: find_or_open_def x c0)
  have K: "c_state (conns ?w3 0) = CONN_OPEN" "qh_items (c_rx_queue (conns ?w3 0)) = []"
      "qh_cap (c_rx_queue (conns ?w3 0)) = qh_cap (c_rx_queue (conns w 0))" "dest_socket (conns ?w3 0) = Some s"
      "idin (conns ?w3 0) = p_id (pkt w p)" "sockets ?w3 = sockets w" "n_sockets ?w3 = n_sockets w"
    using u(2) cap by (simp_all add: set_conn_def u(1) c0 H V)
  have "sys_ok (add_mset p X) ?w3" using find_or_open_ok [where so = "Some s" and i = i, OF sv so'] f by auto
  moreover have "payload (pkt ?w3 p) = m" using k(3) conn_new_pkt [OF nw] by simp
  ultimately show ?thesis using f K by blast
qed

text \<open>
  \<^bold>\<open>Claim C14.\<close> A first packet opens a connection that works: when it is addressed to a socket that takes
  connections, passes the socket's checks and a connection is free, the router opens a server connection
  with the packet's identifier, answers going back to its source; accepting on the socket returns that
  connection, and reading from it returns the packet.
\<close>

theorem connection_established:
  assumes s: "sys_ok X w" and a: "arrives w i p" and n: "csp_port_get_callback (unat (dport (p_id (pkt w p)))) w = None"
    and so: "csp_port_get_socket (unat (dport (p_id (pkt w p)))) w = Some s" and cl: "\<not> conn_less w s"
    and closed: "c_state (conns w 0) = CONN_CLOSED" and acc: "accepted (s_opts (sockets w s)) w p = Some m"
    and room: "qh_items (rx_queue (sockets w s)) = []" "0 < qh_cap (rx_queue (sockets w s))" "0 < qh_cap (c_rx_queue (conns w 0))"
  shows "\<exists>w1 w2 w3. csp_route_work drv cb w = Some (CSP_ERR_NONE, w1) \<and> sys_ok X w1 \<and>
     csp_accept (Some s) t1 w1 = Some (Some 0, w2) \<and> csp_read (Some 0) t2 w2 = (Some p, w3) \<and>
     payload (pkt w3 p) = m \<and> idin (conns w3 0) = p_id (pkt w p)"
proof -
  obtain v where v: "passes p X w v" "csp_route_check_options i p v = (CSP_ERR_NONE, v)" "route_step drv w = route_local i p v"
    using arrives_local [OF s a] by blast
  note P = passesD [OF v(1)] and B = passes_ports [OF v(1)]
  have ports: "ports_ok w" using s by (simp add: sys_ok_def net_ok_def)
  obtain w3 where w3: "find_or_open (Some s) i p v = Some (Some 0, w3)" "sys_ok (add_mset p X) w3" "payload (pkt w3 p) = m"
      "c_state (conns w3 0) = CONN_OPEN" "qh_items (c_rx_queue (conns w3 0)) = []"
      "qh_cap (c_rx_queue (conns w3 0)) = qh_cap (c_rx_queue (conns w 0))" "dest_socket (conns w3 0) = Some s"
      "idin (conns w3 0) = p_id (pkt w p)" "sockets w3 = sockets w" "n_sockets w3 = n_sockets w"
    using opens_connection [OF v(1) ports so cl closed acc] by blast
  obtain w4 where w4: "deliver_conn 0 p w3 = (CSP_ERR_NONE, w4)" "sys_ok X w4" "qh_items (c_rx_queue (conns w4 0)) = [p]"
      "pkt w4 p = pkt w3 p" "c_state (conns w4 0) = CONN_OPEN" "idin (conns w4 0) = p_id (pkt w p)"
      "qh_items (rx_queue (sockets w4 s)) = [RxConn 0]" "n_sockets w4 = n_sockets w"
    using deliver_conn_ok [OF w3(2) _ w3(4)] w3(5-10) room by auto
  have "route_local i p v = Some (Done CSP_ERR_NONE w4)"
    using v(2) n so cl B w3(1) w4(1)
    by (simp add: route_local_def P Let_def takes_packets_def conn_less_def deliver_or_open_def)
  then have R: "csp_route_work drv cb w = Some (CSP_ERR_NONE, w4)" using v(3) by (simp add: csp_route_work_def)
  obtain q where A: "csp_accept (Some s) t1 w4 = Some (Some 0, set_socket s ((sockets w4 s)\<lparr>rx_queue := q\<rparr>) w4)" (is "_ = Some (_, ?w5)")
      and s5: "sys_ok X (set_socket s ((sockets w4 s)\<lparr>rx_queue := q\<rparr>) w4)"
    using accept_waiting [OF w4(2) _ w4(7)] get_socket_ok(1) [OF ports so] w4(8) by auto
  have c5: "conns ?w5 = conns w4" by (simp add: set_socket_def)
  obtain q' where "csp_read (Some 0) t2 ?w5 = (Some p, set_conn 0 ((conns w4 0)\<lparr>c_rx_queue := q'\<rparr>) ?w5)"
    using read_waiting [OF s5, of 0 p "[]" t2] w4(3,5) by (auto simp: c5)
  moreover have "idin (conns (set_conn 0 ((conns w4 0)\<lparr>c_rx_queue := q'\<rparr>) ?w5) 0) = p_id (pkt w p)"
    using w4(6) by (simp add: set_conn_def)
  ultimately show ?thesis using R w4(2,4) A w3(3) by (intro exI conjI) simp_all
qed

theorem connection_established_witness:
  "\<exists>w1 w2 w3. csp_route_work csp_lo_tx drop_all (ex_arrived (PORT_OPEN 0) 0) = Some (CSP_ERR_NONE, w1) \<and>
     csp_accept (Some 0) 1000 w1 = Some (Some 0, w2) \<and> csp_read (Some 0) 1000 w2 = (Some 0, w3) \<and> payload (pkt w3 0) = [0]"
proof -
  let ?w = "ex_arrived (PORT_OPEN 0) 0"
  have "csp_port_get_callback (unat (dport (p_id (pkt ?w 0)))) ?w = None" "csp_port_get_socket (unat (dport (p_id (pkt ?w 0)))) ?w = Some 0"
    "\<not> conn_less ?w 0" "c_state (conns ?w 0) = CONN_CLOSED" "accepted (s_opts (sockets ?w 0)) ?w 0 = Some [0]"
    "qh_items (rx_queue (sockets ?w 0)) = []" "0 < qh_cap (rx_queue (sockets ?w 0))" "0 < qh_cap (c_rx_queue (conns ?w 0))"
    by (simp_all add: ex_arrived_fields ex_request_facts csp_port_get_callback_def csp_port_get_socket_def conn_less_def ex_conn_def
        new_queue_facts ex_arrived_accepted)
  from connection_established [OF ex_arrived_sys ex_arrived_arrives this, of csp_lo_tx drop_all 1000 1000] show ?thesis by blast
qed

end
