(* ===== verification/Bridge.thy ===== *)
theory Bridge
  imports Delivery
begin

text \<open>
  The bridge (\<open>src/csp_bridge.c\<close>), which runs instead of the router: every packet that is not a duplicate
  goes out through the other of two interfaces, unchanged.
\<close>

section \<open>State and operations\<close>

record csp_br = csp_cn +
  bif_a :: "nat option"
  bif_b :: "nat option"

definition csp_bridge_set_interfaces :: "nat option \<Rightarrow> nat option \<Rightarrow> ('a) csp_br_scheme \<Rightarrow> ('a) csp_br_scheme" where
  "csp_bridge_set_interfaces if_a if_b w = w\<lparr>bif_a := if_a, bif_b := if_b\<rparr>"

text \<open>\<open>None\<close> is a NULL dereference. The messages printed for an unset interface or a duplicate are left out.\<close>

definition csp_bridge_work :: "('a csp_br_ext) driver \<Rightarrow> ('a) csp_br_scheme \<Rightarrow> ('a) csp_br_scheme option" where
  "csp_bridge_work drv w =
     (if bif_a w = None \<or> bif_b w = None then Some w
      else case csp_qfifo_read w of
        (r, e, w) \<Rightarrow>
          if r \<noteq> CSP_ERR_NONE then Some w
          else case e of
            None \<Rightarrow> None
          | Some input \<Rightarrow>
              (case qe_packet input of
                 None \<Rightarrow> Some w
               | Some packet \<Rightarrow>
                   (case csp_dedup_is_duplicate packet w of
                      None \<Rightarrow> None
                    | Some (True, w) \<Rightarrow> Some (csp_buffer_free (Some packet) w)
                    | Some (False, w) \<Rightarrow>
                        (case qe_iface input of
                           None \<Rightarrow> None
                         | Some iface \<Rightarrow>
                             let w = csp_input_hook iface packet w;
                                 w = (if use_promisc w then csp_promisc_add packet w else w);
                                 destif = (if Some iface = bif_a w then bif_b w else bif_a w)
                             in case destif of
                                  None \<Rightarrow> None
                                | Some d \<Rightarrow> csp_send_direct_iface drv (IdOfPacket packet) packet d CSP_NO_VIA_ADDRESS False w))))"

section \<open>Properties\<close>

text \<open>The two interfaces stay as they are.\<close>

lemma bridge_fields_buf:
  "bif_a (csp_buffer_free x w) = bif_a w" "bif_b (csp_buffer_free x w) = bif_b w"
  "csp_buffer_clone y w = (g, w') \<Longrightarrow> bif_a w' = bif_a w \<and> bif_b w' = bif_b w"
proof -
  show "bif_a (csp_buffer_free x w) = bif_a w" "bif_b (csp_buffer_free x w) = bif_b w"
    by (subst csp_buffer_free_more, simp)+
  assume c: "csp_buffer_clone y w = (g, w')"
  show "bif_a w' = bif_a w \<and> bif_b w' = bif_b w"
  proof (cases y)
    case None
    then show ?thesis using c by (simp add: csp_buffer_clone_def)
  next
    case (Some b)
    obtain h w1 where g: "csp_buffer_get w = (h, w1)" by fastforce
    then have a: "csp_buffer_get_actual 2 False w = (h, w1)" by (simp add: csp_buffer_get_def)
    have "bif_a w1 = bif_a w \<and> bif_b w1 = bif_b w" by (subst (1 2) get_actual_more [OF a]) simp
    moreover obtain p where cp: "csp_buffer_copy (Some b) h w1 = w1\<lparr>pool := p\<rparr>" using buffer_copy_upd by blast
    have "w' = csp_buffer_copy (Some b) h w1" using c g Some by (auto simp: csp_buffer_clone_def)
    ultimately show ?thesis unfolding cp by simp
  qed
qed

lemma bridge_fields:
  "bif_a (csp_promisc_add p w) = bif_a w \<and> bif_b (csp_promisc_add p w) = bif_b w"
  "csp_dedup_is_duplicate p w = Some (dup, w') \<Longrightarrow> bif_a w' = bif_a w \<and> bif_b w' = bif_b w"
proof -
  obtain g w1 where c: "csp_buffer_clone (Some p) w = (g, w1)" by fastforce
  show "bif_a (csp_promisc_add p w) = bif_a w \<and> bif_b (csp_promisc_add p w) = bif_b w"
    using bridge_fields_buf(3) [OF c] c
    by (simp add: csp_promisc_add_def Let_def bridge_fields_buf(1,2) split: option.split prod.split)
  show "csp_dedup_is_duplicate p w = Some (dup, w') \<Longrightarrow> bif_a w' = bif_a w \<and> bif_b w' = bif_b w"
    by (auto simp: csp_dedup_is_duplicate_def Let_def set_pkt_def split: option.splits bool.splits)
qed

text \<open>
  \<^bold>\<open>Claim C40.\<close> The bridge moves a packet across: with both interfaces set, the packet at the head of the
  queue is dropped when the duplicate search finds it, and otherwise handed once, with the identifier and
  payload it came with, to the interface opposite to the one it came from. Nothing is lost and nothing crashes.
\<close>

theorem bridge_crosses:
  assumes d: "transmitter drv" and s: "sys_ok X w" and ab: "bif_a w = Some a" "bif_b w = Some b"
    and q: "qf_items w = \<lparr>qe_iface = Some i, qe_packet = Some p\<rparr> # es"
  shows "\<exists>dup u v w'. csp_dedup_is_duplicate p (snd (snd (csp_qfifo_read w))) = Some (dup, u) \<and> passes p X w v \<and>
     csp_bridge_work drv w = Some w' \<and> sys_ok X w' \<and>
     (if dup then w' = csp_buffer_free (Some p) v
      else csp_send_direct_iface drv (IdOfPacket p) p (if i = a then b else a) CSP_NO_VIA_ADDRESS False v = Some w')"
proof -
  obtain qq where v: "csp_qfifo_read w = (CSP_ERR_NONE, Some \<lparr>qe_iface = Some i, qe_packet = Some p\<rparr>, w\<lparr>qfifo_queue_handle := qq\<rparr>)"
      "own_inv (add_mset p X) (w\<lparr>qfifo_queue_handle := qq\<rparr>)"
    using own_qfifo_read [OF sys_ok_own [OF s]] by (auto simp: q elem_refs_def)
  let ?u = "w\<lparr>qfifo_queue_handle := qq\<rparr>"
  have su: "sys_ok (add_mset p X) ?u" using v(2) s by (simp add: sys_ok_def frame_simps)
  obtain dup w1 where D: "csp_dedup_is_duplicate p ?u = Some (dup, w1)" "passes p X ?u w1" using dedup_passes [OF su] by blast
  have D': "csp_dedup_is_duplicate p (snd (snd (csp_qfifo_read w))) = Some (dup, w1)" using D(1) by (simp add: v(1))
  note P1 = passes_trans [OF passes_qfifo [OF su] D(2)] and F1 = bridge_fields(2) [OF D(1)]
  show ?thesis
  proof (cases dup)
    case True
    then show ?thesis using v(1) ab D(1) D' P1 sys_free [OF passes_sys [OF P1]]
      by (intro exI [of _ dup] exI [of _ w1] exI [of _ w1] exI [of _ "csp_buffer_free (Some p) w1"] conjI)
        (simp_all add: csp_bridge_work_def)
  next
    case False
    define w2 where "w2 = (if use_promisc w1 then csp_promisc_add p w1 else w1)"
    have P2: "passes p X w w2"
      using P1 passes_trans [OF P1 promisc_passes [OF passes_sys [OF P1]]] by (simp add: w2_def)
    have F2: "bif_a w2 = Some a" "bif_b w2 = Some b" using F1 ab bridge_fields(1) [of p w1] by (simp_all add: w2_def)
    have s2: "sys_ok (add_mset p X) w2" by (rule passes_sys [OF P2])
    have key: "csp_hmac_key w2 \<noteq> []" using s2 by (simp add: sys_ok_def net_ok_def)
    let ?d = "if i = a then b else a"
    obtain w' where w': "csp_send_direct_iface drv (IdOfPacket p) p ?d CSP_NO_VIA_ADDRESS False w2 = Some w'"
        "own_inv X w'" "kept (set_mset X - {p}) w2 w'"
      using send_direct_iface_own [OF d sys_ok_own [OF s2] key] by blast
    have "sys_ok X w'" using w'(2) net_ok_kept [OF w'(3)] s2 by (simp add: sys_ok_def)
    moreover have "csp_bridge_work drv w = Some w'"
      using v(1) ab D(1) False w'(1) F2
      by (cases "i = a") (simp_all add: csp_bridge_work_def csp_input_hook_def Let_def flip: w2_def)
    ultimately show ?thesis using P2 w'(1) D' False
      by (intro exI [of _ dup] exI [of _ w1] exI [of _ w2] exI [of _ w'] conjI) simp_all
  qed
qed

definition ex_br :: csp_br where
  "ex_br = csp_cn.extend (ex_arrived PORT_CLOSED 0) \<lparr>bif_a = Some 0, bif_b = Some 1\<rparr>"

lemma ex_br_fields:
  "csp_conf ex_br = csp_conf (ex_arrived PORT_CLOSED 0)" "pool ex_br = pool (ex_arrived PORT_CLOSED 0)"
  "csp_buffers ex_br = csp_buffers (ex_arrived PORT_CLOSED 0)" "interfaces ex_br = interfaces (ex_arrived PORT_CLOSED 0)"
  "rtable ex_br = rtable (ex_arrived PORT_CLOSED 0)" "rtable_inptr ex_br = rtable_inptr (ex_arrived PORT_CLOSED 0)"
  "qfifo_queue_handle ex_br = qfifo_queue_handle (ex_arrived PORT_CLOSED 0)"
  "csp_dedup_array ex_br = csp_dedup_array (ex_arrived PORT_CLOSED 0)"
  "csp_dedup_timestamp ex_br = csp_dedup_timestamp (ex_arrived PORT_CLOSED 0)" "csp_dedup_in ex_br = csp_dedup_in (ex_arrived PORT_CLOSED 0)"
  "csp_promisc_queue ex_br = csp_promisc_queue (ex_arrived PORT_CLOSED 0)" "csp_hmac_key ex_br = csp_hmac_key (ex_arrived PORT_CLOSED 0)"
  "n_sockets ex_br = n_sockets (ex_arrived PORT_CLOSED 0)" "sockets ex_br = sockets (ex_arrived PORT_CLOSED 0)"
  "ports ex_br = ports (ex_arrived PORT_CLOSED 0)" "conns ex_br = conns (ex_arrived PORT_CLOSED 0)"
  "bif_a ex_br = Some 0" "bif_b ex_br = Some 1"
  by (simp_all add: ex_br_def csp_cn.defs)

lemma ex_br_sys: "sys_ok {#} ex_br"
proof -
  have "sys_ok {#} (ex_arrived PORT_CLOSED 0)" by (rule ex_arrived_sys) simp
  then show ?thesis
    by (simp add: sys_ok_def own_inv_def bufs_inv_def free_list_def pkt_def held_def qf_refs_def qf_items_def pm_refs_def
        queues_ok_def qf_ok_def qf_entries_ok_def net_ok_def ports_ok_def routes_ok_def dedup_ok_def conns_ok_def conn_ok_def
        socks_ok_def conn_less_def ex_br_fields)
qed

theorem bridge_crosses_witness:
  "\<exists>w'. csp_bridge_work csp_lo_tx ex_br = Some w' \<and> sys_ok {#} w'"
proof -
  obtain es where "qf_items ex_br = \<lparr>qe_iface = Some 0, qe_packet = Some 0\<rparr> # es"
    using ex_arrived_arrives [of PORT_CLOSED 0] by (auto simp: arrives_def qf_items_def ex_br_fields)
  from bridge_crosses [OF nlo.transmitter_axioms ex_br_sys ex_br_fields(17,18) this] show ?thesis by auto
qed

end
