(* ===== verification/Sfp.thy ===== *)
theory Sfp
  imports Delivery
begin

text \<open>
  The Simple Fragmentation Protocol (\<open>src/csp_sfp.c\<close>): data larger than a packet is sent as fragments, each
  with its offset and the total size behind it, and put together again by the receiver. \<open>unsigned int\<close> has
  16 bits, \<open>size_t\<close> is wider, so \<open>mtu + sizeof(sfp_header_t)\<close> does not wrap. An outer \<open>None\<close> is a write outside a packet or the received block, or a loop that
  does not end.
\<close>

section \<open>Headers\<close>

abbreviation (input) SFP_HEADER :: nat where "SFP_HEADER \<equiv> 8"

text \<open>The header is appended: the position it gets and the packet with its new length.\<close>

definition csp_sfp_header_add :: "csp_packet \<Rightarrow> nat \<times> csp_packet" where
  "csp_sfp_header_add p = (unat (p_length p), p\<lparr>p_length := p_length p + of_nat SFP_HEADER\<rparr>)"

text \<open>The header is converted in place to the byte order of the (little-endian) host.\<close>

definition csp_sfp_header_remove :: "csp_packet \<Rightarrow> (u32 \<times> u32) option \<times> csp_packet" where
  "csp_sfp_header_remove p =
     (if flags (p_id p) AND CSP_FFRAG = 0 then (None, p)
      else if unat (p_length p) < SFP_HEADER then (None, p)
      else
        let pos = unat (p_length p) - SFP_HEADER;
            p = p\<lparr>p_length := p_length p - of_nat SFP_HEADER\<rparr>;
            offset = be_value (mem_read (area p) (DATA_OFF + pos) 4);
            totalsize = be_value (mem_read (area p) (DATA_OFF + pos + 4) 4);
            p = data_put pos (le_bytes 4 offset @ le_bytes 4 totalsize) p
        in if totalsize < offset then (None, p) else (Some (offset, totalsize), p))"

section \<open>Sending\<close>

text \<open>
  \<open>data off n\<close> are the bytes the copy function takes from the caller's data. Storing a fragment and
  its header in a packet is \<open>None\<close> when they do not fit into it.
\<close>

definition fill_fragment :: "u8 list \<Rightarrow> u32 \<Rightarrow> u32 \<Rightarrow> csp_packet \<Rightarrow> csp_packet option" where
  "fill_fragment bytes totalsize offset p =
     (case mem_write (area p) DATA_OFF bytes of
        None \<Rightarrow> None
      | Some m \<Rightarrow>
          (case csp_sfp_header_add (p\<lparr>area := m, p_length := of_nat (length bytes)\<rparr>) of
             (pos, p) \<Rightarrow>
               map_option (\<lambda>m. p\<lparr>area := m\<rparr>)
                 (mem_write (area p) (DATA_OFF + pos) (be_bytes 4 offset @ be_bytes 4 totalsize))))"

partial_function (option) sfp_send_loop ::
  "('a) driver \<Rightarrow> (nat \<Rightarrow> nat \<Rightarrow> u8 list) \<Rightarrow> nat \<Rightarrow> c_uint \<Rightarrow> c_uint \<Rightarrow> c_uint \<Rightarrow> ('a) csp_cn_scheme \<Rightarrow>
     (int \<times> ('a) csp_cn_scheme) option" where
  "sfp_send_loop drv data conn totalsize mtu cnt w =
     (if \<not> (cnt < totalsize \<and> csp_conn_is_active conn w) then Some (CSP_ERR_NONE, w)
      else case csp_buffer_get w of
        (None, w) \<Rightarrow> Some (CSP_ERR_NOMEM, w)
      | (Some packet, w) \<Rightarrow>
          let size = (if mtu < totalsize - cnt then mtu else totalsize - cnt)
          in Option.bind (fill_fragment (data (unat cnt) (unat size)) (ucast totalsize) (ucast cnt) (pkt w packet))
               (\<lambda>k. let w = set_conn conn ((conns w conn)\<lparr>idout := (idout (conns w conn))\<lparr>flags := flags (idout (conns w conn)) OR CSP_FFRAG\<rparr>\<rparr>) w;
                        w = set_pkt packet k w
                    in Option.bind (csp_send drv (Some conn) (Some packet) w)
                         (\<lambda>w. sfp_send_loop drv data conn totalsize mtu (cnt + size) w)))"

definition csp_sfp_send_own_memcpy ::
  "('a) driver \<Rightarrow> nat \<Rightarrow> (nat \<Rightarrow> nat \<Rightarrow> u8 list) \<Rightarrow> c_uint \<Rightarrow> c_uint \<Rightarrow> u32 \<Rightarrow> ('a) csp_cn_scheme \<Rightarrow>
     (int \<times> ('a) csp_cn_scheme) option" where
  "csp_sfp_send_own_memcpy drv conn data totalsize mtu timeout w =
     (if mtu = 0 \<or> CSP_BUFFER_SIZE < unat mtu + SFP_HEADER then Some (CSP_ERR_INVAL, w)
      else sfp_send_loop drv data conn totalsize mtu 0 w)"

text \<open>With the standard \<open>memcpy\<close>.\<close>

definition csp_sfp_send ::
  "('a) driver \<Rightarrow> nat \<Rightarrow> u8 list \<Rightarrow> c_uint \<Rightarrow> c_uint \<Rightarrow> u32 \<Rightarrow> ('a) csp_cn_scheme \<Rightarrow> (int \<times> ('a) csp_cn_scheme) option" where
  "csp_sfp_send drv conn data totalsize mtu timeout w =
     csp_sfp_send_own_memcpy drv conn (\<lambda>off n. take n (drop off data)) totalsize mtu timeout w"

section \<open>Receiving\<close>

text \<open>
  \<open>heap n\<close> is what \<open>malloc\<close> returns for \<open>n\<close> bytes. The result is the error code, the block and size handed
  to the caller (a NULL pointer and 0 on an error, when the block is freed), and the state.
\<close>

definition sfp_error ::
  "int \<Rightarrow> nat \<Rightarrow> ('a) csp_cn_scheme \<Rightarrow> (int \<times> u8 list option \<times> int \<times> ('a) csp_cn_scheme) option" where
  "sfp_error e packet w = Some (e, None, 0, csp_buffer_free (Some packet) w)"

partial_function (option) sfp_recv_loop ::
  "(('a) csp_cn_scheme \<Rightarrow> ('a) csp_cn_scheme) \<Rightarrow> (u32 \<Rightarrow> u8 list option) \<Rightarrow> nat option \<Rightarrow> u32 \<Rightarrow> nat \<Rightarrow> u8 list option \<Rightarrow>
     u32 \<Rightarrow> u32 \<Rightarrow> ('a) csp_cn_scheme \<Rightarrow> (int \<times> u8 list option \<times> int \<times> ('a) csp_cn_scheme) option" where
  "sfp_recv_loop env heap conn timeout packet data datasize data_offset w =
     (case csp_sfp_header_remove (pkt w packet) of
        (None, k) \<Rightarrow> sfp_error CSP_ERR_SFP packet (set_pkt packet k w)
      | (Some (offset, totalsize), k) \<Rightarrow>
          let w = set_pkt packet k w
          in if offset \<noteq> data_offset then sfp_error CSP_ERR_SFP packet w
             else case (case data of None \<Rightarrow> heap totalsize | Some d \<Rightarrow> Some d) of
               None \<Rightarrow> sfp_error CSP_ERR_NOMEM packet w
             | Some d \<Rightarrow>
                 let datasize = (if data = None then totalsize else datasize);
                     len = p_length k
                 in if datasize < data_offset + ucast len \<or> datasize \<noteq> totalsize then sfp_error CSP_ERR_SFP packet w
                    else Option.bind (mem_write d (unat data_offset) (payload k))
                      (\<lambda>d. let data_offset = data_offset + ucast len
                           in if datasize \<le> data_offset then
                                Some (CSP_ERR_NONE, Some d, sint (ucast datasize :: u16), csp_buffer_free (Some packet) w)
                              else if len = 0 then sfp_error CSP_ERR_SFP packet w
                              else case csp_read conn timeout (env (csp_buffer_free (Some packet) w)) of
                                (None, w) \<Rightarrow> Some (CSP_ERR_TIMEDOUT, None, 0, w)
                              | (Some packet, w) \<Rightarrow>
                                  sfp_recv_loop env heap conn timeout packet (Some d) datasize data_offset w))"

definition csp_sfp_recv_fp ::
  "(('a) csp_cn_scheme \<Rightarrow> ('a) csp_cn_scheme) \<Rightarrow> (u32 \<Rightarrow> u8 list option) \<Rightarrow> nat option \<Rightarrow> u32 \<Rightarrow> nat option \<Rightarrow>
     ('a) csp_cn_scheme \<Rightarrow> (int \<times> u8 list option \<times> int \<times> ('a) csp_cn_scheme) option" where
  "csp_sfp_recv_fp env heap conn timeout first_packet w =
     (case first_packet of
        None \<Rightarrow>
          (case csp_read conn timeout w of
             (None, w) \<Rightarrow> Some (CSP_ERR_TIMEDOUT, None, 0, w)
           | (Some packet, w) \<Rightarrow> sfp_recv_loop env heap conn timeout packet None 0 0 w)
      | Some packet \<Rightarrow> sfp_recv_loop env heap conn timeout packet None 0 0 w)"

definition csp_sfp_recv ::
  "(('a) csp_cn_scheme \<Rightarrow> ('a) csp_cn_scheme) \<Rightarrow> (u32 \<Rightarrow> u8 list option) \<Rightarrow> nat option \<Rightarrow> u32 \<Rightarrow> ('a) csp_cn_scheme \<Rightarrow>
     (int \<times> u8 list option \<times> int \<times> ('a) csp_cn_scheme) option" where
  "csp_sfp_recv env heap conn timeout w = csp_sfp_recv_fp env heap conn timeout None w"

end
