(* ===== verification/Sfp_Own.thy ===== *)
theory Sfp_Own
  imports Sfp
begin

text \<open>
  What the fragmentation protocol does: the sender sends the fragments of \<open>sfp_frags\<close>, the receiver puts
  them together again, and whatever the receiver is sent, it returns and loses nothing.
\<close>

section \<open>Headers and payloads\<close>

text \<open>A fragment as it travels: the bytes, their offset and the size of the whole.\<close>

definition frag_bytes :: "u32 \<Rightarrow> u32 \<Rightarrow> u8 list \<Rightarrow> u8 list" where
  "frag_bytes tot off bs = bs @ be_bytes 4 off @ be_bytes 4 tot"

lemma length_frag_bytes [simp]: "length (frag_bytes tot off bs) = length bs + 8"
  by (simp add: frag_bytes_def)

lemma unat_minus_8: "8 \<le> unat x \<Longrightarrow> unat (x - 8 :: u16) = unat x - 8"
  using unat_sub [of "8 :: u16" x] by (simp add: word_le_nat_alt)

lemma header_remove_eq:
  assumes ok: "packet_ok k" and fl: "flags (p_id k) AND CSP_FFRAG \<noteq> 0" and len: "8 \<le> unat (p_length k)"
  obtains k' where "csp_sfp_header_remove k =
      (if (be_value (drop (unat (p_length k) - 4) (payload k)) :: u32) < be_value (take 4 (drop (unat (p_length k) - 8) (payload k)))
       then None
       else Some (be_value (take 4 (drop (unat (p_length k) - 8) (payload k))), be_value (drop (unat (p_length k) - 4) (payload k))), k')"
    and "packet_ok k'" and "unat (p_length k') = unat (p_length k) - 8"
    and "payload k' = take (unat (p_length k) - 8) (payload k)"
proof -
  let ?n = "unat (p_length k)"
  let ?bs = "le_bytes 4 (be_value (mem_read (area k) (DATA_OFF + (?n - 8)) 4) :: u32) @
      le_bytes 4 (be_value (mem_read (area k) (DATA_OFF + (?n - 8) + 4) 4) :: u32)"
  let ?k = "data_put (?n - 8) ?bs (k\<lparr>p_length := p_length k - 8\<rparr>)"
  have l: "unat (p_length k - 8) = ?n - 8" by (rule unat_minus_8 [OF len])
  have sz: "length (area k) = AREA_SIZE" "?n \<le> CSP_BUFFER_SIZE" using ok by (simp_all add: packet_ok_def)
  have r1: "mem_read (area k) (DATA_OFF + (?n - 8)) 4 = take 4 (drop (?n - 8) (payload k))"
    using mem_read_mem_read [of "?n - 8" 4 ?n "area k" DATA_OFF] len by (simp add: payload_def mem_read_def)
  have r2: "mem_read (area k) (DATA_OFF + (?n - 8) + 4) 4 = drop (?n - 4) (payload k)"
    using mem_read_mem_read [of "?n - 4" 4 ?n "area k" DATA_OFF] len ok
    by (simp add: payload_def mem_read_def packet_ok_def add.commute)
  have "packet_ok ?k" using sz len l by (intro data_put_ok) (simp_all add: packet_ok_def)
  moreover have "unat (p_length ?k) = ?n - 8" using l by (simp add: data_put_def)
  moreover have "payload ?k = take (?n - 8) (payload k)"
    using sz len l by (simp add: payload_def data_put_def mem_read_put_before) (simp add: mem_read_def min_def)
  moreover have "csp_sfp_header_remove k =
      (if (be_value (drop (?n - 4) (payload k)) :: u32) < be_value (take 4 (drop (?n - 8) (payload k))) then None
       else Some (be_value (take 4 (drop (?n - 8) (payload k))), be_value (drop (?n - 4) (payload k))), ?k)"
    using fl len by (simp add: csp_sfp_header_remove_def Let_def add.commute flip: r1 r2)
  ultimately show ?thesis using that by blast
qed

lemma header_remove_ok:
  assumes ok: "packet_ok k" and r: "csp_sfp_header_remove k = (x, k')"
  shows "packet_ok k'" and "p_id k' = p_id k"
proof -
  have "p_id (snd (csp_sfp_header_remove k)) = p_id k" by (simp add: csp_sfp_header_remove_def Let_def data_put_def)
  then show "p_id k' = p_id k" using r by simp
  show "packet_ok k'"
  proof (cases "flags (p_id k) AND CSP_FFRAG = 0 \<or> unat (p_length k) < 8")
    case True
    then show ?thesis using ok r by (auto simp: csp_sfp_header_remove_def split: if_splits)
  next
    case False
    then show ?thesis using header_remove_eq [OF ok] r by (metis not_less prod.inject)
  qed
qed

text \<open>Removing the header of a fragment.\<close>

lemma header_remove_frag:
  assumes ok: "packet_ok k" and fl: "flags (p_id k) AND CSP_FFRAG \<noteq> 0"
    and p: "payload k = frag_bytes tot off bs" and le: "off \<le> tot"
  obtains k' where "csp_sfp_header_remove k = (Some (off, tot), k')" and "packet_ok k'"
    and "payload k' = bs" and "unat (p_length k') = length bs"
proof -
  have n: "unat (p_length k) = length bs + 8" using length_payload [OF ok] p by simp
  then have "8 \<le> unat (p_length k)" by simp
  then obtain k' where k': "csp_sfp_header_remove k =
      (if (be_value (drop (unat (p_length k) - 4) (payload k)) :: u32) < be_value (take 4 (drop (unat (p_length k) - 8) (payload k)))
       then None
       else Some (be_value (take 4 (drop (unat (p_length k) - 8) (payload k))), be_value (drop (unat (p_length k) - 4) (payload k))), k')"
    "packet_ok k'" "unat (p_length k') = unat (p_length k) - 8" "payload k' = take (unat (p_length k) - 8) (payload k)"
    by (rule header_remove_eq [OF ok fl])
  have "drop (length bs + 4) (payload k) = be_bytes 4 tot" "take 4 (drop (length bs) (payload k)) = be_bytes 4 off"
    by (simp_all add: p frag_bytes_def)
  then have "csp_sfp_header_remove k = (Some (off, tot), k')" using k'(1) n le by (simp add: add.commute)
  moreover have "payload k' = bs" using k'(4) n by (simp add: p frag_bytes_def)
  ultimately show ?thesis using that k'(2,3) n by simp
qed

text \<open>Filling a packet with a fragment.\<close>

lemma fill_fragment_ok:
  assumes ok: "packet_ok k" and l: "length bs + 8 \<le> CSP_BUFFER_SIZE"
  obtains k' where "fill_fragment bs tot off k = Some k'" and "packet_ok k'" and "p_id k' = p_id k"
    and "payload k' = frag_bytes tot off bs"
proof -
  let ?a = "mem_put (area k) DATA_OFF bs"
  let ?h = "be_bytes 4 off @ be_bytes 4 tot"
  let ?k = "k\<lparr>area := mem_put ?a (DATA_OFF + length bs) ?h, p_length := of_nat (length bs) + 8\<rparr>"
  have sz: "length (area k) = AREA_SIZE" using ok by (simp add: packet_ok_def)
  have n: "unat (of_nat (length bs) :: u16) = length bs" using l by (simp add: unat_of_nat)
  have n8: "unat (of_nat (length bs) + 8 :: u16) = length bs + 8"
    using l n by (subst unat_add_lem [THEN iffD1]) simp_all
  have "fill_fragment bs tot off k = Some ?k"
    using sz l n by (simp add: fill_fragment_def mem_write_put csp_sfp_header_add_def)
  moreover have "packet_ok ?k" using sz l n8 by (simp add: packet_ok_def)
  moreover have "payload ?k = frag_bytes tot off bs"
  proof -
    have "mem_read (area ?k) DATA_OFF (length bs + 8) = mem_read (area ?k) DATA_OFF (length bs) @ mem_read (area ?k) (DATA_OFF + length bs) 8"
      by (rule mem_read_append)
    moreover have "mem_read (area ?k) (DATA_OFF + length bs) 8 = ?h"
      using sz l mem_read_put_same [of "DATA_OFF + length bs" ?h ?a] by simp
    moreover have "mem_read (area ?k) DATA_OFF (length bs) = bs"
      using sz l by (simp add: mem_read_put_before mem_read_put_same)
    ultimately show ?thesis using n8 by (simp add: payload_def frag_bytes_def)
  qed
  ultimately show ?thesis using that by simp
qed

section \<open>Receiving anything\<close>

text \<open>What \<open>malloc\<close> promises: a block of the size asked for, inside the 20-bit address space of the target.\<close>

definition allocator :: "(u32 \<Rightarrow> u8 list option) \<Rightarrow> bool" where
  "allocator heap \<longleftrightarrow> (\<forall>n d. heap n = Some d \<longrightarrow> length d = unat n \<and> length d \<le> 2 ^ 20)"

text \<open>The caller gets a block exactly when there is no error.\<close>

definition recv_result :: "nat multiset \<Rightarrow> (int \<times> u8 list option \<times> int \<times> ('a) csp_cn_scheme) option \<Rightarrow> bool" where
  "recv_result X r \<longleftrightarrow> (\<exists>e b n w. r = Some (e, b, n, w) \<and> sys_ok X w \<and>
     (case b of None \<Rightarrow> e \<in> {CSP_ERR_SFP, CSP_ERR_NOMEM, CSP_ERR_TIMEDOUT} \<and> n = 0
      | Some d \<Rightarrow> e = CSP_ERR_NONE \<and> n = sint (of_nat (length d) :: u16)))"

lemma recv_error:
  "sys_ok (add_mset p X) w \<Longrightarrow> e \<in> {CSP_ERR_SFP, CSP_ERR_NOMEM, CSP_ERR_TIMEDOUT} \<Longrightarrow> recv_result X (sfp_error e p w)"
  using sys_free [of p X w] by (simp add: recv_result_def sfp_error_def)

lemma unat_add_small: "unat (x :: u32) \<le> 2 ^ 20 \<Longrightarrow> unat (x + ucast (l :: u16)) = unat x + unat l"
proof -
  assume "unat x \<le> 2 ^ 20"
  moreover have "unat l < 2 ^ 16" using unsigned_less [of l] by simp
  moreover have "unat (ucast l :: u32) = unat l" using calculation(2) by (simp add: unsigned_ucast_eq take_bit_nat_eq_self)
  ultimately show ?thesis by (subst unat_add_lem [THEN iffD1]) simp_all
qed

text \<open>One round of the receiver on a fragment that continues the block.\<close>

lemma recv_round:
  assumes h: "csp_sfp_header_remove (pkt w p) = (Some (off, tot), k)"
    and d: "(case data of None \<Rightarrow> heap tot | Some d \<Rightarrow> Some d) = Some d"
    and t: "(if data = None then tot else ds) = tot" and le: "\<not> tot < off + ucast (p_length k)"
    and m: "mem_write d (unat off) (payload k) = Some d1"
  shows "sfp_recv_loop env heap conn timeout p data ds off w =
    (if tot \<le> off + ucast (p_length k)
     then Some (CSP_ERR_NONE, Some d1, sint (ucast tot :: u16), csp_buffer_free (Some p) (set_pkt p k w))
     else if p_length k = 0 then sfp_error CSP_ERR_SFP p (set_pkt p k w)
     else case csp_read conn timeout (env (csp_buffer_free (Some p) (set_pkt p k w))) of
            (None, w) \<Rightarrow> Some (CSP_ERR_TIMEDOUT, None, 0, w)
          | (Some packet, w) \<Rightarrow> sfp_recv_loop env heap conn timeout packet (Some d1) tot (off + ucast (p_length k)) w)"
  unfolding sfp_recv_loop.simps [of env heap conn timeout p data ds off w]
  using t d le m by (simp add: h Let_def)

text \<open>The area the fragments go to: the one in use or, for the first fragment, a new one of the total size.\<close>

lemma recv_space:
  assumes "allocator heap" and "(case data of None \<Rightarrow> heap tot | Some d \<Rightarrow> Some d) = Some d"
    and "case data of None \<Rightarrow> off = 0 | Some d \<Rightarrow> length d = unat ds \<and> off < ds \<and> length d \<le> 2 ^ 20"
    and "D = (if data = None then tot else ds)"
  shows "length d = unat D" and "length d \<le> 2 ^ 20" and "off = 0 \<or> off < D"
    and "length d - unat off < (case data of None \<Rightarrow> 2 ^ 21 | Some d \<Rightarrow> Suc (length d - unat off))"
  using assms unfolding allocator_def by (cases data; fastforce)+

text \<open>A fragment that passes the test for its bounds is written inside the area.\<close>

lemma recv_fits:
  fixes off D :: u32
  assumes "packet_ok k" and "length d = unat D" and "length d \<le> 2 ^ 20" and "off = 0 \<or> off < D"
    and "\<not> D < off + ucast (p_length k)"
  shows "unat (off + ucast (p_length k)) = unat off + unat (p_length k)"
    and "mem_write d (unat off) (payload k) = Some (mem_put d (unat off) (payload k))"
    and "length (mem_put d (unat off) (payload k)) = length d"
proof -
  have "unat off \<le> length d" using assms(2,4) by (auto simp: word_less_nat_alt)
  then show n: "unat (off + ucast (p_length k)) = unat off + unat (p_length k)"
    using assms(2,3) by (intro unat_add_small) simp
  then have "unat off + unat (p_length k) \<le> unat D"
    using assms(5) by (auto simp: word_less_nat_alt not_less)
  then have "unat off + length (payload k) \<le> length d" unfolding assms(2) length_payload [OF assms(1)] .
  then show "mem_write d (unat off) (payload k) = Some (mem_put d (unat off) (payload k))"
    and "length (mem_put d (unat off) (payload k)) = length d"
    by (simp_all add: mem_write_put)
qed

text \<open>A round ends the reception with a proper result, or has used a fragment and reads the next one.\<close>

definition recv_pre :: "u8 list option \<Rightarrow> u32 \<Rightarrow> u32 \<Rightarrow> bool" where
  "recv_pre data ds off \<longleftrightarrow>
     (case data of None \<Rightarrow> off = 0 | Some d \<Rightarrow> length d = unat ds \<and> off < ds \<and> length d \<le> 2 ^ 20)"

definition recv_todo :: "u8 list option \<Rightarrow> u32 \<Rightarrow> nat" where
  "recv_todo data off = (case data of None \<Rightarrow> 2 ^ 21 | Some d \<Rightarrow> length d - unat off)"

lemma recv_step_fits:
  assumes s: "sys_ok (add_mset p X) (set_pkt p k w)" and k: "packet_ok k" and h: "csp_sfp_header_remove (pkt w p) = (Some (off, tot), k)"
    and heap: "allocator heap" and d: "(case data of None \<Rightarrow> heap tot | Some d \<Rightarrow> Some d) = Some d"
    and pre: "recv_pre data ds off" and tot: "(if data = None then tot else ds) = tot" and fit: "\<not> tot < off + ucast (p_length k)"
  shows "recv_result X (sfp_recv_loop env heap conn t p data ds off w) \<or>
    (\<exists>w2 d1 D off'. sys_ok X w2 \<and> recv_pre (Some d1) D off' \<and> recv_todo (Some d1) off' < recv_todo data off \<and>
       sfp_recv_loop env heap conn t p data ds off w =
         (case csp_read conn t (env w2) of
            (None, w) \<Rightarrow> Some (CSP_ERR_TIMEDOUT, None, 0, w)
          | (Some packet, w) \<Rightarrow> sfp_recv_loop env heap conn t packet (Some d1) D off' w))"
proof -
  let ?off = "off + ucast (p_length k)"
  define d1 where "d1 = mem_put d (unat off) (payload k)"
  note D = recv_space [OF heap d pre [unfolded recv_pre_def] tot [symmetric]]
  note n = recv_fits(1) [OF k D(1-3) fit] and d1 = recv_fits(2,3) [OF k D(1-3) fit, folded d1_def]
  have s2: "sys_ok X (csp_buffer_free (Some p) (set_pkt p k w))" by (rule sys_free [OF s])
  note step = recv_round [where heap = heap and data = data and ds = ds and env = env and conn = conn and timeout = t,
      OF h d tot fit d1(1)]
  consider "tot \<le> ?off" | "\<not> tot \<le> ?off" "p_length k = 0" | "\<not> tot \<le> ?off" "p_length k \<noteq> 0" by blast
  then show ?thesis
  proof cases
    case 1
    have "ucast tot = (of_nat (length d1) :: u16)" using d1(2) D(1) by simp
    then show ?thesis using step 1 s2 by (simp add: recv_result_def)
  next
    case 2
    then show ?thesis using step recv_error [OF s] by simp
  next
    case 3
    have "unat off < length d" and "0 < unat (p_length k)"
      using 3 D(1) n by (simp_all add: word_le_nat_alt unat_gt_0)
    then have "recv_todo (Some d1) ?off < recv_todo data off"
      using d1(2) n D(4) by (cases data) (auto simp: recv_todo_def)
    moreover have "recv_pre (Some d1) tot ?off" using 3(1) D(1,2) d1(2) by (simp add: recv_pre_def not_le)
    ultimately show ?thesis using step 3 s2 by auto
  qed
qed

lemma recv_step:
  assumes "allocator heap" and s: "sys_ok (add_mset p X) w" and pre: "recv_pre data ds off"
  shows "recv_result X (sfp_recv_loop env heap conn t p data ds off w) \<or>
    (\<exists>w2 d1 D off'. sys_ok X w2 \<and> recv_pre (Some d1) D off' \<and> recv_todo (Some d1) off' < recv_todo data off \<and>
       sfp_recv_loop env heap conn t p data ds off w =
         (case csp_read conn t (env w2) of
            (None, w) \<Rightarrow> Some (CSP_ERR_TIMEDOUT, None, 0, w)
          | (Some packet, w) \<Rightarrow> sfp_recv_loop env heap conn t packet (Some d1) D off' w))"
proof -
  obtain h k where h: "csp_sfp_header_remove (pkt w p) = (h, k)" by fastforce
  have k: "packet_ok k" using header_remove_ok [OF sys_packet [OF s] h] by simp
  have s1: "sys_ok (add_mset p X) (set_pkt p k w)" using s k by (simp add: sys_set_pkt)
  note U = sfp_recv_loop.simps [of env heap conn t p data ds off w] and E = recv_error [OF s1]
  consider "h = None" | o1 tot where "h = Some (o1, tot)" by (cases h) auto
  then show ?thesis
  proof cases
    case 1
    then show ?thesis using E unfolding U by (simp add: h)
  next
    case (2 o1 tot)
    define D where "D = (if data = None then tot else ds)"
    consider "(case data of None \<Rightarrow> heap tot | Some d \<Rightarrow> Some d) = None"
      | d where "(case data of None \<Rightarrow> heap tot | Some d \<Rightarrow> Some d) = Some d" "o1 \<noteq> off \<or> D < off + ucast (p_length k) \<or> D \<noteq> tot"
      | d where "(case data of None \<Rightarrow> heap tot | Some d \<Rightarrow> Some d) = Some d" "o1 = off" "\<not> tot < off + ucast (p_length k)" "D = tot"
      by fastforce
    then show ?thesis
    proof cases
      case 1
      then show ?thesis using E unfolding U by (simp add: h 2 Let_def)
    next
      case 2
      then show ?thesis using E unfolding U by (auto simp: h \<open>h = Some (o1, tot)\<close> Let_def simp flip: D_def)
    next
      case (3 d)
      show ?thesis
        by (rule recv_step_fits [OF s1 k _ assms(1) 3(1) pre _ 3(3)]) (use 3 h 2 in \<open>simp_all add: D_def\<close>)
    qed
  qed
qed

context environment
begin

lemma recv_loop_ok:
  assumes "allocator heap" and "c < CSP_CONN_MAX" and "sys_ok (add_mset p X) w" and "recv_pre data ds off"
  shows "recv_result X (sfp_recv_loop env heap (Some c) t p data ds off w)"
  using assms(3,4)
proof (induction "recv_todo data off" arbitrary: p data ds off w rule: less_induct)
  case less
  from recv_step [OF assms(1) less.prems, where env = env and conn = "Some c" and t = t]
  consider (ends) "recv_result X (sfp_recv_loop env heap (Some c) t p data ds off w)"
    | (reads) w2 d1 D off' where "sys_ok X w2" "recv_pre (Some d1) D off'" "recv_todo (Some d1) off' < recv_todo data off"
        "sfp_recv_loop env heap (Some c) t p data ds off w =
           (case csp_read (Some c) t (env w2) of
              (None, w) \<Rightarrow> Some (CSP_ERR_TIMEDOUT, None, 0, w)
            | (Some packet, w) \<Rightarrow> sfp_recv_loop env heap (Some c) t packet (Some d1) D off' w)"
    by blast
  then show ?case
  proof cases
    case reads
    obtain x w3 where r: "csp_read (Some c) t (env w2) = (x, w3)" by fastforce
    show ?thesis
    proof (cases x)
      case None
      then show ?thesis using reads(4) r read_ok [OF env_ok [OF reads(1)] assms(2) r] by (simp add: recv_result_def)
    next
      case (Some q)
      have "recv_result X (sfp_recv_loop env heap (Some c) t q (Some d1) D off' w3)"
        using read_after(1) [OF reads(1) assms(2) r [unfolded Some]] reads(2,3) by (intro less.hyps)
      then show ?thesis using reads(4) r Some by simp
    qed
  qed
qed

lemma recv_ok:
  assumes h: "allocator heap" and c: "c < CSP_CONN_MAX" and s: "sys_ok X w"
  shows "recv_result X (csp_sfp_recv env heap (Some c) t w)"
proof -
  obtain x w1 where r: "csp_read (Some c) t w = (x, w1)" by fastforce
  note R = read_ok [OF s c r]
  show ?thesis
  proof (cases x)
    case None
    then show ?thesis using r R by (simp add: csp_sfp_recv_def csp_sfp_recv_fp_def recv_result_def)
  next
    case (Some p)
    then show ?thesis using r recv_loop_ok [where p = p and data = None and off = 0 and ds = 0 and t = t, OF h c] R
      by (simp add: csp_sfp_recv_def csp_sfp_recv_fp_def recv_pre_def)
  qed
qed

end

section \<open>Fragments\<close>

text \<open>The payloads that carry \<open>bs\<close>, from the offset \<open>off\<close> on.\<close>

function sfp_frags :: "nat \<Rightarrow> nat \<Rightarrow> nat \<Rightarrow> u8 list \<Rightarrow> u8 list list" where
  "sfp_frags mtu tot off bs =
     (if mtu = 0 \<or> bs = [] then []
      else frag_bytes (of_nat tot) (of_nat off) (take mtu bs) # sfp_frags mtu tot (off + mtu) (drop mtu bs))"
  by pat_completeness auto
termination by (relation "measure (\<lambda>(_, _, _, bs). length bs)") auto

declare sfp_frags.simps [simp del]

lemma sfp_frags_Nil [simp]: "sfp_frags mtu tot off [] = []"
  by (simp add: sfp_frags.simps)

lemma sfp_frags_eq_Nil: "0 < mtu \<Longrightarrow> sfp_frags mtu tot off bs = [] \<longleftrightarrow> bs = []"
  by (simp add: sfp_frags.simps [of mtu tot off bs])

lemma sfp_frags_offsets:
  "m \<in> set (sfp_frags mtu tot off bs) \<Longrightarrow> \<exists>k b. m = frag_bytes (of_nat tot) (of_nat k) b \<and> off \<le> k \<and> k < off + length bs"
proof (induction mtu tot off bs rule: sfp_frags.induct)
  case (1 mtu tot off bs)
  then have "mtu \<noteq> 0" "bs \<noteq> []" by (auto simp: sfp_frags.simps [of mtu tot off bs] split: if_splits)
  then show ?case using 1 by (subst (asm) (2) sfp_frags.simps) fastforce
qed

lemma frag_bytes_offset:
  assumes "frag_bytes t1 o1 b1 = frag_bytes t2 o2 b2"
  shows "o1 = o2"
proof -
  have "be_bytes 4 o1 = be_bytes 4 o2" using assms by (simp add: frag_bytes_def append_eq_append_conv flip: append_assoc)
  then show ?thesis by (metis be_value_be_bytes_32)
qed

text \<open>The first fragment is not among the following ones.\<close>

lemma sfp_frags_head:
  assumes "off + length bs < 2 ^ 32" and "0 < mtu"
  shows "frag_bytes t (of_nat off) b \<notin> set (sfp_frags mtu tot (off + mtu) (drop mtu bs))"
proof
  assume "frag_bytes t (of_nat off) b \<in> set (sfp_frags mtu tot (off + mtu) (drop mtu bs))"
  then obtain k b' where k: "frag_bytes t (of_nat off) b = frag_bytes (of_nat tot) (of_nat k) b'" "off + mtu \<le> k"
      "k < off + mtu + length (drop mtu bs)"
    using sfp_frags_offsets by blast
  have "k < 2 ^ 32" "off < 2 ^ 32" "off \<noteq> k" using k(2,3) assms by auto
  moreover have "(of_nat off :: u32) = of_nat k" using frag_bytes_offset [OF k(1)] .
  then have "unat (of_nat off :: u32) = unat (of_nat k :: u32)" by simp
  then show False using calculation by (simp add: unat_of_nat)
qed

end
