(* ===== verification/Sfp_Link.thy ===== *)
theory Sfp_Link
  imports Sfp_Own
begin

text \<open>
  The two ends of a fragmented transfer: the receiver assembles the fragments of \<open>sfp_frags\<close>, and these are
  what the sender sends.
\<close>

section \<open>Assembly\<close>

text \<open>\<open>ps\<close> are the packets that carry the fragments \<open>ms\<close>.\<close>

definition carries :: "('a) csp_cn_scheme \<Rightarrow> nat list \<Rightarrow> u8 list list \<Rightarrow> bool" where
  "carries w ps ms \<longleftrightarrow> map (\<lambda>p. payload (pkt w p)) ps = ms \<and> (\<forall>p \<in> set ps. flags (p_id (pkt w p)) AND CSP_FFRAG \<noteq> 0)"

lemma carries_cong:
  "carries w ps ms \<Longrightarrow> (\<And>p. p \<in> set ps \<Longrightarrow> pkt w' p = pkt w p) \<Longrightarrow> carries w' ps ms"
  by (auto simp: carries_def cong: map_cong)

lemma carries_Cons:
  "carries w (p # ps) (m # ms) \<longleftrightarrow>
     payload (pkt w p) = m \<and> flags (p_id (pkt w p)) AND CSP_FFRAG \<noteq> 0 \<and> carries w ps ms"
  by (auto simp: carries_def)

lemma carries_notin: "carries w (p # ps) (m # ms) \<Longrightarrow> m \<notin> set ms \<Longrightarrow> p \<notin> set ps"
  by (auto simp: carries_def)

lemma take_mem_put: "off + length bs \<le> length m \<Longrightarrow> take (off + length bs) (mem_put m off bs) = take off m @ bs"
  by (simp add: mem_put_def)

text \<open>One fragment.\<close>

lemma recv_fragment_round:
  assumes m0: "0 < mtu" and tot: "tot \<le> 2 ^ 20" "off + length bs = tot" and ne: "bs \<noteq> []" and ld: "length d = tot"
    and d: "(case data of None \<Rightarrow> heap (of_nat tot) | Some e \<Rightarrow> Some e) = Some d" and ds: "data \<noteq> None \<longrightarrow> ds = of_nat tot"
    and k: "csp_sfp_header_remove (pkt w p) = (Some (of_nat off, of_nat tot), k)" "payload k = take mtu bs"
      "unat (p_length k) = length (take mtu bs)"
  shows "sfp_recv_loop env heap conn t p data ds (of_nat off) w =
    (if drop mtu bs = [] then
       Some (CSP_ERR_NONE, Some (mem_put d off (take mtu bs)), sint (of_nat tot :: u16), csp_buffer_free (Some p) (set_pkt p k w))
     else case csp_read conn t (env (csp_buffer_free (Some p) (set_pkt p k w))) of
            (None, w) \<Rightarrow> Some (CSP_ERR_TIMEDOUT, None, 0, w)
          | (Some q, w) \<Rightarrow> sfp_recv_loop env heap conn t q (Some (mem_put d off (take mtu bs))) (of_nat tot) (of_nat (off + mtu)) w)"
proof -
  let ?n = "length (take mtu bs)" and ?stop = "of_nat off + ucast (p_length k) :: u32"
  have uo: "unat (of_nat off :: u32) = off" "unat (of_nat tot :: u32) = tot" using tot by (simp_all add: unat_of_nat)
  have un: "unat ?stop = off + ?n" using unat_add_small [of "of_nat off" "p_length k"] uo tot k(3) by simp
  then have eq: "?stop = of_nat (off + ?n)"
    using tot by (intro unsigned_word_eqI [where ?'a = nat]) (simp add: unat_of_nat del: of_nat_add)
  have fin: "of_nat tot \<le> ?stop \<longleftrightarrow> drop mtu bs = []" using tot m0 by (auto simp: word_le_nat_alt un uo)
  have fit: "\<not> of_nat tot < ?stop" using tot by (simp add: word_less_nat_alt un uo)
  have mw: "mem_write d (unat (of_nat off :: u32)) (payload k) = Some (mem_put d off (take mtu bs))"
    using tot ld uo k(2) by (simp add: mem_write_put)
  have l0: "p_length k \<noteq> 0" using k(3) ne m0 by (auto simp: min_def split: if_splits)
  note R = recv_round [where env = env and heap = heap and conn = conn and timeout = t and ds = ds, OF k(1) d _ fit mw]
  show ?thesis
  proof (cases "drop mtu bs = []")
    case True
    have "sint (ucast (of_nat tot :: u32) :: u16) = sint (of_nat tot :: u16)" using uo(2) by (metis of_nat_unat)
    then show ?thesis using R ds fin True by (cases data) simp_all
  next
    case False
    then have "?n = mtu" by simp
    then have off: "?stop = of_nat (off + mtu)" using eq by metis
    show ?thesis using R [unfolded off] fin [unfolded off] ds l0 False by (cases data) (simp_all del: of_nat_add drop_eq_Nil)
  qed
qed

lemma recv_fragment:
  assumes m0: "0 < mtu" and tot: "tot \<le> 2 ^ 20" "off + length bs = tot"
    and s: "sys_ok (add_mset p X) w" and cr: "carries w (p # ps) (sfp_frags mtu tot off bs)" and ld: "length d = tot"
    and d: "(case data of None \<Rightarrow> heap (of_nat tot) | Some e \<Rightarrow> Some e) = Some d" and ds: "data \<noteq> None \<longrightarrow> ds = of_nat tot"
  obtains k where "packet_ok k" and "bs \<noteq> []" and "p \<notin> set ps"
    and "carries w ps (sfp_frags mtu tot (off + mtu) (drop mtu bs))"
    and "drop mtu bs = [] \<longrightarrow> sfp_recv_loop env heap conn t p data ds (of_nat off) w =
      Some (CSP_ERR_NONE, Some (mem_put d off (take mtu bs)), sint (of_nat tot :: u16), csp_buffer_free (Some p) (set_pkt p k w))"
    and "\<forall>q w'. drop mtu bs \<noteq> [] \<longrightarrow> csp_read conn t (env (csp_buffer_free (Some p) (set_pkt p k w))) = (Some q, w') \<longrightarrow>
      sfp_recv_loop env heap conn t p data ds (of_nat off) w =
      sfp_recv_loop env heap conn t q (Some (mem_put d off (take mtu bs))) (of_nat tot) (of_nat (off + mtu)) w'"
proof -
  have ne: "bs \<noteq> []" using cr m0 by (auto simp: carries_def)
  then have fr: "sfp_frags mtu tot off bs = frag_bytes (of_nat tot) (of_nat off) (take mtu bs) # sfp_frags mtu tot (off + mtu) (drop mtu bs)"
    using m0 by (simp add: sfp_frags.simps [of mtu tot off bs])
  note C = cr [unfolded fr]
  have le: "(of_nat off :: u32) \<le> of_nat tot" using tot by (simp add: word_le_nat_alt unat_of_nat)
  obtain k where k: "csp_sfp_header_remove (pkt w p) = (Some (of_nat off, of_nat tot), k)" "packet_ok k"
      "payload k = take mtu bs" "unat (p_length k) = length (take mtu bs)"
    using header_remove_frag [OF sys_packet [OF s], of p "of_nat tot" "of_nat off" "take mtu bs"] le C
    by (auto simp: carries_Cons)
  note L = recv_fragment_round [where env = env and heap = heap and conn = conn and t = t, OF m0 tot ne ld d ds k(1,3,4)]
  have "p \<notin> set ps" using carries_notin [OF C] sfp_frags_head [of off bs mtu "of_nat tot"] tot m0 by simp
  moreover have "carries w ps (sfp_frags mtu tot (off + mtu) (drop mtu bs))" using C by (simp add: carries_Cons)
  ultimately show ?thesis
    by (rule that [OF k(2) ne]) (simp_all add: L)
qed

lemma read_fragment:
  assumes s: "sys_ok X w" and c: "c < CSP_CONN_MAX" and o: "c_state (conns w c) = CONN_OPEN"
    and q: "qh_items (c_rx_queue (conns w c)) = p # ps" and cr: "carries w bs fs"
  shows "\<exists>w'. csp_read (Some c) t w = (Some p, w') \<and> sys_ok (add_mset p X) w' \<and> c_state (conns w' c) = CONN_OPEN \<and>
    qh_items (c_rx_queue (conns w' c)) = ps \<and> carries w' bs fs"
proof -
  obtain x qq where dq: "csp_queue_dequeue (c_rx_queue (conns w c)) t = (x, qq)" by fastforce
  have "qh_ok (c_rx_queue (conns w c))" using own_conn_queue_ok [OF sys_ok_own [OF s] c] .
  then have x: "x = Some p" "qh_items qq = ps" using qh_recv_Cons [of "c_rx_queue (conns w c)" p ps t] q dq by simp_all
  let ?w = "set_conn c ((conns w c)\<lparr>c_rx_queue := qq\<rparr>) w"
  have r: "csp_read (Some c) t w = (Some p, ?w)" using o dq x(1) by (simp add: csp_read_def)
  moreover have "sys_ok (add_mset p X) ?w" using read_ok [OF s c r] by simp
  moreover have "carries ?w bs fs" by (rule carries_cong [OF cr]) (simp add: pkt_def set_conn_def)
  ultimately show ?thesis using o x(2) by (simp add: set_conn_def)
qed

lemma recv_assembles:
  assumes c: "c < CSP_CONN_MAX" and m0: "0 < mtu" and tot: "tot \<le> 2 ^ 20"
  shows "sys_ok (add_mset p X) w \<Longrightarrow> c_state (conns w c) = CONN_OPEN \<Longrightarrow> qh_items (c_rx_queue (conns w c)) = ps @ rest \<Longrightarrow>
    carries w (p # ps) (sfp_frags mtu tot off bs) \<Longrightarrow> off + length bs = tot \<Longrightarrow> length d = tot \<Longrightarrow>
    (case data of None \<Rightarrow> heap (of_nat tot) | Some e \<Rightarrow> Some e) = Some d \<Longrightarrow> (data \<noteq> None \<longrightarrow> ds = of_nat tot) \<Longrightarrow>
    \<exists>w'. sfp_recv_loop (\<lambda>w. w) heap (Some c) t p data ds (of_nat off) w =
      Some (CSP_ERR_NONE, Some (take off d @ bs), sint (of_nat tot :: u16), w') \<and>
      sys_ok X w' \<and> qh_items (c_rx_queue (conns w' c)) = rest"
proof (induction ps arbitrary: p w off bs d data ds)
  case (Nil p w off bs d data ds)
  obtain k where k: "packet_ok k" "bs \<noteq> []" "carries w [] (sfp_frags mtu tot (off + mtu) (drop mtu bs))"
    and e: "drop mtu bs = [] \<longrightarrow> sfp_recv_loop (\<lambda>w. w) heap (Some c) t p data ds (of_nat off) w =
      Some (CSP_ERR_NONE, Some (mem_put d off (take mtu bs)), sint (of_nat tot :: u16), csp_buffer_free (Some p) (set_pkt p k w))"
    by (rule recv_fragment [where env = "\<lambda>w. w" and heap = heap and data = data and conn = "Some c" and t = t,
          OF m0 tot Nil.prems(5,1,4,6,7,8)]) blast
  have "sfp_frags mtu tot (off + mtu) (drop mtu bs) = []" using k(3) by (simp add: carries_def)
  then have "drop mtu bs = []" by (simp only: sfp_frags_eq_Nil [OF m0])
  moreover have "mem_put d off bs = take off d @ bs"
    using Nil.prems(5,6) by (simp add: mem_put_def)
  moreover have "sys_ok X (csp_buffer_free (Some p) (set_pkt p k w))"
    using k(1) Nil.prems(1) by (intro sys_free sys_set_pkt)
  moreover have "qh_items (c_rx_queue (conns (csp_buffer_free (Some p) (set_pkt p k w)) c)) = rest"
    using Nil.prems(3) by (simp add: frame_simps) (simp add: set_pkt_def)
  ultimately show ?case using e by simp
next
  case (Cons q ps p w off bs d data ds)
  obtain k where k: "packet_ok k" "p \<notin> set (q # ps)" "carries w (q # ps) (sfp_frags mtu tot (off + mtu) (drop mtu bs))"
    and e: "\<forall>q w'. drop mtu bs \<noteq> [] \<longrightarrow> csp_read (Some c) t (csp_buffer_free (Some p) (set_pkt p k w)) = (Some q, w') \<longrightarrow>
      sfp_recv_loop (\<lambda>w. w) heap (Some c) t p data ds (of_nat off) w =
      sfp_recv_loop (\<lambda>w. w) heap (Some c) t q (Some (mem_put d off (take mtu bs))) (of_nat tot) (of_nat (off + mtu)) w'"
    by (rule recv_fragment [where env = "\<lambda>w. w" and heap = heap and data = data and conn = "Some c" and t = t,
          OF m0 tot Cons.prems(5,1,4,6,7,8)]) blast
  let ?w2 = "csp_buffer_free (Some p) (set_pkt p k w)"
  let ?d = "mem_put d off (take mtu bs)"
  have ne: "drop mtu bs \<noteq> []" using k(3) by (auto simp: carries_def)
  have c2: "conns ?w2 = conns w" by (simp add: frame_simps) (simp add: set_pkt_def)
  have s2: "sys_ok X ?w2" using k(1) Cons.prems(1) by (intro sys_free sys_set_pkt)
  have o2: "c_state (conns ?w2 c) = CONN_OPEN" "qh_items (c_rx_queue (conns ?w2 c)) = q # ps @ rest"
    using Cons.prems(2,3) by (simp_all add: c2)
  have "carries ?w2 (q # ps) (sfp_frags mtu tot (off + mtu) (drop mtu bs))"
    using k(2) by (intro carries_cong [OF k(3)]) (auto simp: frame_simps)
  from read_fragment [OF s2 c o2 this, of t] obtain w3 where r: "csp_read (Some c) t ?w2 = (Some q, w3)"
    and s3: "sys_ok (add_mset q X) w3" and o3: "c_state (conns w3 c) = CONN_OPEN" and q3: "qh_items (c_rx_queue (conns w3 c)) = ps @ rest"
    and cr3: "carries w3 (q # ps) (sfp_frags mtu tot (off + mtu) (drop mtu bs))" by blast
  have len: "length (take mtu bs) = mtu" "off + mtu + length (drop mtu bs) = tot" "length ?d = tot"
    using ne Cons.prems(5,6) by simp_all
  obtain w' where w': "sfp_recv_loop (\<lambda>w. w) heap (Some c) t q (Some ?d) (of_nat tot) (of_nat (off + mtu)) w3 =
      Some (CSP_ERR_NONE, Some (take (off + mtu) ?d @ drop mtu bs), sint (of_nat tot :: u16), w')"
      "sys_ok X w'" "qh_items (c_rx_queue (conns w' c)) = rest"
    using Cons.IH [OF s3 o3 q3 cr3 len(2,3), of "Some ?d" "of_nat tot"] by auto
  have "take (off + mtu) ?d = take off d @ take mtu bs"
    using take_mem_put [of off "take mtu bs" d] len Cons.prems(5,6) by simp
  then have "take (off + mtu) ?d @ drop mtu bs = take off d @ bs" by simp
  then show ?case using e [rule_format, OF ne r] w' by auto
qed

section \<open>Sending\<close>

lemma sfp_frags_length: "m \<in> set (sfp_frags mtu tot off bs) \<Longrightarrow> length m \<le> mtu + 8"
proof (induction mtu tot off bs rule: sfp_frags.induct)
  case (1 mtu tot off bs)
  then have "mtu \<noteq> 0" "bs \<noteq> []" by (auto simp: sfp_frags.simps [of mtu tot off bs] split: if_splits)
  then show ?case using 1 by (subst (asm) (2) sfp_frags.simps) auto
qed

definition with_payload :: "u8 list \<Rightarrow> csp_packet \<Rightarrow> csp_packet" where
  "with_payload m k = k\<lparr>area := mem_put (area k) DATA_OFF m, p_length := of_nat (length m)\<rparr>"

definition with_ffrag :: "nat \<Rightarrow> ('a) csp_cn_scheme \<Rightarrow> ('a) csp_cn_scheme" where
  "with_ffrag c w = set_conn c ((conns w c)\<lparr>idout := (idout (conns w c))\<lparr>flags := flags (idout (conns w c)) OR CSP_FFRAG\<rparr>\<rparr>) w"

text \<open>Sending payloads one after the other, each in a fresh packet, marked as a fragment.\<close>

primrec send_each ::
  "('a) driver \<Rightarrow> nat \<Rightarrow> u8 list list \<Rightarrow> ('a) csp_cn_scheme \<Rightarrow> (int \<times> ('a) csp_cn_scheme) option" where
  "send_each drv c [] w = Some (CSP_ERR_NONE, w)"
| "send_each drv c (m # ms) w =
     (if \<not> csp_conn_is_active c w then Some (CSP_ERR_NONE, w)
      else case csp_buffer_get w of
        (None, w) \<Rightarrow> Some (CSP_ERR_NOMEM, w)
      | (Some p, w) \<Rightarrow>
          Option.bind (csp_send drv (Some c) (Some p) (set_pkt p (with_payload m (pkt w p)) (with_ffrag c w))) (send_each drv c ms))"

lemma with_payload_ok: "packet_ok k \<Longrightarrow> length m \<le> CSP_BUFFER_SIZE \<Longrightarrow> packet_ok (with_payload m k) \<and> payload (with_payload m k) = m"
  by (simp add: packet_ok_def with_payload_def payload_def mem_read_put_same unat_of_nat)

lemma mem_put_append:
  assumes "off + length bs + length hs \<le> length m"
  shows "mem_put (mem_put m off bs) (off + length bs) hs = mem_put m off (bs @ hs)"
  using assms by (simp add: mem_put_def ac_simps)

lemma fill_fragment_eq:
  assumes ok: "packet_ok k" and l: "length bs + 8 \<le> CSP_BUFFER_SIZE"
  shows "fill_fragment bs tot off k = Some (with_payload (frag_bytes tot off bs) k)"
proof -
  have sz: "length (area k) = AREA_SIZE" using ok by (simp add: packet_ok_def)
  have n: "unat (of_nat (length bs) :: u16) = length bs" using l by (simp add: unat_of_nat)
  have "mem_put (mem_put (area k) DATA_OFF bs) (DATA_OFF + length bs) (be_bytes 4 off @ be_bytes 4 tot) =
      mem_put (area k) DATA_OFF (frag_bytes tot off bs)"
    using sz l mem_put_append [of DATA_OFF bs "be_bytes 4 off @ be_bytes 4 tot" "area k"] by (simp add: frag_bytes_def)
  then show ?thesis
    using sz l n by (simp add: fill_fragment_def mem_write_put csp_sfp_header_add_def with_payload_def)
qed

lemma with_ffrag_sys: "sys_ok X w \<Longrightarrow> c < CSP_CONN_MAX \<Longrightarrow> sys_ok X (with_ffrag c w)"
proof -
  assume s: "sys_ok X w" and c: "c < CSP_CONN_MAX"
  have "own_inv X (with_ffrag c w)" unfolding with_ffrag_def by (rule own_conn_same_queue [OF sys_ok_own [OF s]]) simp
  moreover have n: "net_ok w" using s by (simp add: sys_ok_def)
  have "net_ok (with_ffrag c w)"
    unfolding with_ffrag_def using net_ok_conn [OF n c] by (intro net_ok_set_conn [OF n]) simp
  ultimately show ?thesis by (simp add: sys_ok_def)
qed

lemma with_ffrag_pkt [simp]: "pkt (with_ffrag c w) p = pkt w p"
  by (simp add: with_ffrag_def set_conn_def pkt_def)

lemma send_each_ok:
  assumes d: "transmitter drv" and c: "c < CSP_CONN_MAX"
  shows "sys_ok X w \<Longrightarrow> \<forall>m \<in> set ms. length m \<le> CSP_BUFFER_SIZE \<Longrightarrow> \<exists>e w'. send_each drv c ms w = Some (e, w') \<and> sys_ok X w'"
proof (induction ms arbitrary: w)
  case Nil
  then show ?case by simp
next
  case (Cons m ms)
  obtain x w1 where g: "csp_buffer_get w = (x, w1)" by fastforce
  note G = sys_get(1) [OF Cons.prems(1) g]
  show ?case
  proof (cases x)
    case None
    then show ?thesis using g G Cons.prems(1) by simp
  next
    case (Some p)
    then have s1: "sys_ok (add_mset p X) w1" using G by simp
    have "packet_ok (with_payload m (pkt w1 p))"
      using with_payload_ok sys_packet [OF s1, of p] Cons.prems(2) by simp
    then have "sys_ok (add_mset p X) (set_pkt p (with_payload m (pkt w1 p)) (with_ffrag c w1))"
      using with_ffrag_sys [OF s1 c] by (intro sys_set_pkt)
    then obtain w2 where "csp_send drv (Some c) (Some p) (set_pkt p (with_payload m (pkt w1 p)) (with_ffrag c w1)) = Some w2" "sys_ok X w2"
      using send_ok [OF d] by blast
    then show ?thesis using g Some Cons by simp
  qed
qed

lemma send_round:
  fixes cnt n :: c_uint
  assumes s: "sys_ok X w" and d: "transmitter drv" and c: "c < CSP_CONN_MAX" and mtu: "unat mtu + 8 \<le> CSP_BUFFER_SIZE"
    and lt: "cnt < n" and act: "csp_conn_is_active c w" and sz: "sz = (if mtu < n - cnt then mtu else n - cnt)"
    and ck: "copyin (unat cnt) (unat sz) = bs" "length bs = unat sz"
    and rest: "\<And>v. sys_ok X v \<Longrightarrow> sfp_send_loop drv copyin c n mtu (cnt + sz) v = send_each drv c fs v"
  shows "sfp_send_loop drv copyin c n mtu cnt w = send_each drv c (frag_bytes (ucast n) (ucast cnt) bs # fs) w"
proof -
  note U = sfp_send_loop.simps [of drv copyin c n mtu cnt w]
  obtain x w1 where g: "csp_buffer_get w = (x, w1)" by fastforce
  show ?thesis
  proof (cases x)
    case None
    then show ?thesis unfolding U using lt act g by simp
  next
    case (Some p)
    then have s1: "sys_ok (add_mset p X) w1" using sys_get(1) [OF s g] by simp
    define k where "k = with_payload (frag_bytes (ucast n) (ucast cnt) bs) (pkt w1 p)"
    have len: "length bs + 8 \<le> CSP_BUFFER_SIZE" using mtu ck(2) by (auto simp: sz word_less_nat_alt split: if_splits)
    have F: "fill_fragment bs (ucast n) (ucast cnt) (pkt w1 p) = Some k"
      unfolding k_def using sys_packet [OF s1, of p] len by (intro fill_fragment_eq) simp_all
    have "packet_ok k" unfolding k_def using with_payload_ok sys_packet [OF s1, of p] len by simp
    then have "sys_ok (add_mset p X) (set_pkt p k (with_ffrag c w1))"
      using with_ffrag_sys [OF s1 c] by (intro sys_set_pkt)
    then obtain w2 where w2: "csp_send drv (Some c) (Some p) (set_pkt p k (with_ffrag c w1)) = Some w2" "sys_ok X w2"
      using send_ok [OF d] by blast
    have "sfp_send_loop drv copyin c n mtu cnt w = sfp_send_loop drv copyin c n mtu (cnt + sz) w2"
      unfolding U using lt act g Some F w2(1) ck(1) by (simp add: Let_def with_ffrag_def flip: sz)
    then show ?thesis unfolding rest [OF w2(2)] using lt act g Some w2(1) by (simp add: k_def)
  qed
qed

lemma send_loop_eq:
  assumes d: "transmitter drv" and c: "c < CSP_CONN_MAX" and mtu: "mtu \<noteq> 0" "unat mtu + 8 \<le> CSP_BUFFER_SIZE"
    and n: "length data < 2 ^ 16"
  shows "sys_ok X w \<Longrightarrow> unat cnt \<le> length data \<Longrightarrow>
    sfp_send_loop drv (\<lambda>off n. take n (drop off data)) c (of_nat (length data)) mtu cnt w =
    send_each drv c (sfp_frags (unat mtu) (length data) (unat cnt) (drop (unat cnt) data)) w"
proof (induction "length data - unat cnt" arbitrary: cnt w rule: less_induct)
  case less
  let ?bs = "drop (unat cnt) data"
  let ?n = "of_nat (length data) :: c_uint"
  have un: "unat ?n = length data" using n by (simp add: unat_of_nat)
  have lt: "cnt < ?n \<longleftrightarrow> ?bs \<noteq> []" using un less.prems(2) by (auto simp: word_less_nat_alt)
  show ?case
  proof (cases "?bs = [] \<or> \<not> csp_conn_is_active c w")
    case True
    then show ?thesis unfolding sfp_send_loop.simps [of drv _ c ?n mtu cnt w]
      using lt by (cases "?bs = []") (auto simp: sfp_frags.simps [of _ _ _ ?bs])
  next
    case False
    define sz where "sz = (if mtu < ?n - cnt then mtu else ?n - cnt)"
    have "unat (?n - cnt) = length ?bs"
      using un less.prems(2) unat_sub [of cnt ?n] by (simp add: word_le_nat_alt)
    then have sz: "unat sz = min (unat mtu) (length ?bs)" by (simp add: sz_def word_less_nat_alt min_def)
    have uc: "(ucast ?n :: u32) = of_nat (length data)" "(ucast cnt :: u32) = of_nat (unat cnt)"
      using un by (metis of_nat_unat)+
    have fr: "sfp_frags (unat mtu) (length data) (unat cnt) ?bs =
        frag_bytes (ucast ?n) (ucast cnt) (take (unat mtu) ?bs) # sfp_frags (unat mtu) (length data) (unat cnt + unat mtu) (drop (unat mtu) ?bs)"
      unfolding sfp_frags.simps [of _ _ _ ?bs] uc using False mtu(1) by (simp del: of_nat_unat drop_drop add: unat_eq_0)
    have add: "unat (cnt + sz) = unat cnt + unat sz"
      using sz n less.prems(2) by (subst unat_add_lem [THEN iffD1]) simp_all
    have "0 < unat sz" using sz False mtu(1) by (simp add: unat_gt_0 [symmetric])
    then have IH: "sfp_send_loop drv (\<lambda>off n. take n (drop off data)) c ?n mtu (cnt + sz) v =
        send_each drv c (sfp_frags (unat mtu) (length data) (unat (cnt + sz)) (drop (unat (cnt + sz)) data)) v" if "sys_ok X v" for v
      using add sz that less.prems(2) False by (intro less.hyps) (auto simp: min_def)
    have dr: "drop (unat (cnt + sz)) data = drop (unat mtu) ?bs" unfolding add sz by (simp add: min_def add.commute)
    have "sfp_frags (unat mtu) (length data) (unat (cnt + sz)) (drop (unat mtu) ?bs) =
        sfp_frags (unat mtu) (length data) (unat cnt + unat mtu) (drop (unat mtu) ?bs)"
      by (cases "drop (unat mtu) ?bs = []") (simp_all add: add sz min_def)
    note IH = IH [unfolded dr this]
    show ?thesis unfolding fr
      by (rule send_round [OF less.prems(1) d c mtu(2) _ _ sz_def _ _ IH]) (use False lt sz in \<open>auto simp: min_def\<close>)
  qed
qed

section \<open>Example states\<close>

definition ex_heap :: "u32 \<Rightarrow> u8 list option" where
  "ex_heap n = (if unat n \<le> 2 ^ 20 then Some (replicate (unat n) 0) else None)"

lemma ex_heap_allocator: "allocator ex_heap"
  by (auto simp: allocator_def ex_heap_def split: if_splits)

text \<open>The example state with an open connection, in whose queue the two fragments of three bytes wait.\<close>

definition ex_frag :: "u32 \<Rightarrow> u8 list \<Rightarrow> csp_packet" where
  "ex_frag off bs = with_payload (frag_bytes 3 off bs) (packet_zero\<lparr>p_id := csp_id_zero\<lparr>flags := CSP_FFRAG\<rparr>\<rparr>)"

definition ex_frag_queue :: "nat queue_handle" where
  "ex_frag_queue = snd (csp_queue_enqueue (snd (csp_queue_enqueue (new_queue 0) 0 0)) 1 0)"

definition ex_frag_pkts :: csp_cn where
  "ex_frag_pkts = set_pkt 1 (ex_frag 2 [3]) (set_pkt 0 (ex_frag 0 [1, 2]) (snd (csp_buffer_get ex_cn)))"

definition ex_transfer :: csp_cn where
  "ex_transfer = set_conn 0 ((conns ex_frag_pkts 0)\<lparr>c_type := CONN_SERVER, c_state := CONN_OPEN, c_rx_queue := ex_frag_queue\<rparr>) ex_frag_pkts"

lemma ex_frag_facts:
  assumes "length bs \<le> 3"
  shows "packet_ok (ex_frag off bs)" "payload (ex_frag off bs) = frag_bytes 3 off bs" "flags (p_id (ex_frag off bs)) = CSP_FFRAG"
  using with_payload_ok [of "packet_zero\<lparr>p_id := csp_id_zero\<lparr>flags := CSP_FFRAG\<rparr>\<rparr>" "frag_bytes 3 off bs"] assms
  by (simp_all add: ex_frag_def packet_ok_def packet_zero_def with_payload_def)

lemma ex_frag_queue_facts: "qh_ok ex_frag_queue" "qh_items ex_frag_queue = [0, 1]"
proof -
  let ?q = "snd (csp_queue_enqueue (new_queue 0) 0 0) :: nat queue_handle"
  have n: "qh_ok (new_queue (0 :: nat))" "qh_items (new_queue (0 :: nat)) = []" "qh_cap (new_queue (0 :: nat)) = 4"
    by (rule new_queue_facts)+
  have q: "qh_ok ?q \<and> qh_items ?q = [0] \<and> qh_cap ?q = 4"
    using qh_send_ok [OF n(1), of 0 0] qh_send_inv [OF n(1), of 0 0] n(2,3) by simp
  show "qh_items ex_frag_queue = [0, 1]" using qh_send_ok [of ?q 1 0] q by (simp add: ex_frag_queue_def)
  show "qh_ok ex_frag_queue" using qh_send_inv [of ?q 1 0] q by (simp add: ex_frag_queue_def)
qed

lemma ex_frag_pkts_sys: "sys_ok {#0, 1#} ex_frag_pkts" and ex_frag_pkts_conns: "conns ex_frag_pkts = conns ex_cn"
proof -
  obtain x w1 where g: "csp_buffer_get ex_cn = (x, w1)" by fastforce
  note G = sys_get [OF ex_cn_sys(1) g]
  have fl: "free_list ex_cn = [1, 2, 3, 4, 5, 6, 7]"
    by (simp add: ex_cn_def ex_pm_def ex_dd_def ex_ks_def ex_qf_def ex_rt_def ex_ifs3_def ex_ifs_def free_list_def
        ready_bufs_fields(3) [unfolded free_list_def]
        csp_pm.defs csp_dd.defs csp_ks.defs csp_qf.defs csp_rt.defs csp_ifs.defs csp_bufs.defs)
  have "bufs_inv ({#0#} + held ex_cn) ex_cn" using sys_ok_own [OF ex_cn_sys(1)] by (simp add: own_inv_def)
  then have x: "x = Some 1" using g fl by (simp add: csp_buffer_get_def get_actual_cases)
  then have "sys_ok {#0, 1#} w1" using G(1) by (simp add: add_mset_commute)
  then show "sys_ok {#0, 1#} ex_frag_pkts"
    by (simp add: ex_frag_pkts_def g sys_set_pkt ex_frag_facts)
  show "conns ex_frag_pkts = conns ex_cn" using keptD(15) [OF G(2)] by (simp add: ex_frag_pkts_def g set_pkt_def)
qed

lemma ex_transfer_facts:
  "sys_ok {#} ex_transfer" "c_state (conns ex_transfer 0) = CONN_OPEN" "qh_items (c_rx_queue (conns ex_transfer 0)) = [0, 1]"
  "carries ex_transfer [0, 1] (sfp_frags 2 3 0 [1, 2, 3])"
proof -
  note s = ex_frag_pkts_sys
  let ?k = "(conns ex_frag_pkts 0)\<lparr>c_type := CONN_SERVER, c_state := CONN_OPEN, c_rx_queue := ex_frag_queue\<rparr>"
  have k: "conns ex_frag_pkts 0 = ex_conn" by (simp add: ex_frag_pkts_conns ex_cn_fields)
  have "own_inv {#} ex_transfer" unfolding ex_transfer_def
    by (rule own_conn_move [OF sys_ok_own [OF s]])
      (simp_all add: k ex_conn_def new_queue_facts ex_frag_queue_facts add_mset_commute)
  moreover have "net_ok ex_transfer" unfolding ex_transfer_def
    using s by (intro net_ok_set_conn) (simp_all add: sys_ok_def k ex_conn_def conn_ok_def csp_id_zero_def)
  ultimately show "sys_ok {#} ex_transfer" by (simp add: sys_ok_def)
  show "c_state (conns ex_transfer 0) = CONN_OPEN" "qh_items (c_rx_queue (conns ex_transfer 0)) = [0, 1]"
    by (simp_all add: ex_transfer_def set_conn_def ex_frag_queue_facts)
  have p: "pkt ex_transfer b = pkt ex_frag_pkts b" for b by (simp add: ex_transfer_def set_conn_def pkt_def)
  have "pkt ex_transfer 0 = ex_frag 0 [1, 2]" "pkt ex_transfer 1 = ex_frag 2 [3]"
    unfolding p by (simp_all add: ex_frag_pkts_def set_pkt_def pkt_def)
  then show "carries ex_transfer [0, 1] (sfp_frags 2 3 0 [1, 2, 3])"
    by (simp add: carries_def ex_frag_facts sfp_frags.simps)
qed

section \<open>Properties\<close>

text \<open>
  \<^bold>\<open>Claim C7.\<close> Receiving a transfer always ends and is safe, whatever fragments arrive and whatever runs in
  between: it returns, never writes outside the block it allocated, gives every packet back, and hands a
  block to the caller exactly when it reports no error.
\<close>

theorem sfp_recv_total:
  assumes "\<And>X w. sys_ok X w \<Longrightarrow> sys_ok X (env w)" and "allocator heap" and "c < CSP_CONN_MAX" and "sys_ok X w"
  shows "\<exists>e b n w'. csp_sfp_recv env heap (Some c) t w = Some (e, b, n, w') \<and> sys_ok X w' \<and>
     (case b of None \<Rightarrow> e \<in> {CSP_ERR_SFP, CSP_ERR_NOMEM, CSP_ERR_TIMEDOUT} \<and> n = 0
      | Some d \<Rightarrow> e = CSP_ERR_NONE \<and> n = sint (of_nat (length d) :: u16))"
proof -
  have "environment env" using assms(1) by unfold_locales
  from environment.recv_ok [OF this assms(2-4)] show ?thesis by (simp add: recv_result_def)
qed

theorem sfp_recv_total_witness:
  "\<exists>e b n w'. csp_sfp_recv (\<lambda>w. w) ex_heap (Some 0) 1000 ex_transfer = Some (e, b, n, w') \<and> sys_ok {#} w'"
  using sfp_recv_total [of "\<lambda>w. w", OF _ ex_heap_allocator _ ex_transfer_facts(1), of 0 1000] by auto

text \<open>
  \<^bold>\<open>Claim C12.\<close> Fragments are put together again: when the fragments of some data are in the connection's
  queue, in order, receiving returns exactly the data, leaves in the queue what came behind, and gives the
  packets back.
\<close>

theorem sfp_recv_reassembles:
  assumes c: "c < CSP_CONN_MAX" and s: "sys_ok X w" and o: "c_state (conns w c) = CONN_OPEN"
    and q: "qh_items (c_rx_queue (conns w c)) = ps @ rest" and cr: "carries w ps (sfp_frags mtu (length data) 0 data)"
    and m: "0 < mtu" and n: "data \<noteq> []" "length data \<le> 2 ^ 20" and h: "allocator heap" "heap (of_nat (length data)) \<noteq> None"
  shows "\<exists>w'. csp_sfp_recv (\<lambda>w. w) heap (Some c) t w =
     Some (CSP_ERR_NONE, Some data, sint (of_nat (length data) :: u16), w') \<and>
     sys_ok X w' \<and> qh_items (c_rx_queue (conns w' c)) = rest"
proof -
  have "ps \<noteq> []" using cr sfp_frags_eq_Nil [OF m, of "length data" 0 data] n(1) by (auto simp: carries_def)
  then obtain p ps' where ps: "ps = p # ps'" by (cases ps) auto
  obtain d where d: "heap (of_nat (length data)) = Some d" using h(2) by blast
  then have "length d = unat (of_nat (length data) :: u32)" using h(1) by (simp add: allocator_def)
  then have ld: "length d = length data" using n(2) by (simp add: unat_of_nat)
  obtain x qq where dq: "csp_queue_dequeue (c_rx_queue (conns w c)) t = (x, qq)" by fastforce
  have x: "x = Some p" "qh_items qq = ps' @ rest"
    using qh_recv_Cons [OF own_conn_queue_ok [OF sys_ok_own [OF s] c], of p "ps' @ rest" t] q ps dq by simp_all
  let ?w = "set_conn c ((conns w c)\<lparr>c_rx_queue := qq\<rparr>) w"
  have r: "csp_read (Some c) t w = (Some p, ?w)" using o dq x(1) by (simp add: csp_read_def)
  have s1: "sys_ok (add_mset p X) ?w" using read_ok [OF s c r] by simp
  have "carries ?w (p # ps') (sfp_frags mtu (length data) 0 data)"
    by (rule carries_cong [OF cr [unfolded ps]]) (simp add: pkt_def set_conn_def)
  from recv_assembles [where data = None and heap = heap and ds = 0 and t = t, OF c m n(2) s1 _ _ this _ ld, of rest]
  show ?thesis using o x(2) d r by (simp add: csp_sfp_recv_def csp_sfp_recv_fp_def set_conn_def)
qed

theorem sfp_recv_reassembles_witness:
  "\<exists>w'. csp_sfp_recv (\<lambda>w. w) ex_heap (Some 0) 1000 ex_transfer = Some (CSP_ERR_NONE, Some [1, 2, 3], 3, w') \<and> sys_ok {#} w'"
proof -
  have "ex_heap 3 \<noteq> None" by (simp add: ex_heap_def)
  moreover have "length [1, 2, 3 :: u8] = 3" by simp
  ultimately show ?thesis
    using sfp_recv_reassembles [where c = 0 and ps = "[0, 1]" and rest = "[]" and mtu = 2 and data = "[1, 2, 3]" and heap = ex_heap
        and t = 1000, OF _ ex_transfer_facts(1,2) _ _ _ _ _ ex_heap_allocator] ex_transfer_facts(3,4)
    by (simp only: \<open>length _ = _\<close>) auto
qed

text \<open>
  \<^bold>\<open>Claim C13.\<close> The sender implements fragmentation: for a fragment size that leaves room for the header it
  sends the fragments of the data, in order, each in a packet of its own marked as a fragment, never writes
  outside a packet, and gives back what it could not send.
\<close>

theorem sfp_send_refines_fragments:
  assumes "transmitter drv" and "sys_ok X w" and "c < CSP_CONN_MAX" and n: "length data < 2 ^ 16"
    and m: "mtu \<noteq> 0" "unat mtu + 8 \<le> CSP_BUFFER_SIZE"
  shows "csp_sfp_send drv c data (of_nat (length data)) mtu t w = send_each drv c (sfp_frags (unat mtu) (length data) 0 data) w \<and>
     (\<exists>e w'. csp_sfp_send drv c data (of_nat (length data)) mtu t w = Some (e, w') \<and> sys_ok X w')"
proof -
  have e: "csp_sfp_send drv c data (of_nat (length data)) mtu t w = send_each drv c (sfp_frags (unat mtu) (length data) 0 data) w"
    using send_loop_eq [OF assms(1,3) m n assms(2), of 0] m by (simp add: csp_sfp_send_def csp_sfp_send_own_memcpy_def)
  moreover have "\<forall>f \<in> set (sfp_frags (unat mtu) (length data) 0 data). length f \<le> CSP_BUFFER_SIZE"
    using sfp_frags_length [of _ "unat mtu" "length data" 0 data] m(2) by fastforce
  ultimately show ?thesis using send_each_ok [OF assms(1,3,2)] by metis
qed

theorem sfp_send_refines_fragments_witness:
  "csp_sfp_send csp_lo_tx 0 [1, 2, 3] 3 2 0 ex_cn = send_each csp_lo_tx 0 [frag_bytes 3 0 [1, 2], frag_bytes 3 2 [3]] ex_cn"
  using sfp_send_refines_fragments [OF nlo.transmitter_axioms ex_cn_sys(1), of 0 "[1, 2, 3]" 2 0]
  by (simp add: sfp_frags.simps)

end
