(* ===== verification/Init.thy ===== *)
theory Init
  imports Api_Own
begin

text \<open>
  Start-up (\<open>src/csp_init.c\<close>). The memory of the queues, which the code marks as not initialised, is a
  parameter; the rest is what \<open>powered_on\<close> says. One conjunct of it is an assumption on that memory and not
  the work of the C start-up code: the pool of buffers is marked as not initialised as well, and
  \<open>csp_buffer_init\<close> does not set the reference counts, so that they are zero only if the memory is.
\<close>

section \<open>Definitions\<close>

text \<open>What the queues of buffers, connections and of the router find in their memory.\<close>

record noinit =
  csp_buffer_queue_data :: "nat list"
  csp_buffers_queue :: "nat static_queue"
  conn_queue_data :: "nat \<Rightarrow> nat list"
  conn_queue_static :: "nat \<Rightarrow> nat static_queue"
  qfifo_queue_buffer :: "csp_qfifo list"
  qfifo_queue :: "csp_qfifo static_queue"

definition csp_init :: "noinit \<Rightarrow> ('a) csp_cn_scheme \<Rightarrow> ('a) csp_cn_scheme" where
  "csp_init m w =
     (let w = (if version (csp_conf w) = 0 \<or> 2 < version (csp_conf w)
               then w\<lparr>csp_conf := (csp_conf w)\<lparr>version := 2\<rparr>\<rparr> else w);
          w = (if CSP_DEDUP_ALL < dedup (csp_conf w)
               then w\<lparr>csp_conf := (csp_conf w)\<lparr>dedup := CSP_DEDUP_OFF\<rparr>\<rparr> else w);
          w = csp_buffer_init (csp_buffer_queue_data m) (csp_buffers_queue m) w;
          w = csp_conn_init (conn_queue_data m) (conn_queue_static m) w;
          w = csp_qfifo_init (qfifo_queue_buffer m) (qfifo_queue m) w;
          w = set_iface csp_if_lo ((ifaces w csp_if_lo)\<lparr>netmask := csp_id_get_host_bits (version (csp_conf w))\<rparr>) w
      in csp_iflist_add (Some csp_if_lo) w)"

definition csp_get_conf :: "('a) csp_cn_scheme \<Rightarrow> csp_conf" where
  "csp_get_conf w = csp_conf w"

section \<open>The state after a reset\<close>

definition powered_on :: "('a) csp_cn_scheme \<Rightarrow> bool" where
  "powered_on w \<longleftrightarrow>
     (\<forall>b < CSP_BUFFER_COUNT. refcount (pool w b) = 0) \<and>
     ifaces w csp_if_lo = csp_if_lo_init \<and> interfaces w = [] \<and>
     length (rtable w) = CSP_RTABLE_SIZE \<and> rtable_inptr w = 0 \<and>
     length (csp_dedup_array w) = 16 \<and> length (csp_dedup_timestamp w) = 16 \<and> csp_dedup_in w = 0 \<and>
     csp_promisc_queue w = None \<and> csp_hmac_key w \<noteq> [] \<and>
     ports w = replicate (CSP_PORT_MAX_BIND + 2) PORT_CLOSED \<and>
     (\<forall>s < n_sockets w. rx_queue (sockets w s) = None)"

text \<open>The arrays the linker reserves have the sizes of the declarations.\<close>

definition noinit_ok :: "noinit \<Rightarrow> bool" where
  "noinit_ok m \<longleftrightarrow> length (csp_buffer_queue_data m) = CSP_BUFFER_COUNT \<and>
     (\<forall>c < CSP_CONN_MAX. length (conn_queue_data m c) = CSP_CONN_RXQUEUE_LEN) \<and> length (qfifo_queue_buffer m) = CSP_QFIFO_LEN"

lemma buffer_init_loop_upd: "\<exists>pl bu. buffer_init_loop is w = w\<lparr>pool := pl, csp_buffers := bu\<rparr>"
proof (induction "is" arbitrary: w)
  case Nil
  show ?case by (intro exI [of _ "pool w"] exI [of _ "csp_buffers w"]) simp
next
  case (Cons i "is")
  let ?w = "w\<lparr>pool := (pool w)(i := (pool w i)\<lparr>skbf_addr := i\<rparr>), csp_buffers := snd (csp_queue_enqueue (csp_buffers w) i 0)\<rparr>"
  have "buffer_init_loop (i # is) w = buffer_init_loop is ?w" by (simp add: Let_def)
  then show ?case using Cons.IH [of ?w] by auto
qed

lemma buffer_init_upd: "\<exists>pl bu. csp_buffer_init s q w = w\<lparr>pool := pl, csp_buffers := bu\<rparr>"
  using buffer_init_loop_upd [of "[0..<CSP_BUFFER_COUNT]"
      "w\<lparr>csp_buffers := csp_queue_create_static CSP_BUFFER_COUNT ptr_size (Some s) (Some q)\<rparr>"]
  by (auto simp: csp_buffer_init_def)

lemma conn_init_one:
  "csp_conn_init d q w = set_conn 0 ((conns w 0)\<lparr>sport_outgoing := of_nat (CSP_PORT_MAX_BIND + 1), c_state := CONN_CLOSED,
     idin := (idin (conns w 0))\<lparr>flags := 0\<rparr>,
     c_rx_queue := csp_queue_create_static CSP_CONN_RXQUEUE_LEN ptr_size (Some (d 0)) (Some (q 0))\<rparr>) w"
  by (simp add: csp_conn_init_def)

text \<open>The three steps of start-up after the configuration was checked.\<close>

lemma init_sys:
  fixes w :: "('a) csp_cn_scheme"
  assumes p: "powered_on w" and m: "noinit_ok m"
  defines "u \<equiv> csp_qfifo_init (qfifo_queue_buffer m) (qfifo_queue m) (csp_conn_init (conn_queue_data m) (conn_queue_static m)
      (csp_buffer_init (csp_buffer_queue_data m) (csp_buffers_queue m) w))"
  shows "sys_ok {#} u" and "csp_conf u = csp_conf w" and "interfaces u = []" and "ifaces u = ifaces w"
    and "csp_buffer_remaining u = CSP_BUFFER_COUNT"
proof -
  let ?b = "csp_buffer_init (csp_buffer_queue_data m) (csp_buffers_queue m) w"
  note P = p [unfolded powered_on_def] and M = m [unfolded noinit_ok_def]
  have bi: "bufs_inv {#} ?b" "free_list ?b = [0..<CSP_BUFFER_COUNT]"
    using csp_buffer_init_inv [of "csp_buffer_queue_data m" w "csp_buffers_queue m"] P M by simp_all
  obtain pl bu where b: "?b = w\<lparr>pool := pl, csp_buffers := bu\<rparr>" using buffer_init_upd by blast
  have cq: "qh_ok q \<and> qh_items q = []" if "q = csp_queue_create_static CSP_CONN_RXQUEUE_LEN ptr_size (Some (conn_queue_data m 0)) (Some (conn_queue_static m 0))" for q
    using qh_create [of CSP_CONN_RXQUEUE_LEN ptr_size "conn_queue_data m 0" "conn_queue_static m 0"] M that by (simp add: ptr_size_def)
  have qq: "qh_ok q \<and> qh_items q = [] \<and> qh_cap q = CSP_QFIFO_LEN"
    if "q = csp_queue_create_static CSP_QFIFO_LEN (2 * ptr_size) (Some (qfifo_queue_buffer m)) (Some (qfifo_queue m))" for q
    using qh_create [of CSP_QFIFO_LEN "2 * ptr_size" "qfifo_queue_buffer m" "qfifo_queue m"] M that by (simp add: ptr_size_def)
  obtain q0 k where u: "u = w\<lparr>pool := pl, csp_buffers := bu, conns := (conns w)(0 := k), qfifo_queue_handle := q0\<rparr>"
    and k: "sport_outgoing k = of_nat (CSP_PORT_MAX_BIND + 1)" "c_state k = CONN_CLOSED" "qh_ok (c_rx_queue k)" "qh_items (c_rx_queue k) = []"
    and q0: "qh_ok q0" "qh_items q0 = []" "qh_cap q0 = CSP_QFIFO_LEN"
    using cq [OF refl] qq [OF refl] unfolding u_def b by (auto simp: conn_init_one set_conn_def csp_qfifo_init_def)
  have so: "so_refs (n_sockets w) (sockets w) = {#}"
    using P by (simp add: so_refs_def qh_items_def)
  have h: "held u = {#}"
    using P k q0 so by (simp add: held_def u qf_refs_def qf_items_def pm_refs_def cn_refs_def qh_items_def [of None])
  have "bufs_inv {#} u" "free_list u = [0..<CSP_BUFFER_COUNT]"
    using bi by (simp_all add: b u bufs_inv_def free_list_def pkt_def)
  moreover have "queues_ok u"
    using P k q0 by (simp add: queues_ok_def u qf_ok_def qf_entries_ok_def qf_items_def qh_ok_def [of None])
  moreover have "net_ok u"
    using P k by (auto simp: net_ok_def u ports_ok_def routes_ok_def dedup_ok_def conns_ok_def conn_ok_def socks_ok_def qh_items_def)
  ultimately show "sys_ok {#} u" "csp_buffer_remaining u = CSP_BUFFER_COUNT"
    by (simp_all add: sys_ok_def own_inv_def h csp_buffer_remaining_def queue_simps free_list_def)
  show "csp_conf u = csp_conf w" "interfaces u = []" "ifaces u = ifaces w" using P by (simp_all add: u)
qed

lemma sys_ok_loopback:
  assumes "sys_ok X w"
  shows "sys_ok X (set_iface i f w\<lparr>interfaces := [i]\<rparr>)"
proof -
  have "own_inv X (set_iface i f w\<lparr>interfaces := [i]\<rparr>) = own_inv X w"
    by (simp add: own_inv_def held_def set_iface_def qf_refs_def qf_items_def pm_refs_def so_refs_def queues_ok_def qf_ok_def
        qf_entries_ok_def bufs_inv_def free_list_def pkt_def)
  moreover have "net_ok (set_iface i f w\<lparr>interfaces := [i]\<rparr>)"
    using assms by (auto simp: sys_ok_def net_ok_def set_iface_def ports_ok_def routes_ok_def dedup_ok_def conns_ok_def conn_ok_def
        socks_ok_def conn_less_def)
  ultimately show ?thesis using assms by (simp add: sys_ok_def)
qed

lemma init_facts:
  assumes p: "powered_on w" and m: "noinit_ok m"
  shows "sys_ok {#} (csp_init m w) \<and> version (csp_get_conf (csp_init m w)) \<in> {1, 2} \<and>
     dedup (csp_get_conf (csp_init m w)) \<le> CSP_DEDUP_ALL \<and> csp_buffer_remaining (csp_init m w) = CSP_BUFFER_COUNT \<and>
     interfaces (csp_init m w) = [csp_if_lo] \<and>
     netmask (ifaces (csp_init m w) csp_if_lo) = csp_id_get_host_bits (version (csp_get_conf (csp_init m w)))"
proof -
  define w1 where "w1 = (if version (csp_conf w) = 0 \<or> 2 < version (csp_conf w)
      then w\<lparr>csp_conf := (csp_conf w)\<lparr>version := 2\<rparr>\<rparr> else w)"
  define w2 where "w2 = (if CSP_DEDUP_ALL < dedup (csp_conf w1)
      then w1\<lparr>csp_conf := (csp_conf w1)\<lparr>dedup := CSP_DEDUP_OFF\<rparr>\<rparr> else w1)"
  have v1: "version (csp_conf w1) \<in> {1, 2}"
  proof -
    have "x = 0 \<or> x = 1 \<or> x = 2 \<or> 2 < x" for x :: u8
    proof -
      have "unat x = unat (0 :: u8) \<or> unat x = unat (1 :: u8) \<or> unat x = unat (2 :: u8) \<or> 2 < unat x" by auto
      then show ?thesis by (simp add: word_less_nat_alt word_unat_eq_iff)
    qed
    then show ?thesis by (auto simp: w1_def)
  qed
  have p2: "powered_on w2" using p by (simp add: w1_def w2_def powered_on_def)
  have c2: "version (csp_conf w2) \<in> {1, 2}" "dedup (csp_conf w2) \<le> CSP_DEDUP_ALL"
    using v1 by (auto simp: w2_def csp_dedup_defs)
  define u where "u = csp_qfifo_init (qfifo_queue_buffer m) (qfifo_queue m) (csp_conn_init (conn_queue_data m) (conn_queue_static m)
      (csp_buffer_init (csp_buffer_queue_data m) (csp_buffers_queue m) w2))"
  note U = init_sys [OF p2 m, folded u_def]
  let ?f = "(ifaces u csp_if_lo)\<lparr>netmask := csp_id_get_host_bits (version (csp_conf u))\<rparr>"
  have "name (ifaces u csp_if_lo) \<noteq> None" using p2 by (simp add: U(4) powered_on_def csp_if_lo_init_def)
  then have e: "csp_init m w = set_iface csp_if_lo ?f u\<lparr>interfaces := [csp_if_lo]\<rparr>"
    using U(3) by (auto simp: csp_init_def Let_def csp_iflist_add_def set_iface_def simp flip: w1_def w2_def u_def)
  show ?thesis
    using sys_ok_loopback [OF U(1), of csp_if_lo ?f] c2 U(2,5)
    by (simp add: e csp_get_conf_def set_iface_def csp_buffer_remaining_def)
qed

section \<open>Properties\<close>


definition ex_noinit :: noinit where
  "ex_noinit = \<lparr>csp_buffer_queue_data = replicate 8 7, csp_buffers_queue = empty_queue, conn_queue_data = (\<lambda>_. replicate 4 9),
     conn_queue_static = (\<lambda>_. empty_queue), qfifo_queue_buffer = replicate 16 \<lparr>qe_iface = None, qe_packet = None\<rparr>,
     qfifo_queue = empty_queue\<rparr>"

definition ex_reset :: csp_cn where
  "ex_reset = ex_cn\<lparr>pool := pool boot_bufs, interfaces := [], ifaces := (ifaces ex_cn)(0 := csp_if_lo_init),
     csp_conf := boot_conf\<lparr>version := 7\<rparr>, n_sockets := 0\<rparr>"

lemma ex_reset_ok: "powered_on ex_reset" "noinit_ok ex_noinit"
proof -
  have "rtable ex_cn = empty_routes" "rtable_inptr ex_cn = 0"
    by (simp_all add: ex_cn_def ex_pm_def ex_dd_def ex_ks_def ex_qf_def ex_rt_def
        csp_pm.defs csp_dd.defs csp_ks.defs csp_qf.defs csp_rt.defs csp_ifs.defs)
  moreover have "length (csp_dedup_array ex_cn) = 16" "length (csp_dedup_timestamp ex_cn) = 16" "csp_dedup_in ex_cn = 0"
    by (simp_all add: ex_cn_def ex_pm_def ex_dd_def ex_ks_def csp_pm.defs csp_dd.defs csp_ks.defs)
  ultimately show "powered_on ex_reset"
    by (simp add: powered_on_def ex_reset_def boot_bufs_def ex_cn_fields empty_routes_def)
  show "noinit_ok ex_noinit" by (simp add: noinit_ok_def ex_noinit_def)
qed


end
