(* ===== verification/Usart.thy ===== *)
theory Usart
  imports Kiss_Link
begin

text \<open>
  Opening a serial port as a KISS interface (\<open>src/drivers/usart/usart_kiss.c\<close>). The driver below,
  \<open>csp_usart_open\<close> and \<open>csp_usart_write\<close>, and the number of ports come from the board support: they are
  parameters. Context \<open>c\<close> of the static array has the interface \<open>ctx_iface c\<close> and the receiver state
  \<open>kiss c\<close>; its address is \<open>Some c\<close> where the code passes it as driver data.
\<close>

section \<open>Definitions\<close>

record kiss_contexts =
  ctx_iface :: "nat \<Rightarrow> nat"
  ctx_fd :: "nat \<Rightarrow> int"
  curr_n :: u8

definition kiss_driver_tx :: "(int \<Rightarrow> u8 list \<Rightarrow> 's \<Rightarrow> int \<times> 's) \<Rightarrow> kiss_contexts \<Rightarrow> nat \<Rightarrow> u8 list \<Rightarrow> 's \<Rightarrow> int \<times> 's" where
  "kiss_driver_tx csp_usart_write cs ctx data s =
     (case csp_usart_write (ctx_fd cs ctx) data s of
        (n, s) \<Rightarrow> (if n = int (length data) then CSP_ERR_NONE else CSP_ERR_TX, s))"

definition kiss_driver_rx ::
  "kiss_contexts \<Rightarrow> nat \<Rightarrow> u8 list \<Rightarrow> bool \<Rightarrow> ('a) csp_ks_scheme \<Rightarrow> rx_stop + ('a) csp_ks_scheme" where
  "kiss_driver_rx cs ctx data woken w = csp_kiss_rx (ctx_iface cs ctx) data woken w"

text \<open>
  \<open>contexts[curr_n]\<close> is not checked: \<open>None\<close> when the array has no such element. \<open>csp_usart_open\<close> gives an
  error code and, on success, a file descriptor.
\<close>

definition csp_usart_open_and_add_kiss_interface ::
  "nat \<Rightarrow> ('c \<Rightarrow> int + int) \<Rightarrow> 'c \<Rightarrow> string option \<Rightarrow> u16 \<Rightarrow> kiss_contexts \<Rightarrow> ('a) csp_ks_scheme \<Rightarrow>
     (int \<times> nat \<times> kiss_contexts \<times> ('a) csp_ks_scheme) option" where
  "csp_usart_open_and_add_kiss_interface max_uarts csp_usart_open conf ifname address cs w =
     (let ifname = (case ifname of None \<Rightarrow> ''KISS'' | Some n \<Rightarrow> n);
          ctx = unat (curr_n cs)
      in if max_uarts \<le> ctx then None
         else
           let cs = cs\<lparr>curr_n := curr_n cs + 1\<rparr>;
               i = ctx_iface cs ctx;
               w = set_iface i ((ifaces w i)\<lparr>name := Some (take CSP_IFLIST_NAME_MAX ifname), addr := address,
                     driver_data := Some ctx, interface_data := Some ctx\<rparr>) w;
               w = set_kiss ctx ((kiss w ctx)\<lparr>has_tx_func := True\<rparr>) w;
               cs = cs\<lparr>ctx_fd := (ctx_fd cs)(ctx := -1)\<rparr>
           in case csp_kiss_add_interface (Some i) w of
                (res, w) \<Rightarrow>
                  if res \<noteq> CSP_ERR_NONE then Some (res, i, cs, w)
                  else (case csp_usart_open conf of
                          Inl err \<Rightarrow> Some (err, i, cs, w)
                        | Inr fd \<Rightarrow> Some (CSP_ERR_NONE, i, cs\<lparr>ctx_fd := (ctx_fd cs)(ctx := fd)\<rparr>, w)))"

section \<open>An opened port receives\<close>

text \<open>A port more than the board has reads past the array.\<close>

lemma open_too_many:
  "max_uarts \<le> unat (curr_n cs) \<Longrightarrow> csp_usart_open_and_add_kiss_interface max_uarts op conf ifname a cs w = None"
  by (simp add: csp_usart_open_and_add_kiss_interface_def Let_def)

lemma kiss_inv_fresh:
  assumes "bufs_inv (X + qf_refs w) w" and "qf_ok w"
  shows "kiss_inv X d (set_kiss d ((kiss w d)\<lparr>rx_length := 0, rx_mode := KISS_MODE_NOT_STARTED, rx_first := False, rx_packet := None\<rparr>) w)"
  using assms by (simp add: kiss_inv_def kiss_ref_def kiss_ok_def frame_simps)

lemma iflist_add_frame [frame_simps]:
  "bufs_inv M (csp_iflist_add x w) = bufs_inv M w" "qf_ok (csp_iflist_add x w) = qf_ok w" "kiss (csp_iflist_add x w) = kiss w"
  "qf_refs (csp_iflist_add x w) = qf_refs w" "csp_conf (csp_iflist_add x w) = csp_conf w" "ifaces (csp_iflist_add x w) = ifaces w"
  "pkt (csp_iflist_add x w) b = pkt w b"
  by (simp_all add: csp_iflist_add_def bufs_inv_def free_list_def pkt_def qf_ok_def qf_refs_def qf_items_def Let_def split: option.split)

text \<open>
  After a port was opened its interface sends through the KISS transmitter, and its receiver is in its initial
  state, from which no byte on the line can do harm.
\<close>

lemma open_ready:
  assumes "unat (curr_n cs) < max_uarts" and "bufs_inv (X + qf_refs w) w" and "qf_ok w"
    and op: "csp_usart_open_and_add_kiss_interface max_uarts op conf ifname a cs w = Some (res, i, cs', w')"
  shows "i = ctx_iface cs (unat (curr_n cs))" and "kiss_inv X (unat (curr_n cs)) w'"
    and "nexthop (ifaces w' i) = NextKiss" and "interface_data (ifaces w' i) = Some (unat (curr_n cs))"
    and "addr (ifaces w' i) = a"
proof -
  let ?c = "unat (curr_n cs)" and ?i = "ctx_iface cs (unat (curr_n cs))"
  let ?f = "(ifaces w ?i)\<lparr>name := Some (take CSP_IFLIST_NAME_MAX (case ifname of None \<Rightarrow> ''KISS'' | Some n \<Rightarrow> n)), addr := a,
      driver_data := Some ?c, interface_data := Some ?c\<rparr>"
  define w1 where "w1 = set_kiss ?c ((kiss w ?c)\<lparr>has_tx_func := True\<rparr>) (set_iface ?i ?f w)"
  let ?k = "(kiss w1 ?c)\<lparr>rx_length := 0, rx_mode := KISS_MODE_NOT_STARTED, rx_first := False, rx_packet := None\<rparr>"
  define w2 where "w2 = set_iface ?i ((ifaces w1 ?i)\<lparr>nexthop := NextKiss\<rparr>) (set_kiss ?c ?k w1)"
  have f1: "ifaces w1 ?i = ?f" "kiss w1 ?c = (kiss w ?c)\<lparr>has_tx_func := True\<rparr>"
    by (simp_all add: w1_def frame_simps set_iface_def)
  have add: "csp_kiss_add_interface (Some ?i) w1 = (CSP_ERR_NONE, csp_iflist_add (Some ?i) w2)"
    by (simp add: csp_kiss_add_interface_def f1 Let_def w2_def frame_simps)
  then have r: "i = ?i \<and> w' = csp_iflist_add (Some ?i) w2"
    using op assms(1) by (auto simp: csp_usart_open_and_add_kiss_interface_def Let_def frame_simps w1_def [symmetric] split: sum.splits)
  have "bufs_inv (X + qf_refs w1) w1" "qf_ok w1" using assms(2,3) by (simp_all add: w1_def frame_simps)
  then have k: "kiss_inv X ?c w2" using kiss_inv_fresh [of X w1 ?c] by (simp add: w2_def kiss_inv_iface)
  show "i = ?i" using r by simp
  show "kiss_inv X ?c w'" using r k by (simp add: kiss_inv_def kiss_ref_def kiss_ok_def frame_simps Let_def split: option.splits)
  show "nexthop (ifaces w' i) = NextKiss" "interface_data (ifaces w' i) = Some ?c" "addr (ifaces w' i) = a"
    using r f1 by (simp_all add: frame_simps w2_def set_iface_def)
qed

end
