(* ===== verification/Hex_Dump.thy ===== *)
theory Hex_Dump
  imports Prelude
begin

text \<open>
  The hex dump (\<open>src/csp_hex_dump.c\<close>), as it prints when \<open>CSP_ENABLE_CSP_PRINT\<close> is set. What \<open>csp_print\<close> writes is collected in a string. The array \<open>buff\<close> on
  the stack has any contents at first, and how \<open>%p\<close> prints the address of byte \<open>i\<close> is up to the C library: both
  are parameters. The result is \<open>None\<close> where the code reads past the data, prints an array without a terminating
  zero, or counts past the largest \<open>int\<close>.
\<close>

section \<open>Definitions\<close>

definition INT_MAX :: int where
  "INT_MAX = 32767"

definition hex_digit :: "nat \<Rightarrow> char" where
  "hex_digit d = ''0123456789abcdef'' ! d"

text \<open>\<open>" %02x"\<close>.\<close>

definition print_02x :: "u8 \<Rightarrow> string" where
  "print_02x b = CHR '' '' # [hex_digit (unat b div 16), hex_digit (unat b mod 16)]"

text \<open>\<open>"  %s\n"\<close>: up to the zero.\<close>

definition print_s :: "char list \<Rightarrow> string option" where
  "print_s buff =
     (if CHR 0x00 \<in> set buff then Some (''  '' @ takeWhile (\<lambda>c. c \<noteq> CHR 0x00) buff @ [CHR 0x0A]) else None)"

definition printable :: "u8 \<Rightarrow> char" where
  "printable b = (if b < 0x20 \<or> 0x7e < b then CHR ''.'' else char_of (unat b))"

definition print_offset :: "(nat \<Rightarrow> string) \<Rightarrow> u8 \<Rightarrow> nat \<Rightarrow> string" where
  "print_offset addr_text format i =
     (if format AND 1 \<noteq> 0 then ''  '' @ addr_text i @ '' '' else ''        '')"

text \<open>One turn of the loop over the bytes.\<close>

definition hex_dump_byte ::
  "(nat \<Rightarrow> string) \<Rightarrow> u8 list \<Rightarrow> u8 \<Rightarrow> nat \<Rightarrow> char list \<times> string \<Rightarrow> (char list \<times> string) option" where
  "hex_dump_byte addr_text pc format i s =
     (case s of (buff, out) \<Rightarrow>
        (case (if i mod 16 = 0 then
                 (case (if i \<noteq> 0 then print_s buff else Some []) of
                    None \<Rightarrow> None
                  | Some t \<Rightarrow> Some (out @ t @ print_offset addr_text format i))
               else Some out) of
           None \<Rightarrow> None
         | Some out \<Rightarrow>
             if i < length pc then
               Some ((buff[i mod 16 := printable (pc ! i)])[i mod 16 + 1 := CHR 0x00], out @ print_02x (pc ! i))
             else None))"

fun hex_dump_bytes ::
  "(nat \<Rightarrow> string) \<Rightarrow> u8 list \<Rightarrow> u8 \<Rightarrow> nat \<Rightarrow> char list \<times> string \<Rightarrow> (char list \<times> string) option" where
  "hex_dump_bytes addr_text pc format 0 s = Some s"
| "hex_dump_bytes addr_text pc format (Suc i) s =
     (case hex_dump_bytes addr_text pc format i s of
        None \<Rightarrow> None
      | Some s \<Rightarrow> hex_dump_byte addr_text pc format i s)"

text \<open>The loop that pads the last line.\<close>

function hex_dump_pad :: "int \<Rightarrow> string \<Rightarrow> string option" where
  "hex_dump_pad i out =
     (if i mod 16 \<noteq> 0 then (if i \<ge> INT_MAX then None else hex_dump_pad (i + 1) (out @ ''   '')) else Some out)"
  by auto
termination by (relation "measure (\<lambda>(i, out). nat (INT_MAX - i))") auto

declare hex_dump_pad.simps [simp del]

definition csp_hex_dump_format ::
  "(nat \<Rightarrow> string) \<Rightarrow> char list \<Rightarrow> string option \<Rightarrow> u8 list \<Rightarrow> int \<Rightarrow> u8 \<Rightarrow> string option" where
  "csp_hex_dump_format addr_text buff desc pc len format =
     (let out = (case desc of Some d \<Rightarrow> d @ [CHR 0x0A] | None \<Rightarrow> [])
      in if \<not> len > 0 then Some out
         else
           (case hex_dump_bytes addr_text pc format (nat len) (buff, out) of
              None \<Rightarrow> None
            | Some (buff, out) \<Rightarrow>
                (case hex_dump_pad len out of
                   None \<Rightarrow> None
                 | Some out \<Rightarrow> map_option (\<lambda>t. out @ t) (print_s buff))))"

definition csp_hex_dump :: "(nat \<Rightarrow> string) \<Rightarrow> char list \<Rightarrow> string option \<Rightarrow> u8 list \<Rightarrow> int \<Rightarrow> string option" where
  "csp_hex_dump addr_text buff desc addr len = csp_hex_dump_format addr_text buff desc addr len 0"

section \<open>The dump as rows of sixteen bytes\<close>

text \<open>One line: the offset, the codes, the padding, the characters.\<close>

definition hex_row :: "(nat \<Rightarrow> string) \<Rightarrow> u8 \<Rightarrow> nat \<Rightarrow> u8 list \<Rightarrow> string" where
  "hex_row addr_text format i bs =
     print_offset addr_text format i @ concat (map print_02x bs) @ concat (replicate (16 - length bs) ''   '') @
     ''  '' @ map printable bs @ [CHR 0x0A]"

function hex_rows :: "(nat \<Rightarrow> string) \<Rightarrow> u8 \<Rightarrow> nat \<Rightarrow> u8 list \<Rightarrow> string" where
  "hex_rows addr_text format i bs =
     (if bs = [] then [] else hex_row addr_text format i (take 16 bs) @ hex_rows addr_text format (i + 16) (drop 16 bs))"
  by auto
termination by (relation "measure (\<lambda>(_, _, _, bs). length bs)") auto

declare hex_rows.simps [simp del]

lemma hex_rows_Nil [simp]: "hex_rows addr_text format i [] = []"
  by (simp add: hex_rows.simps)

lemma hex_rows_full:
  "length bs = 16 * q \<Longrightarrow>
     hex_rows addr_text format i (bs @ cs) = hex_rows addr_text format i bs @ hex_rows addr_text format (i + 16 * q) cs"
proof (induction q arbitrary: i bs)
  case 0
  then show ?case by simp
next
  case (Suc q)
  then have ne: "bs \<noteq> []" and ge: "16 \<le> length bs" by auto
  have "length (drop 16 bs) = 16 * q" using Suc.prems by simp
  note IH = Suc.IH [OF this, of "i + 16"]
  show ?case
    using ne ge IH hex_rows.simps [of addr_text format i "bs @ cs"] hex_rows.simps [of addr_text format i bs]
    by (simp add: algebra_simps)
qed

lemma hex_rows_last:
  "bs \<noteq> [] \<Longrightarrow> length bs \<le> 16 \<Longrightarrow> hex_rows addr_text format i bs = hex_row addr_text format i bs"
  by (simp add: hex_rows.simps [of addr_text format i bs])

lemma printable_not_zero: "printable b \<noteq> CHR 0x00"
proof (cases "b < 0x20 \<or> 0x7e < b")
  case False
  then have "0 < unat b" "unat b < 256" by (auto simp: word_less_nat_alt)
  have "of_char (char_of (unat b) :: char) \<noteq> (of_char (CHR 0x00) :: nat)" using \<open>0 < unat b\<close> \<open>unat b < 256\<close> by simp
  then have "(char_of (unat b) :: char) \<noteq> CHR 0x00" by metis
  then show ?thesis using False by (simp add: printable_def)
qed (simp add: printable_def)

lemma print_s_chars:
  assumes "map printable bs @ [CHR 0x00] = take (Suc (length bs)) buff"
  shows "print_s buff = Some (''  '' @ map printable bs @ [CHR 0x0A])"
proof -
  have b: "buff = map printable bs @ CHR 0x00 # drop (Suc (length bs)) buff"
    using append_take_drop_id [of "Suc (length bs)" buff] assms by (metis append.assoc append_Cons append_Nil)
  have "takeWhile (\<lambda>c. c \<noteq> CHR 0x00) (map printable bs @ CHR 0x00 # cs) = map printable bs" for cs
    by (subst takeWhile_append2) (auto simp: printable_not_zero)
  then show ?thesis using b unfolding print_s_def by (metis in_set_conv_decomp)
qed

text \<open>The bytes of the row in progress after \<open>n\<close> bytes, and the turns that go on with a row or begin one.\<close>

definition row_start :: "nat \<Rightarrow> nat" where
  "row_start n = 16 * ((n - 1) div 16)"

definition row_bytes :: "u8 list \<Rightarrow> nat \<Rightarrow> u8 list" where
  "row_bytes pc n = drop (row_start n) (take n pc)"

definition row_state :: "(nat \<Rightarrow> string) \<Rightarrow> u8 list \<Rightarrow> u8 \<Rightarrow> string \<Rightarrow> nat \<Rightarrow> char list \<times> string \<Rightarrow> bool" where
  "row_state addr_text pc format out n s \<longleftrightarrow>
     snd s = out @ hex_rows addr_text format 0 (take (row_start n) pc) @ print_offset addr_text format (row_start n) @
       concat (map print_02x (row_bytes pc n)) \<and>
     length (fst s) = 17 \<and>
     take (Suc (length (row_bytes pc n))) (fst s) = map printable (row_bytes pc n) @ [CHR 0x00]"

lemma row_in_progress:
  assumes "0 < n" and "n mod 16 \<noteq> 0" and "n < length pc"
  shows "row_start (Suc n) = row_start n" and "row_bytes pc (Suc n) = row_bytes pc n @ [pc ! n]"
    and "length (row_bytes pc n) = n mod 16"
proof -
  have "n div 16 = (n - 1) div 16" using assms(1,2)
    by (metis Suc_pred' div_Suc)
  then show s: "row_start (Suc n) = row_start n" by (simp add: row_start_def)
  have st: "row_start n = n - n mod 16" and le: "row_start n \<le> n"
    using \<open>n div 16 = (n - 1) div 16\<close> by (simp_all add: row_start_def minus_mod_eq_mult_div)
  show "row_bytes pc (Suc n) = row_bytes pc n @ [pc ! n]"
    using assms(3) le by (simp add: row_bytes_def s take_Suc_conv_app_nth)
  show "length (row_bytes pc n) = n mod 16"
    using assms(3) st by (simp add: row_bytes_def)
qed

lemma row_begins:
  assumes "n mod 16 = 0" and "n < length pc"
  shows "row_start (Suc n) = n" and "row_bytes pc (Suc n) = [pc ! n]"
proof -
  show s: "row_start (Suc n) = n" using assms(1) by (simp add: row_start_def) presburger
  show "row_bytes pc (Suc n) = [pc ! n]"
    using assms(2) by (simp add: row_bytes_def s take_Suc_conv_app_nth)
qed

lemma row_ends:
  assumes "0 < n" and "n \<le> length pc"
  shows "hex_rows addr_text format 0 (take n pc) =
    hex_rows addr_text format 0 (take (row_start n) pc) @ hex_row addr_text format (row_start n) (row_bytes pc n)"
proof -
  have lt: "row_start n < n" and le: "n \<le> row_start n + 16" using assms(1) by (auto simp: row_start_def)
  have t: "take n pc = take (row_start n) pc @ row_bytes pc n"
    using lt by (simp add: row_bytes_def) (metis append_take_drop_id min.absorb1 less_imp_le take_take)
  have r: "row_bytes pc n \<noteq> []" "length (row_bytes pc n) \<le> 16"
    using lt le assms(2) by (auto simp: row_bytes_def)
  have "length (take (row_start n) pc) = 16 * ((n - 1) div 16)"
    using lt assms(2) by (simp add: row_start_def)
  from hex_rows_full [OF this, of addr_text format 0 "row_bytes pc n"]
  show ?thesis unfolding t by (simp add: hex_rows_last [OF r] row_start_def)
qed

lemma row_store:
  assumes "length buff = 17" and "length bs < 16" and "take (length bs) buff = map printable bs"
  shows "take (Suc (length (bs @ [b]))) ((buff[length bs := printable b])[Suc (length bs) := CHR 0x00]) =
    map printable (bs @ [b]) @ [CHR 0x00]"
  using assms by (simp add: take_Suc_conv_app_nth)

lemma hex_dump_byte_row:
  assumes "n = 0 \<and> length (fst s) = 17 \<and> snd s = out \<or> 0 < n \<and> row_state addr_text pc format out n s"
    and "n < length pc"
  shows "\<exists>s'. hex_dump_byte addr_text pc format n s = Some s' \<and> row_state addr_text pc format out (Suc n) s'"
proof -
  obtain buff o' where s: "s = (buff, o')" by (cases s)
  let ?store = "(buff[n mod 16 := printable (pc ! n)])[Suc (n mod 16) := CHR 0x00]"
  consider (first) "n = 0" | (fresh) "0 < n" "n mod 16 = 0" | (on) "0 < n" "n mod 16 \<noteq> 0" by blast
  then show ?thesis
  proof cases
    case first
    then show ?thesis using assms row_begins [of n pc] row_store [of buff "[]" "pc ! n"]
      by (simp add: s hex_dump_byte_def row_state_def)
  next
    case fresh
    then have st: "row_state addr_text pc format out n (buff, o')" using assms s by simp
    have "n = 16 * Suc (n div 16 - 1)" using fresh by auto
    then obtain k where "n = 16 * Suc k" ..
    then have l: "length (row_bytes pc n) = 16"
      using assms(2) by (simp add: row_bytes_def row_start_def)
    have "print_s buff = Some (''  '' @ map printable (row_bytes pc n) @ [CHR 0x0A])"
      using st by (intro print_s_chars) (simp add: row_state_def)
    then show ?thesis
      using st l fresh assms(2) row_begins [OF fresh(2) assms(2)] row_store [of buff "[]" "pc ! n"]
        row_ends [of n pc addr_text format]
      by (simp add: s hex_dump_byte_def row_state_def hex_row_def)
  next
    case on
    then have st: "row_state addr_text pc format out n (buff, o')" using assms s by simp
    note r = row_in_progress [OF on assms(2)]
    have "take (n mod 16) buff = map printable (row_bytes pc n)"
      using st r(3) by (auto simp: row_state_def dest: arg_cong [of _ _ "take (n mod 16)"])
    then show ?thesis
      using st r on assms(2) row_store [of buff "row_bytes pc n" "pc ! n"]
      by (simp add: s hex_dump_byte_def row_state_def)
  qed
qed

lemma hex_dump_bytes_row:
  assumes "length buff = 17"
  shows "Suc n \<le> length pc \<Longrightarrow> \<exists>s'. hex_dump_bytes addr_text pc format (Suc n) (buff, out) = Some s' \<and>
    row_state addr_text pc format out (Suc n) s'"
proof (induction n)
  case 0
  then have "0 < length pc" by linarith
  then show ?case
    using hex_dump_byte_row [where n = 0 and s = "(buff, out)" and out = out and pc = pc, of addr_text format] assms
    by (simp del: length_greater_0_conv)
next
  case (Suc n)
  then obtain s where "hex_dump_bytes addr_text pc format (Suc n) (buff, out) = Some s"
    and "row_state addr_text pc format out (Suc n) s" by auto
  then show ?case using hex_dump_byte_row [where n = "Suc n" and s = s and out = out and pc = pc] Suc.prems
    by (simp del: hex_dump_bytes.simps(2) add: hex_dump_bytes.simps(2) [of _ _ _ "Suc n"])
qed

lemma minus_mod_16:
  fixes i q r :: int
  shows "i = 16 * q + r \<Longrightarrow> 0 < r \<Longrightarrow> r \<le> 16 \<Longrightarrow> (- i) mod 16 = 16 - r"
  by (rule int_mod_pos_eq [of _ _ "- q - 1"]) (auto simp: algebra_simps)

lemma pad_step:
  fixes i :: int
  assumes "i mod 16 \<noteq> 0"
  shows "nat ((- i) mod 16) = Suc (nat ((- (i + 1)) mod 16))"
proof -
  have r: "0 < i mod 16" "i mod 16 < 16" using assms pos_mod_sign [of 16 i] by linarith+
  then show ?thesis
    using minus_mod_16 [of i "i div 16" "i mod 16"] minus_mod_16 [of "i + 1" "i div 16" "i mod 16 + 1"] by simp
qed

lemma pad_length:
  assumes "0 < n"
  shows "nat ((- int n) mod 16) = 16 - (n - 16 * ((n - 1) div 16))"
proof -
  define q r where "q = (n - 1) div 16" and "r = (n - 1) mod 16"
  have n: "n = 16 * q + r + 1" "r < 16" using assms by (simp_all add: q_def r_def)
  then show ?thesis unfolding q_def [symmetric] using minus_mod_16 [of "int n" "int q" "int r + 1"] by simp
qed

lemma hex_dump_pad_row:
  "0 \<le> i \<Longrightarrow> i \<le> INT_MAX - 15 \<Longrightarrow> hex_dump_pad i out = Some (out @ concat (replicate (nat ((- i) mod 16)) ''   ''))"
proof (induction i out rule: hex_dump_pad.induct)
  case (1 i out)
  show ?case
  proof (cases "i mod 16 = 0")
    case True
    then show ?thesis by (simp add: hex_dump_pad.simps [of i]) presburger
  next
    case False
    have "i + 1 \<le> INT_MAX - 15" using False "1.prems" by (simp add: INT_MAX_def) presburger
      then show ?thesis using False "1.IH" "1.prems" by (simp add: pad_step hex_dump_pad.simps [of i] INT_MAX_def)
  qed
qed

text \<open>
  A dump of \<open>len\<close> bytes that are there prints the description and the rows, whatever the array held, and does not
  read or write outside of the data and the array.
\<close>

lemma hex_dump_rows:
  assumes "length buff = 17" and "nat len \<le> length pc" and "len \<le> INT_MAX - 15"
  shows "csp_hex_dump_format addr_text buff desc pc len format =
    Some ((case desc of Some d \<Rightarrow> d @ [CHR 0x0A] | None \<Rightarrow> []) @ hex_rows addr_text format 0 (take (nat len) pc))"
proof (cases "len > 0")
  case False
  then show ?thesis by (simp add: csp_hex_dump_format_def)
next
  case True
  define out where "out = (case desc of Some d \<Rightarrow> d @ [CHR 0x0A] | None \<Rightarrow> [])"
  define n where "n = nat len"
  obtain buff' o' where run: "hex_dump_bytes addr_text pc format n (buff, out) = Some (buff', o')"
    and st: "row_state addr_text pc format out n (buff', o')"
    using hex_dump_bytes_row [OF assms(1), of "n - 1" pc addr_text format out] True assms(2)
    by (auto simp: n_def simp del: hex_dump_bytes.simps(2))
  have "print_s buff' = Some (''  '' @ map printable (row_bytes pc n) @ [CHR 0x0A])"
    using st by (intro print_s_chars) (simp add: row_state_def)
  moreover have "length (row_bytes pc n) = n - row_start n" using assms(2) by (simp add: row_bytes_def n_def)
  then have "nat ((- len) mod 16) = 16 - length (row_bytes pc n)"
    using True pad_length [of n] by (simp add: row_start_def n_def)
  moreover have "0 < n" using True by (simp add: n_def)
  ultimately show ?thesis
    using True run st hex_dump_pad_row [of len o'] row_ends [of n pc addr_text format] assms(2,3)
    by (simp add: csp_hex_dump_format_def Let_def out_def [symmetric] n_def [symmetric] row_state_def hex_row_def)
qed

text \<open>A length among the last fifteen values of \<open>int\<close> makes the padding loop count past the largest.\<close>

lemma hex_dump_pad_overflow: "INT_MAX - 15 < i \<Longrightarrow> i \<le> INT_MAX \<Longrightarrow> hex_dump_pad i out = None"
proof (induction i out rule: hex_dump_pad.induct)
  case (1 i out)
  have "16 * (i div 16) + i mod 16 = i" by simp
  then have m: "i mod 16 \<noteq> 0" using "1.prems" unfolding INT_MAX_def by presburger
  show ?case
  proof (cases "i \<ge> INT_MAX")
    case True
    then show ?thesis using m by (simp add: hex_dump_pad.simps [of i])
  next
    case False
    then have "hex_dump_pad (i + 1) (out @ ''   '') = None" using m "1.prems" "1.IH" by linarith
    then show ?thesis using False m by (subst hex_dump_pad.simps) simp
  qed
qed

end
