(* ===== verification/Tables.thy ===== *)
theory Tables
  imports Send_Own Hex_Dump
begin

text \<open>
  The tables of a node as text: \<open>csp_rtable_print\<close> (\<open>src/csp_rtable_cidr.c\<close>), \<open>csp_iflist_print\<close>
  (\<open>src/csp_iflist.c\<close>), \<open>csp_conn_print_table\<close> and \<open>csp_conn_print_table_str\<close> (\<open>src/csp_conn.c\<close>), which are compiled when
  \<open>CSP_ENABLE_CSP_PRINT\<close> or \<open>CSP_HAVE_STDIO\<close> is set. What \<open>csp_print\<close> writes is collected in a string; how \<open>%p\<close>
  prints a pointer is a parameter, and \<open>is_default\<close>, a promoted 16-bit \<open>int\<close> that is printed with \<open>PRIu32\<close>, is printed
  as what was meant. \<open>None\<close> is a NULL pointer followed or printed, or a write outside an array.
\<close>

section \<open>Conversions of \<open>printf\<close>\<close>

text \<open>\<open>%u\<close> and \<open>%x\<close>, a minimal width with zeros in front, and \<open>%-10s\<close>.\<close>

fun print_u :: "nat \<Rightarrow> string" where
  "print_u n = (if n < 10 then [hex_digit n] else print_u (n div 10) @ [hex_digit (n mod 10)])"

fun print_x :: "nat \<Rightarrow> string" where
  "print_x n = (if n < 16 then [hex_digit n] else print_x (n div 16) @ [hex_digit (n mod 16)])"

declare print_u.simps [simp del]
declare print_x.simps [simp del]

definition zeros :: "nat \<Rightarrow> string \<Rightarrow> string" where
  "zeros n s = replicate (n - length s) CHR ''0'' @ s"

definition spaces :: "nat \<Rightarrow> string \<Rightarrow> string" where
  "spaces n s = s @ replicate (n - length s) CHR '' ''"

abbreviation (input) CRLF :: string where "CRLF \<equiv> [CHR 0x0D, CHR 0x0A]"

section \<open>The routing table\<close>

definition csp_rtable_print_route :: "('a) csp_rt_scheme \<Rightarrow> string option \<Rightarrow> csp_route \<Rightarrow> string option" where
  "csp_rtable_print_route w out route =
     (case out of
        None \<Rightarrow> None
      | Some out \<Rightarrow>
          (case r_iface route of
             None \<Rightarrow> None
           | Some i \<Rightarrow>
               (case name (ifaces w i) of
                  None \<Rightarrow> None
                | Some n \<Rightarrow>
                    Some (out @ print_u (unat (r_address route)) @ ''/'' @ print_u (unat (r_netmask route)) @ '' '' @ n @
                      (if r_via route = CSP_NO_VIA_ADDRESS then CRLF
                       else '' '' @ print_u (unat (r_via route)) @ CRLF)))))"

definition csp_rtable_print :: "('a) csp_rt_scheme \<Rightarrow> string option" where
  "csp_rtable_print w = csp_rtable_iterate (csp_rtable_print_route w) (Some []) w"

section \<open>The interfaces\<close>

abbreviation (input) u05 :: "u32 \<Rightarrow> string" where "u05 x \<equiv> zeros 5 (print_u (unat x))"

definition bytes_text :: "u32 \<Rightarrow> string" where
  "bytes_text b =
     (case csp_bytesize b of (n, postfix) \<Rightarrow> print_u (unat b) @ '' ('' @ print_u (unat n) @ [postfix] @ '')'')"

definition iface_text :: "csp_iface \<Rightarrow> string option" where
  "iface_text f =
     (case name f of
        None \<Rightarrow> None
      | Some n \<Rightarrow> Some
          (spaces 10 n @ '' addr: '' @ print_u (unat (addr f)) @ '' netmask: '' @ print_u (unat (netmask f)) @
             '' dfl: '' @ print_u (unat (is_default f)) @ '' '' @ CRLF @
           ''           tx: '' @ u05 (tx f) @ '' rx: '' @ u05 (rx f) @ '' txe: '' @ u05 (tx_error f) @ '' rxe: '' @ u05 (rx_error f) @
             '' '' @ CRLF @
           ''           drop: '' @ u05 (drop_ctr f) @ '' autherr: '' @ u05 (autherr f) @ '' frame: '' @ u05 (frame f) @ '' '' @ CRLF @
           ''           txb: '' @ bytes_text (txbytes f) @ '' rxb: '' @ bytes_text (rxbytes f) @ '' '' @ CRLF @ CRLF))"

fun iflist_texts :: "('a) csp_ifs_scheme \<Rightarrow> nat list \<Rightarrow> string option" where
  "iflist_texts w [] = Some []"
| "iflist_texts w (i # is) =
     (case iface_text (ifaces w i) of
        None \<Rightarrow> None
      | Some t \<Rightarrow> map_option (\<lambda>ts. t @ ts) (iflist_texts w is))"

definition csp_iflist_print :: "('a) csp_ifs_scheme \<Rightarrow> string option" where
  "csp_iflist_print w = iflist_texts w (interfaces w)"

lemma iflist_texts_total:
  "\<forall>i \<in> set is. name (ifaces w i) \<noteq> None \<Longrightarrow> iflist_texts w is = Some (concat (map (\<lambda>i. the (iface_text (ifaces w i))) is))"
  by (induction "is") (auto simp: iface_text_def)

lemma iflist_print_named:
  "iflist_ok w \<Longrightarrow> csp_iflist_print w = Some (concat (map (\<lambda>i. the (iface_text (ifaces w i))) (interfaces w)))"
  by (simp add: csp_iflist_print_def iflist_texts_total iflist_ok_def named_def)

section \<open>The connections\<close>

definition state_number :: "csp_conn_state \<Rightarrow> nat" where
  "state_number s = (case s of CONN_CLOSED \<Rightarrow> 0 | CONN_OPEN \<Rightarrow> 1)"

text \<open>The part that both texts of a connection have in common.\<close>

definition conn_text :: "(nat \<Rightarrow> string) \<Rightarrow> ('a) csp_cn_scheme \<Rightarrow> nat \<Rightarrow> string" where
  "conn_text ptr w i =
     (let k = conns w i
      in ''['' @ zeros 2 (print_u i) @ '' '' @ ptr i @ ''] S:'' @ print_u (state_number (c_state k)) @
         '', '' @ print_u (unat (src (idin k))) @ '' -> '' @ print_u (unat (dst (idin k))) @
         '', '' @ print_u (unat (dport (idin k))) @ '' -> '' @ print_u (unat (sport (idin k))) @
         '' ('' @ print_u (unat (sport_outgoing k)) @ '')'')"

definition csp_conn_print_table :: "(nat \<Rightarrow> string) \<Rightarrow> ('a) csp_cn_scheme \<Rightarrow> string" where
  "csp_conn_print_table ptr w =
     concat (map (\<lambda>i. conn_text ptr w i @ '' fl '' @ print_x (unat (flags (idin (conns w i)))) @ CRLF) [0..<CSP_CONN_MAX])"

text \<open>
  \<open>strncat\<close>: at most \<open>n\<close> characters go to where the terminating zero of the array was, and a zero behind them.
  A negative \<open>int\<close> as the number is a large \<open>size_t\<close>.
\<close>

definition strncat :: "char list \<Rightarrow> string \<Rightarrow> int \<Rightarrow> char list option" where
  "strncat str_buf buf n =
     (let pos = length (takeWhile (\<lambda>c. c \<noteq> CHR 0x00) str_buf);
          new = (if n < 0 then buf else take (nat n) buf) @ [CHR 0x00]
      in if CHR 0x00 \<in> set str_buf \<and> pos + length new \<le> length str_buf
         then Some (take pos str_buf @ new @ drop (pos + length new) str_buf)
         else None)"

text \<open>\<open>snprintf\<close> leaves at most 99 characters in \<open>buf\<close>; \<open>str_size\<close> is an \<open>int\<close> of 16 bits.\<close>

definition conn_line :: "(nat \<Rightarrow> string) \<Rightarrow> ('a) csp_cn_scheme \<Rightarrow> nat \<Rightarrow> string" where
  "conn_line ptr w i = take 99 (conn_text ptr w i @ [CHR 0x0A])"

fun print_str_loop :: "(nat \<Rightarrow> string) \<Rightarrow> ('a) csp_cn_scheme \<Rightarrow> nat list \<Rightarrow> int \<Rightarrow> char list \<Rightarrow> char list option" where
  "print_str_loop ptr w [] str_size str_buf = Some str_buf"
| "print_str_loop ptr w (i # is) str_size str_buf =
     (let buf = conn_line ptr w i
      in case strncat str_buf buf str_size of
           None \<Rightarrow> None
         | Some str_buf \<Rightarrow>
             let str_size = sint (word_of_int (str_size - int (length buf)) :: u16)
             in if str_size \<le> 0 then Some str_buf else print_str_loop ptr w is str_size str_buf)"

definition csp_conn_print_table_str ::
  "(nat \<Rightarrow> string) \<Rightarrow> char list \<Rightarrow> int \<Rightarrow> ('a) csp_cn_scheme \<Rightarrow> (int \<times> char list) option" where
  "csp_conn_print_table_str ptr str_buf str_size w =
     (let start = (if 10 < CSP_CONN_MAX then CSP_CONN_MAX - 10 else 0)
      in map_option (Pair CSP_ERR_NONE) (print_str_loop ptr w [start..<CSP_CONN_MAX] str_size str_buf))"

section \<open>Reading the routing table back\<close>

definition read_u :: "string \<Rightarrow> nat" where
  "read_u s = foldl (\<lambda>n c. 10 * n + (of_char c - 48)) 0 s"

lemma hex_digit_small:
  assumes "d < 10"
  shows "of_char (hex_digit d) = 48 + d" and "hex_digit d \<in> set ''0123456789''"
proof -
  have "\<forall>d \<in> set [0..<10]. of_char (hex_digit d) = 48 + d \<and> hex_digit d \<in> set ''0123456789''" by code_simp
  then show "of_char (hex_digit d) = 48 + d" "hex_digit d \<in> set ''0123456789''" using assms by auto
qed

lemma read_print_u [simp]: "read_u (print_u n) = n"
proof (induction n rule: print_u.induct)
  case (1 n)
  then show ?case using hex_digit_small(1) [of n] hex_digit_small(1) [of "n mod 10"]
    by (subst print_u.simps) (simp add: read_u_def)
qed

lemma print_u_digits: "set (print_u n) \<subseteq> set ''0123456789''"
proof (induction n rule: print_u.induct)
  case (1 n)
  then show ?case using hex_digit_small(2) [of n] hex_digit_small(2) [of "n mod 10"]
    by (subst print_u.simps) auto
qed

lemma print_u_free: "c \<notin> set ''0123456789'' \<Longrightarrow> c \<notin> set (print_u n)"
  using print_u_digits by blast

text \<open>The lines of a text, and a reader for the line of a route.\<close>

fun lines :: "string \<Rightarrow> string \<Rightarrow> string list" where
  "lines acc [] = []"
| "lines acc (c # cs) = (if c = CHR 0x0A then rev acc # lines [] cs else lines (c # acc) cs)"

lemma lines_line: "CHR 0x0A \<notin> set l \<Longrightarrow> lines acc (l @ CHR 0x0A # s) = (rev acc @ l) # lines [] s"
  by (induction l arbitrary: acc) auto

definition before :: "char \<Rightarrow> string \<Rightarrow> string" where "before c s = takeWhile (\<lambda>d. d \<noteq> c) s"
definition behind :: "char \<Rightarrow> string \<Rightarrow> string" where "behind c s = tl (dropWhile (\<lambda>d. d \<noteq> c) s)"

lemma before_behind [simp]:
  "before c [] = []" "before c (d # s) = (if d = c then [] else d # before c s)" "c \<notin> set l \<Longrightarrow> before c (l @ s) = l @ before c s"
  "behind c (d # s) = (if d = c then s else behind c s)" "c \<notin> set l \<Longrightarrow> behind c (l @ s) = behind c s"
  by (induction l) (auto simp: before_def behind_def)

lemma before_all [simp]: "c \<notin> set l \<Longrightarrow> before c l = l"
  by (induction l) auto

definition read_route :: "string \<Rightarrow> nat \<times> nat \<times> string \<times> nat option" where
  "read_route l =
     (let a = before CHR ''/'' l; r = behind CHR ''/'' l;
          m = before CHR '' '' r; r = before CHR 0x0D (behind CHR '' '' r)
      in (read_u a, read_u m, before CHR '' '' r,
          if CHR '' '' \<in> set r then Some (read_u (behind CHR '' '' r)) else None))"

text \<open>Names that a line can hold.\<close>

definition plain :: "string \<Rightarrow> bool" where
  "plain n \<longleftrightarrow> CHR '' '' \<notin> set n \<and> CHR 0x0D \<notin> set n \<and> CHR 0x0A \<notin> set n"

definition route_row :: "('a) csp_rt_scheme \<Rightarrow> csp_route \<Rightarrow> nat \<times> nat \<times> string \<times> nat option" where
  "route_row w r = (unat (r_address r), unat (r_netmask r), the (name (ifaces w (the (r_iface r)))),
     if r_via r = CSP_NO_VIA_ADDRESS then None else Some (unat (r_via r)))"

lemma print_route_line:
  assumes "r_iface r = Some i" and "name (ifaces w i) = Some n" and "plain n"
  shows "\<exists>l. csp_rtable_print_route w (Some out) r = Some (out @ l @ [CHR 0x0A]) \<and> CHR 0x0A \<notin> set l \<and> read_route l = route_row w r"
proof -
  have f: "CHR ''/'' \<notin> set (print_u x)" "CHR '' '' \<notin> set (print_u x)" "CHR 0x0D \<notin> set (print_u x)" "CHR 0x0A \<notin> set (print_u x)" for x
    by (rule print_u_free, simp)+
  let ?via = "if r_via r = CSP_NO_VIA_ADDRESS then [] else '' '' @ print_u (unat (r_via r))"
  let ?l = "print_u (unat (r_address r)) @ CHR ''/'' # print_u (unat (r_netmask r)) @ CHR '' '' # (n @ ?via) @ [CHR 0x0D]"
  have "read_route ?l = route_row w r"
    using f assms by (simp add: read_route_def route_row_def plain_def Let_def)
  moreover have "csp_rtable_print_route w (Some out) r = Some (out @ ?l @ [CHR 0x0A])"
    using assms(1,2) by (simp add: csp_rtable_print_route_def)
  moreover have "CHR 0x0A \<notin> set ?l" using f assms(3) by (simp add: plain_def)
  ultimately show ?thesis by blast
qed

lemma print_routes:
  assumes "\<And>r. r \<in> set rs \<Longrightarrow> \<exists>i n. r_iface r = Some i \<and> name (ifaces w i) = Some n \<and> plain n"
  shows "\<exists>t. foldl (csp_rtable_print_route w) (Some out) rs = Some (out @ t) \<and> map read_route (lines [] t) = map (route_row w) rs"
  using assms
proof (induction rs arbitrary: out)
  case (Cons r rs)
  obtain l where l: "csp_rtable_print_route w (Some out) r = Some (out @ l @ [CHR 0x0A])" "CHR 0x0A \<notin> set l" "read_route l = route_row w r"
    using Cons.prems [of r] print_route_line [of r _ w] by (metis list.set_intros(1))
  obtain t where "foldl (csp_rtable_print_route w) (Some (out @ l @ [CHR 0x0A])) rs = Some ((out @ l @ [CHR 0x0A]) @ t)"
      "map read_route (lines [] t) = map (route_row w) rs"
    using Cons.IH [of "out @ l @ [CHR 0x0A]"] Cons.prems by auto
  then show ?case using l by (intro exI [of _ "l @ CHR 0x0A # t"]) (simp add: lines_line)
qed simp

text \<open>
  The printed routing table is the routing table: when every entry in use has an interface whose name has
  no blank or line end, it is printed without a NULL pointer, and from its lines every entry can be
  read back, in order and nothing else, with address, netmask, name and via address.
\<close>

theorem rtable_print_readable:
  assumes "routes_ok w" and "\<And>r i. r < rtable_inptr w \<Longrightarrow> r_iface (rtable w ! r) = Some i \<Longrightarrow> \<exists>n. name (ifaces w i) = Some n \<and> plain n"
  shows "\<exists>t. csp_rtable_print w = Some t \<and> map read_route (lines [] t) = map (route_row w) (take (rtable_inptr w) (rtable w))"
proof -
  let ?rs = "take (rtable_inptr w) (rtable w)"
  have "\<exists>i n. r_iface r = Some i \<and> name (ifaces w i) = Some n \<and> plain n" if r: "r \<in> set ?rs" for r
  proof -
    obtain j where "j < rtable_inptr w" "r = rtable w ! j"
      using r by (auto simp: in_set_conv_nth)
    then show ?thesis using assms by (fastforce simp: routes_ok_def)
  qed
  from print_routes [of ?rs w "[]", OF this] show ?thesis by (simp add: csp_rtable_print_def csp_rtable_iterate_def)
qed

definition ex_table :: csp_rt where
  "ex_table = csp_ifs.extend ex_ifs3 \<lparr>rtable = replicate 4 \<lparr>r_address = 16, r_netmask = 10, r_via = 21, r_iface = Some 1\<rparr>, rtable_inptr = 1\<rparr>"

theorem rtable_print_readable_witness:
  "\<exists>t. csp_rtable_print ex_table = Some t \<and> map read_route (lines [] t) = [(16, 10, ''KISS'', Some 21)]"
proof -
  note facts = ex_table_def csp_ifs.defs ex_ifs3_def ex_ifs_def csp_bufs.defs ex_ifaces_def
  have "routes_ok ex_table" by (simp add: facts routes_ok_def nth_replicate)
  moreover have "\<exists>n. name (ifaces ex_table i) = Some n \<and> plain n" if "r < rtable_inptr ex_table" "r_iface (rtable ex_table ! r) = Some i" for r i
    using that by (simp add: facts plain_def)
  ultimately show ?thesis using rtable_print_readable [of ex_table] by (simp add: facts route_row_def)
qed

section \<open>The buffer of the connection table\<close>

text \<open>
  \<^bold>\<open>Claim C39.\<close> The connection table as a string: into an array that holds the empty string, with its size given
  as \<open>str_size\<close>, the table is written with its terminating zero when it is shorter than the array. When it is
  not, \<open>strncat\<close> writes out of the array: its bound does not count the zero.
\<close>

theorem conn_table_bound:
  assumes "0 < length str_buf" and "str_buf ! 0 = CHR 0x00"
  shows "csp_conn_print_table_str ptr str_buf (int (length str_buf)) w =
     (let line = conn_line ptr w 0
      in if length line < length str_buf
         then Some (CSP_ERR_NONE, line @ [CHR 0x00] @ drop (length line + 1) str_buf) else None)"
proof -
  obtain s where s: "str_buf = CHR 0x00 # s" using assms by (cases str_buf) auto
  have "strncat str_buf b (int (length str_buf)) =
      (if length b < length str_buf then Some (b @ [CHR 0x00] @ drop (length b + 1) str_buf) else None)" for b
    by (simp add: strncat_def s nat_add_distrib)
  then show ?thesis by (simp add: csp_conn_print_table_str_def Let_def)
qed

theorem conn_table_bound_witness:
  "csp_conn_print_table_str (\<lambda>i. ''0x1c00'') [CHR 0x00, CHR 0x00] 2 ex_cn = None"
  using conn_table_bound [of "[CHR 0x00, CHR 0x00]" "\<lambda>i. ''0x1c00''" ex_cn] by (simp add: conn_line_def conn_text_def Let_def zeros_def)

end
