(* ===== verification/Service.thy ===== *)
theory Service
  imports Route
begin

text \<open>
  The service handler and the management protocol (\<open>src/csp_service_handler.c\<close>, \<open>csp/csp_cmp.h\<close>), called by
  an application, or bound to the service ports, with a packet addressed to the node. What the application
  provides is the record \<open>hooks\<close>: the functions of \<open>csp/csp_hooks.h\<close>, the build date and time, and the copy
  function that peek and poke use. No length of a request is checked by the code, and none here: bytes beyond
  the payload are read from the packet's memory as they are. \<open>None\<close> is undefined behaviour.
\<close>

section \<open>What the application provides\<close>

record 'w hooks =
  build_date :: string
  build_time :: string
  csp_ps_hook :: "csp_packet \<Rightarrow> c_uint \<times> csp_packet"
  csp_memfree_hook :: "'w \<Rightarrow> u32"
  csp_reboot_hook :: "'w \<Rightarrow> 'w"
  csp_shutdown_hook :: "'w \<Rightarrow> 'w"
  csp_clock_set_time :: "u32 \<times> u32 \<Rightarrow> 'w \<Rightarrow> int \<times> 'w"
  csp_clock_get_time :: "'w \<Rightarrow> u32 \<times> u32"
  cmp_read :: "u32 \<Rightarrow> nat \<Rightarrow> 'w \<Rightarrow> u8 list"
  cmp_write :: "u32 \<Rightarrow> u8 list \<Rightarrow> 'w \<Rightarrow> 'w"

text \<open>The copy function is one pointer in the code; a copy out of and one into the node's memory are its two uses.\<close>

definition csp_cmp_set_memcpy ::
  "(u32 \<Rightarrow> nat \<Rightarrow> 'w \<Rightarrow> u8 list) \<times> (u32 \<Rightarrow> u8 list \<Rightarrow> 'w \<Rightarrow> 'w) \<Rightarrow> 'w hooks \<Rightarrow> 'w hooks" where
  "csp_cmp_set_memcpy fnc h = h\<lparr>cmp_read := fst fnc, cmp_write := snd fnc\<rparr>"

section \<open>The management message in a packet\<close>

abbreviation (input) CSP_CMP_REQUEST :: u8 where "CSP_CMP_REQUEST \<equiv> 0"
abbreviation (input) CSP_CMP_REPLY :: u8 where "CSP_CMP_REPLY \<equiv> 0xff"
abbreviation (input) CSP_CMP_IDENT :: u8 where "CSP_CMP_IDENT \<equiv> 1"
abbreviation (input) CSP_CMP_ROUTE_SET_V1 :: u8 where "CSP_CMP_ROUTE_SET_V1 \<equiv> 2"
abbreviation (input) CSP_CMP_IF_STATS :: u8 where "CSP_CMP_IF_STATS \<equiv> 3"
abbreviation (input) CSP_CMP_PEEK :: u8 where "CSP_CMP_PEEK \<equiv> 4"
abbreviation (input) CSP_CMP_POKE :: u8 where "CSP_CMP_POKE \<equiv> 5"
abbreviation (input) CSP_CMP_CLOCK :: u8 where "CSP_CMP_CLOCK \<equiv> 6"
abbreviation (input) CSP_CMP_ROUTE_SET_V2 :: u8 where "CSP_CMP_ROUTE_SET_V2 \<equiv> 7"
abbreviation (input) CSP_CMP_IDENT_REV_LEN :: nat where "CSP_CMP_IDENT_REV_LEN \<equiv> 20"
abbreviation (input) CSP_CMP_IDENT_DATE_LEN :: nat where "CSP_CMP_IDENT_DATE_LEN \<equiv> 12"
abbreviation (input) CSP_CMP_IDENT_TIME_LEN :: nat where "CSP_CMP_IDENT_TIME_LEN \<equiv> 9"
abbreviation (input) CSP_CMP_ROUTE_IFACE_LEN :: nat where "CSP_CMP_ROUTE_IFACE_LEN \<equiv> 11"
abbreviation (input) CSP_CMP_PEEK_MAX_LEN :: nat where "CSP_CMP_PEEK_MAX_LEN \<equiv> 200"
abbreviation (input) CSP_CMP_POKE_MAX_LEN :: nat where "CSP_CMP_POKE_MAX_LEN \<equiv> 200"
abbreviation (input) CSP_HOSTNAME_LEN :: nat where "CSP_HOSTNAME_LEN \<equiv> 20"
abbreviation (input) CSP_MODEL_LEN :: nat where "CSP_MODEL_LEN \<equiv> 30"

text \<open>
  \<open>struct csp_cmp_message\<close> is packed and lies over the packet's data: type, code, then a union, whose members
  are laid out one after the other. Each field has an offset in the packet's data and a size; \<open>Stats_tx\<close> stands
  for the ten counters from \<open>tx\<close> to \<open>irq\<close>, \<open>Mem\<close> for both \<open>peek\<close> and \<open>poke\<close>.
\<close>

datatype cmp_field = Msg_type | Msg_code
  | Ident_hostname | Ident_model | Ident_revision | Ident_date | Ident_time
  | V1_dest_node | V1_next_hop_via | V1_interface
  | V2_dest_node | V2_next_hop_via | V2_netmask | V2_interface
  | Stats_interface | Stats_tx
  | Mem_addr | Mem_len | Mem_data
  | Clock_tv_sec | Clock_tv_nsec

fun cmp_layout :: "cmp_field \<Rightarrow> nat \<times> nat" where
  "cmp_layout Msg_type = (0, 1)"
| "cmp_layout Msg_code = (1, 1)"
| "cmp_layout Ident_hostname = (2, CSP_HOSTNAME_LEN)"
| "cmp_layout Ident_model = (22, CSP_MODEL_LEN)"
| "cmp_layout Ident_revision = (52, CSP_CMP_IDENT_REV_LEN)"
| "cmp_layout Ident_date = (72, CSP_CMP_IDENT_DATE_LEN)"
| "cmp_layout Ident_time = (84, CSP_CMP_IDENT_TIME_LEN)"
| "cmp_layout V1_dest_node = (2, 1)"
| "cmp_layout V1_next_hop_via = (3, 1)"
| "cmp_layout V1_interface = (4, CSP_CMP_ROUTE_IFACE_LEN)"
| "cmp_layout V2_dest_node = (2, 2)"
| "cmp_layout V2_next_hop_via = (4, 2)"
| "cmp_layout V2_netmask = (6, 2)"
| "cmp_layout V2_interface = (8, CSP_CMP_ROUTE_IFACE_LEN)"
| "cmp_layout Stats_interface = (2, CSP_CMP_ROUTE_IFACE_LEN)"
| "cmp_layout Stats_tx = (13, 40)"
| "cmp_layout Mem_addr = (2, 4)"
| "cmp_layout Mem_len = (6, 1)"
| "cmp_layout Mem_data = (7, CSP_CMP_PEEK_MAX_LEN)"
| "cmp_layout Clock_tv_sec = (2, 4)"
| "cmp_layout Clock_tv_nsec = (6, 4)"

definition data_get :: "nat \<Rightarrow> nat \<Rightarrow> csp_packet \<Rightarrow> u8 list" where
  "data_get off n p = mem_read (area p) (DATA_OFF + off) n"

abbreviation cmp_get :: "cmp_field \<Rightarrow> csp_packet \<Rightarrow> u8 list" where
  "cmp_get f p \<equiv> data_get (fst (cmp_layout f)) (snd (cmp_layout f)) p"

abbreviation cmp_put :: "cmp_field \<Rightarrow> u8 list \<Rightarrow> csp_packet \<Rightarrow> csp_packet" where
  "cmp_put f bs p \<equiv> data_put (fst (cmp_layout f)) bs p"

definition cmp_type :: "csp_packet \<Rightarrow> u8" where "cmp_type p = hd (cmp_get Msg_type p)"
definition cmp_code :: "csp_packet \<Rightarrow> u8" where "cmp_code p = hd (cmp_get Msg_code p)"

text \<open>
  \<open>CMP_SIZE\<close> of the members whose replies have a fixed length, by the code of the request; \<open>route_set_v2\<close> is
  padded to an even size.
\<close>

definition CMP_SIZE :: "u8 \<Rightarrow> nat" where
  "CMP_SIZE code = 2 + (if code = CSP_CMP_IDENT then 91 else if code = CSP_CMP_ROUTE_SET_V1 then 13 else if code = CSP_CMP_ROUTE_SET_V2 then 18 else 51)"

definition set_length :: "nat \<Rightarrow> csp_packet \<Rightarrow> csp_packet" where
  "set_length n p = p\<lparr>p_length := of_nat n\<rparr>"

text \<open>A C string in a byte array, and \<open>strncpy\<close> into an array of \<open>n\<close> bytes, of which the code makes the last one 0.\<close>

definition c_string :: "u8 list \<Rightarrow> string" where
  "c_string bs = map (\<lambda>b. char_of (unat b)) (takeWhile (\<lambda>b. b \<noteq> 0) bs)"

definition string_field :: "nat \<Rightarrow> string \<Rightarrow> u8 list" where
  "string_field n s = (take n (map (\<lambda>c. of_nat (of_char c)) s @ replicate n 0))[n - 1 := 0]"

section \<open>Management requests\<close>

definition do_cmp_ident :: "('a) csp_cn_scheme hooks \<Rightarrow> nat \<Rightarrow> ('a) csp_cn_scheme \<Rightarrow> int \<times> ('a) csp_cn_scheme" where
  "do_cmp_ident h packet w =
     (let k = cmp_put Ident_revision (string_field CSP_CMP_IDENT_REV_LEN (revision (csp_conf w))) (pkt w packet);
          k = cmp_put Ident_date (string_field CSP_CMP_IDENT_DATE_LEN (build_date h)) k;
          k = cmp_put Ident_time (string_field CSP_CMP_IDENT_TIME_LEN (build_time h)) k;
          k = cmp_put Ident_hostname (string_field CSP_HOSTNAME_LEN (hostname (csp_conf w))) k;
          k = cmp_put Ident_model (string_field CSP_MODEL_LEN (model (csp_conf w))) k
      in (CSP_ERR_NONE, set_pkt packet k w))"

definition do_cmp_route_set_v1 :: "nat \<Rightarrow> ('a) csp_cn_scheme \<Rightarrow> (int \<times> ('a) csp_cn_scheme) option" where
  "do_cmp_route_set_v1 packet w =
     (let k = pkt w packet in
      case csp_iflist_get_by_name w (c_string (cmp_get V1_interface k)) of
        None \<Rightarrow> Some (CSP_ERR_INVAL, w)
      | Some ifc \<Rightarrow>
          (case csp_rtable_set (ucast (hd (cmp_get V1_dest_node k))) (uint (csp_id_get_host_bits (version (csp_conf w)))) (Some ifc)
                  (ucast (hd (cmp_get V1_next_hop_via k))) w of
             None \<Rightarrow> None
           | Some (r, w) \<Rightarrow> Some (if r \<noteq> CSP_ERR_NONE then CSP_ERR_INVAL else CSP_ERR_NONE, w)))"

text \<open>The netmask is passed as a 16-bit \<open>int\<close>.\<close>

definition do_cmp_route_set_v2 :: "nat \<Rightarrow> ('a) csp_cn_scheme \<Rightarrow> (int \<times> ('a) csp_cn_scheme) option" where
  "do_cmp_route_set_v2 packet w =
     (let k = pkt w packet in
      case csp_iflist_get_by_name w (c_string (cmp_get V2_interface k)) of
        None \<Rightarrow> Some (CSP_ERR_INVAL, w)
      | Some ifc \<Rightarrow>
          (case csp_rtable_set (be_value (cmp_get V2_dest_node k)) (sint (be_value (cmp_get V2_netmask k) :: u16)) (Some ifc)
                  (be_value (cmp_get V2_next_hop_via k)) w of
             None \<Rightarrow> None
           | Some (r, w) \<Rightarrow> Some (if r \<noteq> CSP_ERR_NONE then CSP_ERR_INVAL else CSP_ERR_NONE, w)))"

definition do_cmp_if_stats :: "nat \<Rightarrow> ('a) csp_cn_scheme \<Rightarrow> int \<times> ('a) csp_cn_scheme" where
  "do_cmp_if_stats packet w =
     (case csp_iflist_get_by_name w (c_string (cmp_get Stats_interface (pkt w packet))) of
        None \<Rightarrow> (CSP_ERR_INVAL, w)
      | Some ifc \<Rightarrow>
          let f = ifaces w ifc;
              stats = [tx f, rx f, tx_error f, rx_error f, drop_ctr f, autherr f, frame f, txbytes f, rxbytes f, irq f]
          in (CSP_ERR_NONE, set_pkt packet (cmp_put Stats_tx (concat (map (be_bytes 4) stats)) (pkt w packet)) w))"

text \<open>The address is converted in place; the host is little endian.\<close>

definition cmp_address :: "csp_packet \<Rightarrow> u32 \<times> csp_packet" where
  "cmp_address k = (let a = be_value (cmp_get Mem_addr k) in (a, cmp_put Mem_addr (le_bytes 4 a) k))"

definition do_cmp_peek :: "('a) csp_cn_scheme hooks \<Rightarrow> nat \<Rightarrow> ('a) csp_cn_scheme \<Rightarrow> int \<times> ('a) csp_cn_scheme" where
  "do_cmp_peek h packet w =
     (case cmp_address (pkt w packet) of
        (a, k) \<Rightarrow>
          let w = set_pkt packet k w; len = unat (hd (cmp_get Mem_len k))
          in if CSP_CMP_PEEK_MAX_LEN < len then (CSP_ERR_INVAL, w)
             else (CSP_ERR_NONE, set_pkt packet (cmp_put Mem_data (cmp_read h a len w) k) w))"

definition do_cmp_poke :: "('a) csp_cn_scheme hooks \<Rightarrow> nat \<Rightarrow> ('a) csp_cn_scheme \<Rightarrow> int \<times> ('a) csp_cn_scheme" where
  "do_cmp_poke h packet w =
     (case cmp_address (pkt w packet) of
        (a, k) \<Rightarrow>
          let w = set_pkt packet k w; len = unat (hd (cmp_get Mem_len k))
          in if CSP_CMP_POKE_MAX_LEN < len then (CSP_ERR_INVAL, w)
             else (CSP_ERR_NONE, cmp_write h a (data_get (fst (cmp_layout Mem_data)) len k) w))"

definition do_cmp_clock :: "('a) csp_cn_scheme hooks \<Rightarrow> nat \<Rightarrow> ('a) csp_cn_scheme \<Rightarrow> int \<times> ('a) csp_cn_scheme" where
  "do_cmp_clock h packet w =
     (let sec = be_value (cmp_get Clock_tv_sec (pkt w packet));
          nsec = be_value (cmp_get Clock_tv_nsec (pkt w packet));
          (res, w) = (if sec \<noteq> 0
                      then case csp_clock_set_time h (sec, nsec) w of
                             (r, w) \<Rightarrow> (r, if r \<noteq> CSP_ERR_NONE then set_errno CSP_DBG_ERR_CLOCK_SET_FAIL w else w)
                      else (CSP_ERR_NONE, w));
          clock = csp_clock_get_time h w
      in (res, set_pkt packet (cmp_put Clock_tv_sec (be_bytes 4 (fst clock) @ be_bytes 4 (snd clock)) (pkt w packet)) w))"

text \<open>The reply length is set for some requests whether they succeeded or not.\<close>

definition csp_cmp_handler ::
  "('a) csp_cn_scheme hooks \<Rightarrow> nat \<Rightarrow> ('a) csp_cn_scheme \<Rightarrow> (int \<times> ('a) csp_cn_scheme) option" where
  "csp_cmp_handler h packet w =
     (if cmp_type (pkt w packet) \<noteq> CSP_CMP_REQUEST then Some (CSP_ERR_INVAL, w)
      else
        let code = cmp_code (pkt w packet);
            sized = (\<lambda>(r, w). (r :: int, set_pkt packet (set_length (CMP_SIZE code) (pkt w packet)) w))
        in case (if code = CSP_CMP_IDENT then Some (sized (do_cmp_ident h packet w))
                 else if code = CSP_CMP_ROUTE_SET_V1 then map_option (sized) (do_cmp_route_set_v1 packet w)
                 else if code = CSP_CMP_ROUTE_SET_V2 then map_option (sized) (do_cmp_route_set_v2 packet w)
                 else if code = CSP_CMP_IF_STATS then Some (sized (do_cmp_if_stats packet w))
                 else if code = CSP_CMP_PEEK then Some (do_cmp_peek h packet w)
                 else if code = CSP_CMP_POKE then Some (do_cmp_poke h packet w)
                 else if code = CSP_CMP_CLOCK then Some (do_cmp_clock h packet w)
                 else Some (CSP_ERR_INVAL, w)) of
             None \<Rightarrow> None
           | Some (r, w) \<Rightarrow> Some (r, set_pkt packet (cmp_put Msg_type [CSP_CMP_REPLY] (pkt w packet)) w))"

section \<open>The service handler\<close>

definition answer_u32 :: "nat \<Rightarrow> u32 \<Rightarrow> ('a) csp_cn_scheme \<Rightarrow> ('a) csp_cn_scheme" where
  "answer_u32 packet x w = set_pkt packet (set_length 4 (data_put 0 (be_bytes 4 x) (pkt w packet))) w"

abbreviation (input) CSP_REBOOT_MAGIC :: u32 where "CSP_REBOOT_MAGIC \<equiv> 0x80078007"
abbreviation (input) CSP_REBOOT_SHUTDOWN_MAGIC :: u32 where "CSP_REBOOT_SHUTDOWN_MAGIC \<equiv> 0xd1e5529a"

text \<open>
  A process list of length 0 frees the packet and goes on to reply with it, as the code does.
\<close>

definition csp_service_handler ::
  "('a) driver \<Rightarrow> ('a) csp_cn_scheme hooks \<Rightarrow> nat \<Rightarrow> ('a) csp_cn_scheme \<Rightarrow> ('a) csp_cn_scheme option" where
  "csp_service_handler drv h packet w =
     (let port = dport (p_id (pkt w packet));
          reply = csp_sendto_reply drv (Some packet) packet CSP_O_SAME
      in if port = CSP_CMP then
           (case csp_cmp_handler h packet w of
              None \<Rightarrow> None
            | Some (r, w) \<Rightarrow> if r \<noteq> CSP_ERR_NONE then Some (csp_buffer_free (Some packet) w) else reply w)
         else if port = CSP_PING then reply w
         else if port = CSP_PS then
           (case csp_ps_hook h (pkt w packet) of
              (n, k) \<Rightarrow>
                let w = set_pkt packet (k\<lparr>p_length := n\<rparr>) w;
                    w = (if n = 0 then csp_buffer_free (Some packet) w else w)
                in reply w)
         else if port = CSP_MEMFREE then reply (answer_u32 packet (csp_memfree_hook h w) w)
         else if port = CSP_REBOOT then
           let magic = be_value (data_get 0 4 (pkt w packet));
               w = (if magic = CSP_REBOOT_MAGIC then csp_reboot_hook h w
                    else if magic = CSP_REBOOT_SHUTDOWN_MAGIC then csp_shutdown_hook h w else w)
           in Some (csp_buffer_free (Some packet) w)
         else if port = CSP_BUF_FREE then reply (answer_u32 packet (of_nat (csp_buffer_remaining w)) w)
         else if port = CSP_UPTIME then reply (answer_u32 packet (csp_get_s w) w)
         else Some (csp_buffer_free (Some packet) w))"

end
