(* ===== verification/Service_Own.thy ===== *)
theory Service_Own
  imports Service Delivery
begin

text \<open>
  The service handler keeps the invariant of the node and consumes the request, whatever the request holds,
  when the application's hooks keep their contract, the locale \<open>service_hooks\<close>.
\<close>

section \<open>The memory of the request\<close>

lemma data_get_length: "packet_ok k \<Longrightarrow> off + n \<le> CSP_BUFFER_SIZE \<Longrightarrow> length (data_get off n k) = n"
  by (simp add: data_get_def packet_ok_def)

lemma data_put_fields [simp]: "p_id (data_put off bs k) = p_id k" "p_length (data_put off bs k) = p_length k"
  by (simp_all add: data_put_def)

lemma data_get_put_before: "packet_ok k \<Longrightarrow> o1 + n \<le> off \<Longrightarrow> off \<le> CSP_BUFFER_SIZE \<Longrightarrow> data_get o1 n (data_put off bs k) = data_get o1 n k"
  by (simp add: data_get_def data_put_def packet_ok_def mem_read_put_before)

lemma data_get_put_after:
  "packet_ok k \<Longrightarrow> off + length bs \<le> o1 \<Longrightarrow> off + length bs \<le> CSP_BUFFER_SIZE \<Longrightarrow> data_get o1 n (data_put off bs k) = data_get o1 n k"
  by (simp add: data_get_def data_put_def packet_ok_def mem_read_put_after)

lemma data_get_put_same: "packet_ok k \<Longrightarrow> off + length bs \<le> CSP_BUFFER_SIZE \<Longrightarrow> data_get off (length bs) (data_put off bs k) = bs"
  by (simp add: data_get_def data_put_def packet_ok_def mem_read_put_same)

lemma length_string_field [simp]: "length (string_field n s) = n"
  by (simp add: string_field_def)

lemma packet_ok_set_length: "packet_ok k \<Longrightarrow> n \<le> CSP_BUFFER_SIZE \<Longrightarrow> packet_ok (set_length n k)"
  by (simp add: packet_ok_def set_length_def unat_of_nat)

lemma sys_put:
  assumes "sys_ok (add_mset p X) w" and "off + length bs \<le> CSP_BUFFER_SIZE"
  shows "sys_ok (add_mset p X) (set_pkt p (data_put off bs (pkt w p)) w)"
  using assms by (intro sys_set_own_pkt) (simp_all add: data_put_ok)

lemma sys_length:
  assumes "sys_ok (add_mset p X) w" and "n \<le> CSP_BUFFER_SIZE"
  shows "sys_ok (add_mset p X) (set_pkt p (set_length n (pkt w p)) w)"
  using assms by (intro sys_set_own_pkt) (simp_all add: packet_ok_set_length)

section \<open>Setting a route\<close>

lemma own_inv_rtable [frame_simps]:
  "own_inv X (w\<lparr>rtable := r\<rparr>) = own_inv X w" "own_inv X (w\<lparr>rtable_inptr := n\<rparr>) = own_inv X w"
  by (simp_all add: own_inv_def held_def qf_refs_def qf_items_def pm_refs_def so_refs_def queues_ok_def qf_ok_def
      qf_entries_ok_def bufs_inv_def free_list_def pkt_def)

lemma net_ok_rtable:
  "net_ok w \<Longrightarrow> routes_ok (w\<lparr>rtable := r, rtable_inptr := n\<rparr>) \<Longrightarrow> net_ok (w\<lparr>rtable := r, rtable_inptr := n\<rparr>)"
  by (simp add: net_ok_def ports_ok_def dedup_ok_def conns_ok_def conn_ok_def socks_ok_def conn_less_def)

lemma find_exact_less: "csp_rtable_find_exact w a m ifc = Some e \<Longrightarrow> e < rtable_inptr w"
proof -
  assume "csp_rtable_find_exact w a m ifc = Some e"
  then obtain us r vs where "take (rtable_inptr w) (rtable w) = us @ r # vs" "e = length us"
    using find_exact_loop_Some [of a m ifc "take (rtable_inptr w) (rtable w)" 0 e] by (auto simp: csp_rtable_find_exact_def)
  then have "e < length (take (rtable_inptr w) (rtable w))" by simp
  then show ?thesis by simp
qed

lemma rtable_set_cases:
  assumes s: "sys_ok X w"
  shows "csp_rtable_set a m (Some i) via w = None \<and> rtable_inptr w = CSP_RTABLE_SIZE \<or>
     (\<exists>w'. csp_rtable_set a m (Some i) via w = Some (CSP_ERR_NONE, w') \<and> sys_ok X w' \<and> pkt w' = pkt w)"
proof -
  define mm :: u16 where "mm = word_of_int (if m < 0 \<or> uint (csp_id_get_host_bits (version (csp_conf w))) < m
      then uint (csp_id_get_host_bits (version (csp_conf w))) else m)"
  have set: "csp_rtable_set a m (Some i) via w = csp_rtable_set_internal a mm (Some i) via w"
    by (simp add: csp_rtable_set_def Let_def mm_def)
  let ?r = "\<lparr>r_address = a, r_netmask = mm, r_via = via, r_iface = Some i\<rparr>"
  have r: "routes_ok w" using s by (simp add: sys_ok_def net_ok_def)
  have upd: "sys_ok X (w\<lparr>rtable := (rtable w)[e := ?r], rtable_inptr := n\<rparr>)"
    if "n \<le> CSP_RTABLE_SIZE" "e < n" "\<And>r. r < n \<Longrightarrow> r \<noteq> e \<Longrightarrow> r < rtable_inptr w" for e n
  proof -
    have "routes_ok (w\<lparr>rtable := (rtable w)[e := ?r], rtable_inptr := n\<rparr>)"
      using r that by (auto simp: routes_ok_def nth_list_update)
    then show ?thesis using s net_ok_rtable [of w] by (simp add: sys_ok_def frame_simps)
  qed
  have c: "w\<lparr>rtable_inptr := n, rtable := t\<rparr> = w\<lparr>rtable := t, rtable_inptr := n\<rparr>" for n t by simp
  have k: "pkt (w\<lparr>rtable := t, rtable_inptr := n\<rparr>) = pkt w" "pkt (w\<lparr>rtable := t\<rparr>) = pkt w" for t n
    by (simp_all add: pkt_def fun_eq_iff)
  show ?thesis
  proof (cases "csp_rtable_find_exact w a mm (Some i)")
    case (Some e)
    have "e < rtable_inptr w" by (rule find_exact_less [OF Some])
    then show ?thesis using upd [of "rtable_inptr w" e] r Some k
      by (simp add: set csp_rtable_set_internal_def Let_def routes_ok_def)
  next
    case None
    show ?thesis
    proof (cases "rtable_inptr w < CSP_RTABLE_SIZE")
      case True
      then show ?thesis using upd [of "rtable_inptr w + 1" "rtable_inptr w"] None k
        by (simp add: set csp_rtable_set_internal_def Let_def c)
    next
      case False
      then show ?thesis using None r by (simp add: set csp_rtable_set_internal_def Let_def routes_ok_def)
    qed
  qed
qed

section \<open>The contract of the hooks\<close>

text \<open>
  The hooks leave the library's data alone; the process list is not empty and fits into the packet; reading
  the node's memory gives as many bytes as asked for. \<open>cmp_write\<close> is the copy function that poke uses: the
  contract asks that it does not overwrite the library.
\<close>

locale service_hooks =
  fixes h :: "('a) csp_cn_scheme hooks"
  assumes ps_ok: "packet_ok k \<Longrightarrow> csp_ps_hook h k = (n, k') \<Longrightarrow> packet_ok (k'\<lparr>p_length := n\<rparr>) \<and> n \<noteq> 0"
    and reboot_ok: "sys_ok X w \<Longrightarrow> sys_ok X (csp_reboot_hook h w)"
    and shutdown_ok: "sys_ok X w \<Longrightarrow> sys_ok X (csp_shutdown_hook h w)"
    and clock_ok: "sys_ok X w \<Longrightarrow> csp_clock_set_time h t w = (r, w') \<Longrightarrow> sys_ok X w'"
    and read_ok: "length (cmp_read h a l w) = l"
    and write_ok: "sys_ok X w \<Longrightarrow> sys_ok X (cmp_write h a bs w)"

text \<open>A request to set a route finds room for it.\<close>

definition route_fits :: "nat \<Rightarrow> ('a) csp_cn_scheme \<Rightarrow> bool" where
  "route_fits p w \<longleftrightarrow> dport (p_id (pkt w p)) = 0 \<and> cmp_code (pkt w p) \<in> {2, 7} \<longrightarrow> rtable_inptr w < CSP_RTABLE_SIZE"

text \<open>A step of the handler that is left with the request.\<close>

definition keeps :: "nat \<Rightarrow> nat multiset \<Rightarrow> int \<times> ('a) csp_cn_scheme \<Rightarrow> bool" where
  "keeps p X rw \<longleftrightarrow> sys_ok (add_mset p X) (snd rw)"

lemma route_set_keeps:
  assumes "sys_ok (add_mset p X) w" and "rtable_inptr w < CSP_RTABLE_SIZE"
  shows "\<exists>rw. do_cmp_route_set_v1 p w = Some rw \<and> keeps p X rw" and "\<exists>rw. do_cmp_route_set_v2 p w = Some rw \<and> keeps p X rw"
proof -
  have R: "\<exists>w'. csp_rtable_set a m (Some i) via w = Some (CSP_ERR_NONE, w') \<and> sys_ok (add_mset p X) w' \<and> pkt w' = pkt w" for a m i via
    using rtable_set_cases [OF assms(1)] assms(2) by fastforce
  show "\<exists>rw. do_cmp_route_set_v1 p w = Some rw \<and> keeps p X rw"
  proof (cases "csp_iflist_get_by_name w (c_string (cmp_get V1_interface (pkt w p)))")
    case (Some i)
    then show ?thesis
      using R [of "ucast (hd (cmp_get V1_dest_node (pkt w p)))" "uint (csp_id_get_host_bits (version (csp_conf w)))" i
          "ucast (hd (cmp_get V1_next_hop_via (pkt w p)))"]
      by (auto simp: do_cmp_route_set_v1_def keeps_def Let_def)
  qed (use assms(1) in \<open>simp add: do_cmp_route_set_v1_def keeps_def Let_def\<close>)
  show "\<exists>rw. do_cmp_route_set_v2 p w = Some rw \<and> keeps p X rw"
  proof (cases "csp_iflist_get_by_name w (c_string (cmp_get V2_interface (pkt w p)))")
    case (Some i)
    then show ?thesis
      using R [of "be_value (cmp_get V2_dest_node (pkt w p))" "sint (be_value (cmp_get V2_netmask (pkt w p)) :: u16)" i
          "be_value (cmp_get V2_next_hop_via (pkt w p))"]
      by (auto simp: do_cmp_route_set_v2_def keeps_def Let_def)
  qed (use assms(1) in \<open>simp add: do_cmp_route_set_v2_def keeps_def Let_def\<close>)
qed

lemma ident_keeps: "sys_ok (add_mset p X) w \<Longrightarrow> keeps p X (do_cmp_ident h p w)"
  by (simp add: do_cmp_ident_def Let_def keeps_def sys_set_own_pkt data_put_ok)

lemma if_stats_keeps: "sys_ok (add_mset p X) w \<Longrightarrow> keeps p X (do_cmp_if_stats p w)"
  by (simp add: do_cmp_if_stats_def Let_def keeps_def sys_put split: option.split)

lemma cmp_address_ok: "packet_ok k \<Longrightarrow> packet_ok (snd (cmp_address k))"
  by (simp add: cmp_address_def Let_def data_put_ok)

context service_hooks
begin

lemma peek_keeps: "sys_ok (add_mset p X) w \<Longrightarrow> keeps p X (do_cmp_peek h p w)"
proof -
  assume s: "sys_ok (add_mset p X) w"
  obtain a k where k: "cmp_address (pkt w p) = (a, k)" by fastforce
  have ok: "packet_ok k" using cmp_address_ok [of "pkt w p"] sys_packet [OF s, of p] k by simp
  have s1: "sys_ok (add_mset p X) (set_pkt p k w)" using s ok by (simp add: sys_set_pkt)
  let ?n = "unat (hd (cmp_get Mem_len k))"
  have "sys_ok (add_mset p X) (set_pkt p (data_put 7 (cmp_read h a ?n (set_pkt p k w)) k) (set_pkt p k w))" if "?n \<le> 200"
    by (rule sys_set_pkt [OF s1 data_put_ok [OF ok]]) (use that in \<open>simp add: read_ok\<close>)
  then show ?thesis using s1 by (simp add: do_cmp_peek_def k Let_def keeps_def)
qed

lemma poke_keeps: "sys_ok (add_mset p X) w \<Longrightarrow> keeps p X (do_cmp_poke h p w)"
proof -
  assume s: "sys_ok (add_mset p X) w"
  obtain a k where k: "cmp_address (pkt w p) = (a, k)" by fastforce
  have "packet_ok k" using cmp_address_ok [of "pkt w p"] sys_packet [OF s, of p] k by simp
  then have "sys_ok (add_mset p X) (set_pkt p k w)" using s by (simp add: sys_set_pkt)
  then show ?thesis by (simp add: do_cmp_poke_def k Let_def keeps_def write_ok)
qed

lemma clock_keeps: "sys_ok (add_mset p X) w \<Longrightarrow> keeps p X (do_cmp_clock h p w)"
proof -
  assume s: "sys_ok (add_mset p X) w"
  obtain r w1 where c: "csp_clock_set_time h (be_value (cmp_get Clock_tv_sec (pkt w p)), be_value (cmp_get Clock_tv_nsec (pkt w p))) w = (r, w1)" by fastforce
  have s1: "sys_ok (add_mset p X) w1" using clock_ok [OF s c] .
  then have "sys_ok (add_mset p X) (set_errno CSP_DBG_ERR_CLOCK_SET_FAIL w1)" by (simp add: sys_ok_def)
  then show ?thesis using s s1 c by (auto simp: do_cmp_clock_def Let_def keeps_def sys_put)
qed

lemma cmp_handler_ok:
  assumes s: "sys_ok (add_mset p X) w" and f: "cmp_code (pkt w p) \<in> {2, 7} \<Longrightarrow> rtable_inptr w < CSP_RTABLE_SIZE"
  shows "\<exists>r w'. csp_cmp_handler h p w = Some (r, w') \<and> sys_ok (add_mset p X) w'"
proof -
  have sized: "keeps p X (r, set_pkt p (set_length n (pkt v p)) v)" if "keeps p X (r, v)" "n \<le> CSP_BUFFER_SIZE" for r n v
    using that by (simp add: keeps_def sys_length)
  have fin: "sys_ok (add_mset p X) (set_pkt p (data_put 0 [0xff] (pkt v p)) v)" if "keeps p X (r, v)" for r v
    using that by (simp add: keeps_def sys_put)
  obtain r1 v1 where i: "do_cmp_ident h p w = (r1, v1)" "keeps p X (r1, v1)" using ident_keeps [OF s] by (metis prod.collapse)
  obtain r3 v3 where st: "do_cmp_if_stats p w = (r3, v3)" "keeps p X (r3, v3)" using if_stats_keeps [OF s] by (metis prod.collapse)
  obtain r4 v4 where pe: "do_cmp_peek h p w = (r4, v4)" "keeps p X (r4, v4)" using peek_keeps [OF s] by (metis prod.collapse)
  obtain r5 v5 where po: "do_cmp_poke h p w = (r5, v5)" "keeps p X (r5, v5)" using poke_keeps [OF s] by (metis prod.collapse)
  obtain r6 v6 where cl: "do_cmp_clock h p w = (r6, v6)" "keeps p X (r6, v6)" using clock_keeps [OF s] by (metis prod.collapse)
  have routes: "\<exists>r2 v2. do_cmp_route_set_v1 p w = Some (r2, v2) \<and> keeps p X (r2, v2)"
    "\<exists>r7 v7. do_cmp_route_set_v2 p w = Some (r7, v7) \<and> keeps p X (r7, v7)" if "cmp_code (pkt w p) \<in> {2, 7}"
    using route_set_keeps [OF s f [OF that]] by auto
  consider "cmp_type (pkt w p) \<noteq> 0" | "cmp_code (pkt w p) = 1" | "cmp_code (pkt w p) = 2" | "cmp_code (pkt w p) = 3"
    | "cmp_code (pkt w p) = 4" | "cmp_code (pkt w p) = 5" | "cmp_code (pkt w p) = 6" | "cmp_code (pkt w p) = 7"
    | "cmp_type (pkt w p) = 0" "cmp_code (pkt w p) \<notin> {1, 2, 3, 4, 5, 6, 7}"
    by auto
  then show ?thesis
  proof cases
    case 1
    then show ?thesis using s by (simp add: csp_cmp_handler_def CMP_SIZE_def)
  next
    case 2
    then show ?thesis using s i fin [OF sized [OF i(2)], of 93] by (simp add: csp_cmp_handler_def CMP_SIZE_def Let_def)
  next
    case 3
    then obtain r2 v2 where r: "do_cmp_route_set_v1 p w = Some (r2, v2)" "keeps p X (r2, v2)" using routes by auto
    then show ?thesis using 3 s fin [OF sized [OF r(2)], of 15] by (simp add: csp_cmp_handler_def CMP_SIZE_def Let_def)
  next
    case 4
    then show ?thesis using s st fin [OF sized [OF st(2)], of 53] by (simp add: csp_cmp_handler_def CMP_SIZE_def Let_def)
  next
    case 5
    then show ?thesis using s pe fin [OF pe(2)] by (simp add: csp_cmp_handler_def CMP_SIZE_def Let_def)
  next
    case 6
    then show ?thesis using s po fin [OF po(2)] by (simp add: csp_cmp_handler_def CMP_SIZE_def Let_def)
  next
    case 7
    then show ?thesis using s cl fin [OF cl(2)] by (simp add: csp_cmp_handler_def CMP_SIZE_def Let_def)
  next
    case 8
    then obtain r2 v2 where r: "do_cmp_route_set_v2 p w = Some (r2, v2)" "keeps p X (r2, v2)" using routes by auto
    then show ?thesis using 8 s fin [OF sized [OF r(2)], of 20] by (simp add: csp_cmp_handler_def CMP_SIZE_def Let_def)
  next
    case 9
    then show ?thesis using s sys_put [OF s, of 0 "[0xff]"] by (simp add: csp_cmp_handler_def CMP_SIZE_def Let_def)
  qed
qed

lemma service_ok:
  assumes d: "transmitter drv" and s: "sys_ok (add_mset p X) w" and f: "route_fits p w"
  shows "\<exists>w'. csp_service_handler drv h p w = Some w' \<and> sys_ok X w'"
proof -
  have reply: "\<exists>v'. csp_sendto_reply drv (Some p) p CSP_O_SAME v = Some v' \<and> sys_ok X v'" if "sys_ok (add_mset p X) v" for v
    by (rule sendto_reply_ok [OF d that])
  have ans: "\<exists>v'. csp_sendto_reply drv (Some p) p CSP_O_SAME (answer_u32 p x w) = Some v' \<and> sys_ok X v'" for x
    using s by (intro reply) (simp add: answer_u32_def sys_set_own_pkt packet_ok_set_length data_put_ok)
  have fr: "sys_ok X (csp_buffer_free (Some p) v)" if "sys_ok (add_mset p X) v" for v using that by (rule sys_free)
  let ?d = "dport (p_id (pkt w p))"
  consider "?d = 0" | "?d = 1" | "?d = 2" | "?d = 3" | "?d = 4" | "?d = 5" | "?d = 6" | "?d \<notin> {0, 1, 2, 3, 4, 5, 6}" by auto
  then show ?thesis
  proof cases
    case 1
    then obtain r v where v: "csp_cmp_handler h p w = Some (r, v)" "sys_ok (add_mset p X) v"
      using cmp_handler_ok [OF s] f by (auto simp: route_fits_def)
    then show ?thesis using 1 fr [OF v(2)] reply [OF v(2)] by (simp add: csp_service_handler_def Let_def)
  next
    case 2
    then show ?thesis using reply [OF s] by (simp add: csp_service_handler_def Let_def)
  next
    case 3
    obtain n k where k: "csp_ps_hook h (pkt w p) = (n, k)" by fastforce
    have "packet_ok (k\<lparr>p_length := n\<rparr>) \<and> n \<noteq> 0" using ps_ok [OF sys_packet [OF s, of p] k] by simp
    then show ?thesis using 3 reply [OF sys_set_pkt [OF s, of "k\<lparr>p_length := n\<rparr>" p]] k
      by (simp add: csp_service_handler_def Let_def)
  next
    case 4
    then show ?thesis using ans by (simp add: csp_service_handler_def Let_def)
  next
    case 5
    then show ?thesis using fr [OF s] fr [OF reboot_ok [OF s]] fr [OF shutdown_ok [OF s]]
      by (simp add: csp_service_handler_def Let_def)
  next
    case 6
    then show ?thesis using ans by (simp add: csp_service_handler_def Let_def)
  next
    case 7
    then show ?thesis using ans by (simp add: csp_service_handler_def Let_def)
  next
    case 8
    then show ?thesis using fr [OF s] by (simp add: csp_service_handler_def Let_def)
  qed
qed

end

section \<open>The handler as a port callback\<close>

text \<open>
  With a driver that keeps its contract the handler is what the router expects of a callback. The callbacks
  of a node are the service handler and those of the application.
\<close>

definition node_callbacks ::
  "('a) driver \<Rightarrow> ('a) csp_cn_scheme hooks \<Rightarrow> ('a) callbacks \<Rightarrow> ('a) callbacks" where
  "node_callbacks drv h app f = (case f of CbService \<Rightarrow> csp_service_handler drv h | _ \<Rightarrow> app f)"

locale service_node = service_hooks h + transmitter drv + port_callbacks app "\<lambda>f p w. True"
  for h :: "('a) csp_cn_scheme hooks" and drv :: "('a) driver" and app :: "('a) callbacks"
begin

lemma callback_takes_over:
  assumes s: "sys_ok (add_mset p X) w" and "f = CbService \<longrightarrow> route_fits p w"
  shows "\<exists>w'. node_callbacks drv h app f p w = Some w' \<and> sys_ok X w'"
  using service_ok [OF transmitter_axioms s] cb_ok [OF s TrueI] assms(2)
  by (cases f) (simp_all add: node_callbacks_def)

end

sublocale service_node \<subseteq> node: port_callbacks "node_callbacks drv h app" "\<lambda>f p w. f = CbService \<longrightarrow> route_fits p w"
  by unfold_locales (rule callback_takes_over)

context service_node
begin

lemma router_serves:
  assumes "sys_ok X w" and "\<And>p v. route_step drv w = Some (Call CbService p v) \<Longrightarrow> route_fits p v"
  shows "\<exists>r w'. csp_route_work drv (node_callbacks drv h app) w = Some (r, w') \<and> sys_ok X w'"
  using node.work_ok [OF transmitter_axioms assms(1)] assms(2) by blast

end

text \<open>Hooks of an application that lists one task, has no clock and forbids poking.\<close>

definition ex_hooks :: "('a) csp_cn_scheme hooks" where
  "ex_hooks = \<lparr>build_date = ''Jan  1 2025'', build_time = ''00:00:00'',
     csp_ps_hook = (\<lambda>k. (4, data_put 0 [0x6d, 0x61, 0x69, 0x6e] k)), csp_memfree_hook = (\<lambda>w. 1024),
     csp_reboot_hook = (\<lambda>w. w), csp_shutdown_hook = (\<lambda>w. w),
     csp_clock_set_time = (\<lambda>t w. (CSP_ERR_NOTSUP, w)), csp_clock_get_time = (\<lambda>w. (0, 0)),
     cmp_read = (\<lambda>a n w. replicate n 0), cmp_write = (\<lambda>a bs w. w)\<rparr>"

interpretation ex_services: service_node ex_hooks csp_lo_tx drop_all
  by unfold_locales (auto simp: ex_hooks_def packet_ok_def data_put_def sys_free)

section \<open>Properties\<close>




text \<open>Route 8/5 via 9 on the interface KISS, and the state in which buffer 0 holds that request.\<close>

definition ex_route_request :: csp_packet where
  "ex_route_request = data_put 0 [0, 7, 0, 8, 0, 9, 0, 5, 0x4b, 0x49, 0x53, 0x53, 0, 0, 0, 0, 0, 0, 0] packet_zero"

definition ex_route_set :: csp_cn where
  "ex_route_set = set_pkt 0 ex_route_request ex_cn"

lemma ex_route_request_get:
  "off + n \<le> 19 \<Longrightarrow> data_get off n ex_route_request = take n (drop off [0, 7, 0, 8, 0, 9, 0, 5, 0x4b, 0x49, 0x53, 0x53, 0, 0, 0, 0, 0, 0, 0])"
proof -
  assume le: "off + n \<le> 19"
  let ?bs = "[0, 7, 0, 8, 0, 9, 0, 5, 0x4b, 0x49, 0x53, 0x53, 0, 0, 0, 0, 0, 0, 0] :: u8 list"
  have "packet_ok packet_zero" by (simp add: packet_ok_def packet_zero_def)
  then have "data_get 0 (length ?bs) ex_route_request = ?bs"
    unfolding ex_route_request_def by (rule data_get_put_same) simp
  moreover have "length ?bs = 19" by simp
  ultimately have "data_get 0 19 ex_route_request = ?bs" by (simp only:)
  then have "mem_read (mem_read (area ex_route_request) DATA_OFF 19) off n = mem_read ?bs off n" by (simp add: data_get_def)
  then show ?thesis using le by (simp add: mem_read_mem_read data_get_def) (simp add: mem_read_def)
qed


end
