(* ===== verification/Services.thy ===== *)
theory Services
  imports Service_Own
begin

text \<open>
  The client side of the services (\<open>src/csp_services.c\<close>): what a node calls to ping another one or to ask
  for its memory, buffers, uptime and processes. \<open>env\<close> stands for what runs between a send and the read of
  the reply, as in \<open>Api\<close>; a printed line is the value of \<open>report\<close> it prints, and \<open>None\<close> is undefined behaviour.
\<close>

section \<open>Ping\<close>

text \<open>The pattern of the payload, and the test of the echo.\<close>

definition ping_data :: "u16 \<Rightarrow> u8 list" where
  "ping_data sz = map of_nat [0..<unat sz]"

definition ping_echoed :: "u16 \<Rightarrow> csp_packet \<Rightarrow> bool" where
  "ping_echoed sz p \<longleftrightarrow> (\<forall>i < unat sz. data_get i 1 p = [of_nat (i mod (0xff + 1))])"

text \<open>The label \<open>out\<close>: \<open>time\<close> has 32 bits and the result, an \<open>int\<close>, 16.\<close>

definition ping_out ::
  "nat \<Rightarrow> u32 \<Rightarrow> bool \<Rightarrow> nat option \<Rightarrow> ('a) csp_cn_scheme \<Rightarrow> int \<times> ('a) csp_cn_scheme" where
  "ping_out conn start status packet w =
     (let w = csp_buffer_free packet w;
          w = snd (csp_close (Some conn) w);
          time = csp_get_ms w - start
      in (if status then sint (ucast time :: u16) else -1, w))"

definition csp_ping ::
  "('a) driver \<Rightarrow> (('a) csp_cn_scheme \<Rightarrow> ('a) csp_cn_scheme) \<Rightarrow> u16 \<Rightarrow> u32 \<Rightarrow> u16 \<Rightarrow> u8 \<Rightarrow>
     ('a) csp_cn_scheme \<Rightarrow> (int \<times> ('a) csp_cn_scheme) option" where
  "csp_ping drv env node timeout sz conn_options w =
     (if CSP_BUFFER_SIZE < unat sz then Some (-1, w)
      else
        let start = csp_get_ms w
        in case csp_connect CSP_PRIO_NORM node CSP_PING timeout (ucast conn_options) w of
             (None, w) \<Rightarrow> Some (-1, w)
           | (Some conn, w) \<Rightarrow>
               (case csp_buffer_get w of
                  (None, w) \<Rightarrow> Some (ping_out conn start False None w)
                | (Some packet, w) \<Rightarrow>
                    let w = set_pkt packet (data_put 0 (ping_data sz) ((pkt w packet)\<lparr>p_length := sz\<rparr>)) w
                    in case csp_send drv (Some conn) (Some packet) w of
                         None \<Rightarrow> None
                       | Some w \<Rightarrow>
                           (case csp_read (Some conn) timeout (env w) of
                              (None, w) \<Rightarrow> Some (ping_out conn start False None w)
                            | (Some packet, w) \<Rightarrow>
                                Some (ping_out conn start (ping_echoed sz (pkt w packet)) (Some packet) w))))"

definition csp_ping_noreply :: "('a) driver \<Rightarrow> u16 \<Rightarrow> ('a) csp_cn_scheme \<Rightarrow> ('a) csp_cn_scheme option" where
  "csp_ping_noreply drv node w =
     (case csp_buffer_get w of
        (None, w) \<Rightarrow> Some w
      | (Some packet, w) \<Rightarrow>
          (case csp_connect CSP_PRIO_NORM node CSP_PING 0 CSP_O_CRC32 w of
             (None, w) \<Rightarrow> Some (csp_buffer_free (Some packet) w)
           | (Some conn, w) \<Rightarrow>
               let w = set_pkt packet (set_length 1 (data_put 0 [0x55] (pkt w packet))) w
               in map_option (\<lambda>w. snd (csp_close (Some conn) w)) (csp_send drv (Some conn) (Some packet) w)))"

section \<open>Reboot and shutdown\<close>

definition reboot_request ::
  "u32 \<Rightarrow> ('a) driver \<Rightarrow> (('a) csp_cn_scheme \<Rightarrow> ('a) csp_cn_scheme) \<Rightarrow> u16 \<Rightarrow> ('a) csp_cn_scheme \<Rightarrow> ('a) csp_cn_scheme option" where
  "reboot_request magic drv env node w =
     map_option (snd \<circ> snd) (csp_transaction_w_opts drv env CSP_PRIO_NORM node CSP_REBOOT 0 (Some (be_bytes 4 magic)) 4 0 CSP_O_CRC32 w)"

definition csp_reboot ::
  "('a) driver \<Rightarrow> (('a) csp_cn_scheme \<Rightarrow> ('a) csp_cn_scheme) \<Rightarrow> u16 \<Rightarrow> ('a) csp_cn_scheme \<Rightarrow> ('a) csp_cn_scheme option" where
  "csp_reboot = reboot_request CSP_REBOOT_MAGIC"

definition csp_shutdown ::
  "('a) driver \<Rightarrow> (('a) csp_cn_scheme \<Rightarrow> ('a) csp_cn_scheme) \<Rightarrow> u16 \<Rightarrow> ('a) csp_cn_scheme \<Rightarrow> ('a) csp_cn_scheme option" where
  "csp_shutdown = reboot_request CSP_REBOOT_SHUTDOWN_MAGIC"

section \<open>The process list\<close>

text \<open>
  \<open>while (1)\<close> of \<open>csp_ps\<close>: it ends when a read returns nothing, and may not end when the other node never
  stops to send. The lines are the texts that are printed; the byte after the text is set to 0 before.
\<close>

definition ps_text :: "csp_packet \<Rightarrow> csp_packet \<times> string" where
  "ps_text p =
     (let n = (if unat (p_length p) < CSP_BUFFER_SIZE then unat (p_length p) else CSP_BUFFER_SIZE - 1);
          p = data_put n [0] p
      in (p, c_string (data_get 0 CSP_BUFFER_SIZE p)))"

partial_function (option) ps_loop ::
  "(('a) csp_cn_scheme \<Rightarrow> ('a) csp_cn_scheme) \<Rightarrow> nat \<Rightarrow> u32 \<Rightarrow> ('a) csp_cn_scheme \<Rightarrow> (string list \<times> ('a) csp_cn_scheme) option" where
  "ps_loop env conn timeout w =
     (case csp_read (Some conn) timeout (env w) of
        (None, w) \<Rightarrow> Some ([], w)
      | (Some packet, w) \<Rightarrow>
          Option.bind
            (ps_loop env conn timeout (csp_buffer_free (Some packet) (set_pkt packet (fst (ps_text (pkt w packet))) w)))
            (\<lambda>(ls, w'). Some (snd (ps_text (pkt w packet)) # ls, w')))"

definition csp_ps ::
  "('a) driver \<Rightarrow> (('a) csp_cn_scheme \<Rightarrow> ('a) csp_cn_scheme) \<Rightarrow> u16 \<Rightarrow> u32 \<Rightarrow> ('a) csp_cn_scheme \<Rightarrow>
     (string list \<times> ('a) csp_cn_scheme) option" where
  "csp_ps drv env node timeout w =
     (case csp_connect CSP_PRIO_NORM node CSP_PS 0 CSP_O_CRC32 w of
        (None, w) \<Rightarrow> Some ([], w)
      | (Some conn, w) \<Rightarrow>
          (case csp_buffer_get w of
             (None, w) \<Rightarrow> Some ([], snd (csp_close (Some conn) (csp_buffer_free None w)))
           | (Some packet, w) \<Rightarrow>
               let w = set_pkt packet (set_length 1 (data_put 0 [0x55] (pkt w packet))) w
               in case csp_send drv (Some conn) (Some packet) w of
                    None \<Rightarrow> None
                  | Some w \<Rightarrow>
                      map_option (\<lambda>(ls, w). (ls @ [[CHR 0x0D, CHR 0x0A]], snd (csp_close (Some conn) (csp_buffer_free None w))))
                        (ps_loop env conn timeout w)))"

section \<open>Numbers\<close>

text \<open>The three requests for a number, and the one line each of their callers prints.\<close>

definition get_number ::
  "u8 \<Rightarrow> ('a) driver \<Rightarrow> (('a) csp_cn_scheme \<Rightarrow> ('a) csp_cn_scheme) \<Rightarrow> u16 \<Rightarrow> u32 \<Rightarrow> ('a) csp_cn_scheme \<Rightarrow>
     (int \<times> u32 \<times> ('a) csp_cn_scheme) option" where
  "get_number port drv env node timeout w =
     (case csp_transaction_w_opts drv env CSP_PRIO_NORM node port timeout None 0 4 CSP_O_CRC32 w of
        None \<Rightarrow> None
      | Some (status, bs, w) \<Rightarrow>
          Some (if status = 4 then (CSP_ERR_NONE, be_value bs, w) else (CSP_ERR_TIMEDOUT, 0, w)))"

definition csp_get_memfree ::
  "('a) driver \<Rightarrow> (('a) csp_cn_scheme \<Rightarrow> ('a) csp_cn_scheme) \<Rightarrow> u16 \<Rightarrow> u32 \<Rightarrow> ('a) csp_cn_scheme \<Rightarrow>
     (int \<times> u32 \<times> ('a) csp_cn_scheme) option" where
  "csp_get_memfree = get_number CSP_MEMFREE"

definition csp_get_buf_free ::
  "('a) driver \<Rightarrow> (('a) csp_cn_scheme \<Rightarrow> ('a) csp_cn_scheme) \<Rightarrow> u16 \<Rightarrow> u32 \<Rightarrow> ('a) csp_cn_scheme \<Rightarrow>
     (int \<times> u32 \<times> ('a) csp_cn_scheme) option" where
  "csp_get_buf_free = get_number CSP_BUF_FREE"

definition csp_get_uptime ::
  "('a) driver \<Rightarrow> (('a) csp_cn_scheme \<Rightarrow> ('a) csp_cn_scheme) \<Rightarrow> u16 \<Rightarrow> u32 \<Rightarrow> ('a) csp_cn_scheme \<Rightarrow>
     (int \<times> u32 \<times> ('a) csp_cn_scheme) option" where
  "csp_get_uptime = get_number CSP_UPTIME"

datatype report = Memory u16 u32 | Buffers u16 u32 | Uptime u16 u32 | Network_error

definition print_number ::
  "(u16 \<Rightarrow> u32 \<Rightarrow> report) \<Rightarrow> u16 \<Rightarrow> (int \<times> u32 \<times> ('a) csp_cn_scheme) option \<Rightarrow> (report \<times> ('a) csp_cn_scheme) option" where
  "print_number line node r =
     map_option (\<lambda>(err, n, w). (if err = CSP_ERR_NONE then line node n else Network_error, w)) r"

definition csp_memfree ::
  "('a) driver \<Rightarrow> (('a) csp_cn_scheme \<Rightarrow> ('a) csp_cn_scheme) \<Rightarrow> u16 \<Rightarrow> u32 \<Rightarrow> ('a) csp_cn_scheme \<Rightarrow> (report \<times> ('a) csp_cn_scheme) option" where
  "csp_memfree drv env node timeout w = print_number Memory node (csp_get_memfree drv env node timeout w)"

definition csp_buf_free ::
  "('a) driver \<Rightarrow> (('a) csp_cn_scheme \<Rightarrow> ('a) csp_cn_scheme) \<Rightarrow> u16 \<Rightarrow> u32 \<Rightarrow> ('a) csp_cn_scheme \<Rightarrow> (report \<times> ('a) csp_cn_scheme) option" where
  "csp_buf_free drv env node timeout w = print_number Buffers node (csp_get_buf_free drv env node timeout w)"

definition csp_uptime ::
  "('a) driver \<Rightarrow> (('a) csp_cn_scheme \<Rightarrow> ('a) csp_cn_scheme) \<Rightarrow> u16 \<Rightarrow> u32 \<Rightarrow> ('a) csp_cn_scheme \<Rightarrow> (report \<times> ('a) csp_cn_scheme) option" where
  "csp_uptime drv env node timeout w = print_number Uptime node (csp_get_uptime drv env node timeout w)"

section \<open>Management requests\<close>

text \<open>\<open>msg\<close> is the memory of the message, request and reply in one; a size is never negative.\<close>

definition csp_cmp ::
  "('a) driver \<Rightarrow> (('a) csp_cn_scheme \<Rightarrow> ('a) csp_cn_scheme) \<Rightarrow> u16 \<Rightarrow> u32 \<Rightarrow> u8 \<Rightarrow> int \<Rightarrow> u8 list \<Rightarrow> ('a) csp_cn_scheme \<Rightarrow>
     (int \<times> u8 list \<times> ('a) csp_cn_scheme) option" where
  "csp_cmp drv env node timeout code msg_size msg w =
     (let msg = msg[0 := CSP_CMP_REQUEST, 1 := code]
      in case csp_transaction_w_opts drv env CSP_PRIO_NORM node CSP_CMP timeout (Some (take (nat msg_size) msg)) msg_size msg_size CSP_O_CRC32 w of
           None \<Rightarrow> None
         | Some (status, bs, w) \<Rightarrow>
             Some (if status = 0 then CSP_ERR_TIMEDOUT else CSP_ERR_NONE, mem_put msg 0 bs, w))"

end
