(* ===== verification/Services_Own.thy ===== *)
theory Services_Own
  imports Services
begin

text \<open>
  The calls of \<open>Services\<close> keep the invariant of the node, whatever the environment does between a send and a
  read; and the process list ends when what arrives runs out.
\<close>

section \<open>The router as the environment\<close>

text \<open>What a node does between a send and a read is, among other things, one round of its router.\<close>

definition router_env :: "('a) driver \<Rightarrow> ('a) callbacks \<Rightarrow> ('a) csp_cn_scheme \<Rightarrow> ('a) csp_cn_scheme" where
  "router_env drv cb w = (case csp_route_work drv cb w of None \<Rightarrow> w | Some (_, w') \<Rightarrow> w')"

interpretation routed: environment "router_env csp_lo_tx drop_all"
proof
  fix X and w :: "('a) csp_cn_scheme"
  assume "sys_ok X w"
  from dropper.work_ok [OF nlo.transmitter_axioms this] show "sys_ok X (router_env csp_lo_tx drop_all w)"
    by (auto simp: router_env_def)
qed

section \<open>Calls on a connection\<close>

lemma ping_data_length [simp]: "length (ping_data sz) = unat sz"
  by (simp add: ping_data_def)

lemma free_null [simp]: "csp_buffer_free None w = w"
  by (simp add: csp_buffer_free_def buffer_free_gen_def)

lemma ping_out_ok:
  assumes "sys_ok (case packet of None \<Rightarrow> X | Some p \<Rightarrow> add_mset p X) w" and "c < CSP_CONN_MAX"
  shows "sys_ok X (snd (ping_out c start status packet w))"
  using assms by (cases packet) (auto simp: ping_out_def Let_def intro!: close_ok sys_free)

lemma ping_packet_ok:
  assumes "sys_ok (add_mset p X) w" and "unat sz \<le> CSP_BUFFER_SIZE"
  shows "sys_ok (add_mset p X) (set_pkt p (data_put 0 (ping_data sz) ((pkt w p)\<lparr>p_length := sz\<rparr>)) w)"
  using assms by (intro sys_set_own_pkt data_put_ok) (simp_all add: packet_ok_def)

lemma one_byte_ok:
  assumes s: "sys_ok (add_mset p X) w"
  shows "sys_ok (add_mset p X) (set_pkt p (set_length 1 (data_put 0 [b] (pkt w p))) w)"
  using s by (intro sys_set_own_pkt packet_ok_set_length data_put_ok) simp_all

lemma noreply_ok:
  assumes d: "transmitter drv" and s: "sys_ok X w"
  shows "\<exists>w'. csp_ping_noreply drv node w = Some w' \<and> sys_ok X w'"
proof -
  obtain x w1 where g: "csp_buffer_get w = (x, w1)" by fastforce
  note G = sys_get(1) [OF s g]
  show ?thesis
  proof (cases x)
    case None
    then show ?thesis using g G by (simp add: csp_ping_noreply_def)
  next
    case (Some p)
    then have s1: "sys_ok (add_mset p X) w1" using G by simp
    obtain y w2 where cn: "csp_connect 2 node 1 0 CSP_O_CRC32 w1 = (y, w2)" by fastforce
    note C = connect_ok [OF s1 cn]
    show ?thesis
    proof (cases y)
      case None
      then show ?thesis using g cn Some sys_free [OF C(1)] by (simp add: csp_ping_noreply_def)
    next
      case y: (Some c)
      let ?w = "set_pkt p (set_length 1 (data_put 0 [0x55] (pkt w2 p))) w2"
      obtain w3 where "csp_send drv (Some c) (Some p) ?w = Some w3" "sys_ok X w3"
        using send_ok [OF d one_byte_ok [OF C(1)]] by blast
      moreover have "sys_ok X (snd (csp_close (Some c) w3))" using C(2) [OF y] by (intro close_ok calculation(2)) simp
      ultimately show ?thesis using g cn Some y by (simp add: csp_ping_noreply_def Let_def)
    qed
  qed
qed

lemma print_number_ok:
  assumes "\<exists>r n w'. call = Some (r, n, w') \<and> sys_ok X w'"
  shows "\<exists>l w'. print_number line node call = Some (l, w') \<and> sys_ok X w'"
proof -
  obtain r n w' where "call = Some (r, n, w')" "sys_ok X w'" using assms by blast
  then show ?thesis by (simp add: print_number_def)
qed

lemma ps_text_ok: "packet_ok p \<Longrightarrow> packet_ok (fst (ps_text p))"
  by (simp add: ps_text_def Let_def data_put_ok)

context environment
begin

lemma ping_ok:
  assumes d: "transmitter drv" and s: "sys_ok X w"
  shows "\<exists>r w'. csp_ping drv env node t sz opts w = Some (r, w') \<and> sys_ok X w' \<and>
     (r \<noteq> -1 \<longrightarrow> (\<exists>(u :: ('a) csp_cn_scheme) p v. csp_read (Some 0) t u = (Some p, v) \<and> ping_echoed sz (pkt v p)))"
proof -
  obtain x w1 where cn: "csp_connect 2 node 1 t (ucast opts) w = (x, w1)" by fastforce
  note C = connect_ok [OF s cn]
  consider "CSP_BUFFER_SIZE < unat sz" | "unat sz \<le> CSP_BUFFER_SIZE" "x = None" | "unat sz \<le> CSP_BUFFER_SIZE" "x = Some 0"
    using C(2) not_less by (cases x) auto
  then show ?thesis
  proof cases
    case 1
    then show ?thesis using s by (simp add: csp_ping_def)
  next
    case 2
    then show ?thesis using C(1) cn by (simp add: csp_ping_def Let_def)
  next
    case 3
    obtain y w2 where g: "csp_buffer_get w1 = (y, w2)" by fastforce
    note G = sys_get(1) [OF C(1) g]
    show ?thesis
    proof (cases y)
      case None
      then have "sys_ok X (snd (ping_out 0 (csp_get_ms w) False None w2))" using G by (intro ping_out_ok) simp_all
      then show ?thesis using None 3 cn g by (simp add: csp_ping_def ping_out_def Let_def)
    next
      case (Some p)
      let ?w = "set_pkt p (data_put 0 (ping_data sz) ((pkt w2 p)\<lparr>p_length := sz\<rparr>)) w2"
      obtain w3 where w3: "csp_send drv (Some 0) (Some p) ?w = Some w3" "sys_ok X w3"
        using send_ok [OF d ping_packet_ok] G Some 3 by fastforce
      obtain z w4 where r: "csp_read (Some 0) t (env w3) = (z, w4)" by fastforce
      have s4: "sys_ok (case z of None \<Rightarrow> X | Some p \<Rightarrow> add_mset p X) w4" using read_ok [OF env_ok [OF w3(2)] _ r] by simp
      have E: "csp_ping drv env node t sz opts w =
          Some (ping_out 0 (csp_get_ms w) (case z of None \<Rightarrow> False | Some q \<Rightarrow> ping_echoed sz (pkt w4 q)) z w4)"
        using 3 cn g Some w3(1) r by (simp add: csp_ping_def Let_def split: option.split)
      have "sys_ok X (snd (ping_out 0 (csp_get_ms w) st z w4))" for st using s4 by (intro ping_out_ok) simp_all
      moreover have "\<exists>(u :: ('a) csp_cn_scheme) p v. csp_read (Some 0) t u = (Some p, v) \<and> ping_echoed sz (pkt v p)"
        if "z = Some q" and "ping_echoed sz (pkt w4 q)" for q
        using r that by blast
      ultimately show ?thesis by (cases z) (auto simp: E ping_out_def Let_def split: if_splits)
    qed
  qed
qed

lemma reboot_request_ok:
  assumes "transmitter drv" and "sys_ok X w"
  shows "\<exists>w'. reboot_request magic drv env node w = Some w' \<and> sys_ok X w'"
proof -
  obtain st bs w' where "csp_transaction_w_opts drv env 2 node 4 0 (Some (be_bytes 4 magic)) 4 0 CSP_O_CRC32 w = Some (st, bs, w')"
    "sys_ok X w'"
    using w_opts_ok [OF assms, of 4 2 node 4 0 "Some (be_bytes 4 magic)" 0 CSP_O_CRC32] by auto
  then show ?thesis by (simp add: reboot_request_def)
qed

lemma get_number_ok:
  assumes "transmitter drv" and "sys_ok X w"
  shows "\<exists>r n w'. get_number port drv env node t w = Some (r, n, w') \<and> sys_ok X w'"
proof -
  obtain st bs w' where "csp_transaction_w_opts drv env 2 node port t None 0 4 CSP_O_CRC32 w = Some (st, bs, w')" "sys_ok X w'"
    using w_opts_ok [OF assms, of 0 2 node port t None 4 CSP_O_CRC32] by auto
  then show ?thesis by (simp add: get_number_def)
qed

lemma cmp_ok:
  assumes "transmitter drv" and "sys_ok X w" and "0 \<le> n"
  shows "\<exists>r m w'. csp_cmp drv env node t code n msg w = Some (r, m, w') \<and> sys_ok X w'"
proof -
  let ?m = "take (nat n) (msg[0 := CSP_CMP_REQUEST, 1 := code])"
  obtain st bs w' where "csp_transaction_w_opts drv env 2 node 0 t (Some ?m) n n CSP_O_CRC32 w = Some (st, bs, w')" "sys_ok X w'"
    using w_opts_ok [OF assms, of 2 node 0 t "Some ?m" n CSP_O_CRC32] by auto
  then show ?thesis by (simp add: csp_cmp_def Let_def)
qed

end

section \<open>The process list\<close>

text \<open>
  The loop ends when every read uses something up: \<open>m\<close> counts what is still to come.
\<close>

locale draining = environment env for env :: "('a) csp_cn_scheme \<Rightarrow> ('a) csp_cn_scheme" +
  fixes m :: "('a) csp_cn_scheme \<Rightarrow> nat"
  assumes drains: "sys_ok X v \<Longrightarrow> csp_read (Some 0) t (env v) = (Some p, v') \<Longrightarrow>
     m (csp_buffer_free (Some p) (set_pkt p k v')) < m v"
begin

lemma ps_loop_ok:
  assumes "sys_ok X w"
  shows "\<exists>ls w'. ps_loop env 0 t w = Some (ls, w') \<and> sys_ok X w' \<and> length ls \<le> m w"
  using assms
proof (induction "m w" arbitrary: w rule: less_induct)
  case less
  obtain x v where r: "csp_read (Some 0) t (env w) = (x, v)" by fastforce
  show ?case
  proof (cases x)
    case None
    then show ?thesis using r read_ok [OF env_ok [OF less.prems] _ r] by (simp add: ps_loop.simps)
  next
    case (Some p)
    let ?v = "csp_buffer_free (Some p) (set_pkt p (fst (ps_text (pkt v p))) v)"
    have sv: "sys_ok (add_mset p X) v" using read_ok [OF env_ok [OF less.prems] _ r] Some by simp
    have "sys_ok X ?v" by (rule sys_free, rule sys_set_own_pkt [OF sv]) (simp add: ps_text_ok)
    moreover have lt: "m ?v < m w" using drains [OF less.prems] r Some by blast
    ultimately obtain ls w' where L: "ps_loop env 0 t ?v = Some (ls, w')" "sys_ok X w'" "length ls \<le> m ?v"
      using less.hyps by blast
    have "ps_loop env 0 t w = Some (snd (ps_text (pkt v p)) # ls, w')"
      by (subst ps_loop.simps) (simp add: r Some L(1))
    then show ?thesis using L lt by auto
  qed
qed

lemma ps_ok:
  assumes d: "transmitter drv" and s: "sys_ok X w"
  shows "\<exists>ls w'. csp_ps drv env node t w = Some (ls, w') \<and> sys_ok X w'"
proof -
  obtain x w1 where cn: "csp_connect 2 node 2 0 CSP_O_CRC32 w = (x, w1)" by fastforce
  note C = connect_ok [OF s cn]
  show ?thesis
  proof (cases x)
    case None
    then show ?thesis using cn C(1) by (simp add: csp_ps_def)
  next
    case (Some c)
    then have c: "c = 0" using C(2) by simp
    obtain y w2 where g: "csp_buffer_get w1 = (y, w2)" by fastforce
    note G = sys_get(1) [OF C(1) g]
    show ?thesis
    proof (cases y)
      case None
      then show ?thesis using cn Some g G close_ok [of X w2 0] by (simp add: csp_ps_def c)
    next
      case y: (Some p)
      let ?w = "set_pkt p (set_length 1 (data_put 0 [0x55] (pkt w2 p))) w2"
      have "sys_ok (add_mset p X) ?w" using G y by (intro one_byte_ok) simp
      from send_ok [OF d this, of "Some 0"] obtain w3 where w3: "csp_send drv (Some 0) (Some p) ?w = Some w3" "sys_ok X w3" by blast
      obtain ls w4 where "ps_loop env 0 t w3 = Some (ls, w4)" "sys_ok X w4" using ps_loop_ok [OF w3(2)] by blast
      then show ?thesis using cn Some g y w3(1) close_ok [of X w4 0] by (simp add: csp_ps_def Let_def c)
    qed
  qed
qed

end

interpretation settled: draining "\<lambda>w. w" "\<lambda>w. length (qh_items (c_rx_queue (conns w 0)))"
proof
  fix X t p k and v v' :: "('a) csp_cn_scheme"
  assume s: "sys_ok X v" and r: "csp_read (Some 0) t v = (Some p, v')"
  obtain q where q: "csp_queue_dequeue (c_rx_queue (conns v 0)) t = (Some p, q)" "v' = set_conn 0 ((conns v 0)\<lparr>c_rx_queue := q\<rparr>) v"
    using r by (auto simp: csp_read_def split: if_splits prod.splits)
  have "qh_items (c_rx_queue (conns v 0)) = p # qh_items q"
    using dequeue_mset(2) [OF own_conn_queue_ok [OF sys_ok_own [OF s]] q(1)] by simp
  then show "length (qh_items (c_rx_queue (conns (csp_buffer_free (Some p) (set_pkt p k v')) 0))) < length (qh_items (c_rx_queue (conns v 0)))"
    by (simp add: frame_simps q(2) set_conn_def set_pkt_def)
qed

section \<open>Properties\<close>



end
