(* ===== verification/Journey.thy ===== *)
theory Journey
  imports Services_Own
begin

text \<open>
  What a packet meets on its way through a node, as lemmas that the end-to-end theories put together: a round
  of the router that calls a service or delivers to a connection, the opening of a connection, the first and
  the last part of \<open>csp_ping\<close>. \<open>undisturbed\<close> says that the router's queue, the clock, the receivers and
  the serial lines are left alone.
\<close>

section \<open>What leaves queue, clock and lines alone\<close>

text \<open>
  The whole way of a request and its reply: a node that pings its own loopback address. Connecting, sending,
  the loopback interface, two rounds of the router, the service handler, reading and closing are put
  together.
\<close>

definition undisturbed :: "('a) csp_cn_scheme \<Rightarrow> ('a) csp_cn_scheme \<Rightarrow> bool" where
  "undisturbed w w' \<longleftrightarrow> settings w' = settings w \<and> qfifo_queue_handle w' = qfifo_queue_handle w \<and> ms_from_boot w' = ms_from_boot w \<and>
     kiss w' = kiss w \<and> line_out w' = line_out w \<and> (\<not> use_promisc w \<longrightarrow> csp_promisc_queue w' = csp_promisc_queue w)"

lemma undisturbed_refl [simp]: "undisturbed w w"
  by (simp add: undisturbed_def)

lemma settings_use_promisc: "settings w' = settings w \<Longrightarrow> use_promisc w' = use_promisc w"
  by (simp add: settings_def)

lemma undisturbed_trans: "undisturbed w w1 \<Longrightarrow> undisturbed w1 w2 \<Longrightarrow> undisturbed w w2"
  using settings_use_promisc [of w1 w] by (auto simp: undisturbed_def)

lemma ms_frame [frame_simps]:
  "ms_from_boot (set_pkt b k w) = ms_from_boot w" "ms_from_boot (set_iface i f w) = ms_from_boot w"
  "ms_from_boot (set_errno e w) = ms_from_boot w" "ms_from_boot (csp_buffer_free x w) = ms_from_boot w"
  by (simp_all add: set_pkt_def set_iface_def set_errno_def) (subst csp_buffer_free_more, simp)

lemma line_frames [frame_simps]:
  "line_out (set_errno e w) = line_out w" "line_out (set_iface i f w) = line_out w" "kiss (set_errno e w) = kiss w"
  "csp_promisc_queue (set_errno e w) = csp_promisc_queue w" "csp_promisc_queue (set_iface i f w) = csp_promisc_queue w"
  "csp_promisc_queue (set_pkt b k w) = csp_promisc_queue w" "csp_promisc_queue (csp_buffer_free x w) = csp_promisc_queue w"
  by (simp_all add: set_errno_def set_iface_def set_pkt_def) (subst csp_buffer_free_more, simp)

lemma settings_free [frame_simps]: "settings (csp_buffer_free x w) = settings w"
  using kept_free [of UNIV w x] by (simp add: kept_def)

lemma undisturbed_simple [simp]:
  "undisturbed w (set_pkt b k w)" "undisturbed w (set_errno e w)" "undisturbed w (csp_buffer_free x w)"
  "iface_cfg f = iface_cfg (ifaces w i) \<Longrightarrow> undisturbed w (set_iface i f w)"
  by (simp_all add: undisturbed_def frame_simps settings_set_iface)

lemma undisturbed_get: "csp_buffer_get_actual r isr w = (x, w') \<Longrightarrow> undisturbed w w'"
  using get_actual_held(3) [of r isr w x w'] by (simp add: undisturbed_def) (subst get_actual_more, assumption, simp)+

lemma undisturbed_clone:
  assumes "csp_buffer_clone x w = (y, w')"
  shows "undisturbed w w'"
proof (cases x)
  case None
  then show ?thesis using assms by (simp add: csp_buffer_clone_def)
next
  case (Some b)
  obtain c w1 where g: "csp_buffer_get_actual 2 False w = (c, w1)" by fastforce
  then have w': "w' = csp_buffer_copy x c w1" using assms Some by (auto simp: csp_buffer_clone_def csp_buffer_get_def)
  obtain pl where "w' = w1\<lparr>pool := pl\<rparr>" using buffer_copy_upd w' by blast
  then show ?thesis using undisturbed_get [OF g] by (simp add: undisturbed_def frame_simps)
qed

lemma undisturbed_promisc:
  assumes "use_promisc w"
  shows "undisturbed w (csp_promisc_add p w)"
proof (cases "csp_promisc_enabled w \<and> csp_promisc_queue w \<noteq> None")
  case False
  then show ?thesis by (auto simp: csp_promisc_add_def)
next
  case True
  obtain x w1 where c: "csp_buffer_clone (Some p) w = (x, w1)" by fastforce
  note U = undisturbed_clone [OF c]
  then show ?thesis using True c assms
    by (cases x) (simp_all add: csp_promisc_add_def undisturbed_def frame_simps Let_def split: prod.split)
qed

lemma undisturbed_count [simp]: "undisturbed w (count_rx_error i w)" "undisturbed w (count_autherr i w)" "undisturbed w (count_rx i p w)"
  by (simp_all add: count_rx_error_def count_autherr_def count_rx_def)

lemma undisturbed_crc: "crc_check opts i p w = (r, w') \<Longrightarrow> undisturbed w w'"
  using undisturbed_trans [OF undisturbed_simple(1) undisturbed_count(1)]
  by (auto simp: crc_check_def Let_def split: if_splits prod.splits)

lemma undisturbed_hmac: "hmac_check opts i p w = Some (r, w') \<Longrightarrow> undisturbed w w'"
  using undisturbed_trans [OF undisturbed_simple(1) undisturbed_count(2)]
  by (auto simp: hmac_check_def Let_def split: if_splits option.splits prod.splits)

lemma undisturbed_security:
  assumes "csp_route_security_check opts i p w = Some (r, w')"
  shows "undisturbed w w'"
proof -
  obtain r1 w1 where c: "crc_check opts i p w = (r1, w1)" by fastforce
  have "undisturbed w1 w'"
    using assms c undisturbed_hmac by (auto simp: csp_route_security_check_def split: if_splits)
  then show ?thesis by (rule undisturbed_trans [OF undisturbed_crc [OF c]])
qed

lemma undisturbed_before_local: "undisturbed w (before_local i p w)"
proof -
  have "undisturbed w (csp_promisc_add p (count_rx i p w))" if "use_promisc (count_rx i p w)"
    by (rule undisturbed_trans [OF undisturbed_count(3) undisturbed_promisc [OF that]])
  then show ?thesis by (simp add: before_local_def Let_def)
qed

section \<open>A round of the router\<close>

definition with_crc :: "u8 list \<Rightarrow> u8 list" where
  "with_crc m = m @ be_bytes 4 (csp_crc32_memory m)"

text \<open>A packet of this node with the checksum flag reaches the interface with the checksum appended.\<close>

lemma send_iface_crc:
  fixes w :: "('a) csp_cn_scheme"
  assumes inv: "own_inv (add_mset q X) w" and fl: "flags (id_at ref w) = CSP_FCRC32"
    and ref: "\<And>b. ref = IdOfPacket b \<Longrightarrow> b = q"
    and fit: "unat (p_length (pkt w q)) + 4 \<le> CSP_BUFFER_SIZE"
  shows "\<exists>v :: ('a) csp_cn_scheme. csp_send_direct_iface drv ref q i via True w = Some (transmit drv q i via True v) \<and>
     own_inv (add_mset q X) v \<and> undisturbed w v \<and> p_id (pkt v q) = id_at ref w \<and>
     payload (pkt v q) = with_crc (payload (pkt w q)) \<and> unat (p_length (pkt v q)) = unat (p_length (pkt w q)) + 4"
proof -
  let ?k = "(pkt w q)\<lparr>p_id := id_at ref w\<rparr>"
  define w1 where "w1 = (if ref \<noteq> IdOfPacket q then set_pkt q ?k w else w)"
  have k1: "pkt w1 q = ?k" using ref by (cases ref) (auto simp: w1_def frame_simps)
  have i1: "id_at ref w1 = id_at ref w" using ref by (cases ref) (auto simp: w1_def set_pkt_def)
  have u1: "undisturbed w w1" by (simp add: w1_def)
  have "packet_ok (pkt w q)" using own_packet [OF inv] by simp
  then have ok: "packet_ok ?k" by simp
  have s1: "own_inv (add_mset q X) w1" using inv ok by (simp add: w1_def own_set_pkt)
  obtain kc where a: "csp_crc32_append ?k = (CSP_ERR_NONE, kc)" using crc32_append_ok [OF ok] fit by simp
  note A = crc32_append_packet [OF ok a]
  define w2 where "w2 = set_pkt q kc w1"
  have u2: "undisturbed w w2" unfolding w2_def by (rule undisturbed_trans [OF u1]) simp
  have s2: "own_inv (add_mset q X) w2" unfolding w2_def by (rule own_set_pkt [OF s1 A(1)])
  define w3 where "w3 = (if use_promisc w2 \<and> i \<noteq> csp_if_lo then csp_promisc_add q w2 else w2)"
  have "secure_tx ref q i w1 = Some (True, w3)"
    using fl a by (simp add: secure_tx_def append_hmac_def append_crc_def i1 k1 w2_def w3_def)
  then have "csp_send_direct_iface drv ref q i via True w = Some (transmit drv q i via True w3)"
    by (simp only: csp_send_direct_iface_def csp_output_hook_def Let_def csp_id_copy_eq if_True option.case prod.case bool.case flip: w1_def)
  moreover have "undisturbed w w3" using u2 undisturbed_trans [OF u2 undisturbed_promisc] by (simp add: w3_def)
  moreover have "own_inv (add_mset q X) w3 \<and> pkt w3 q = kc"
    using own_promisc_add [OF s2, of q] s2 by (auto simp: w3_def kept_def) (simp_all add: w2_def frame_simps)
  moreover have "payload ?k = payload (pkt w q)" by (simp add: payload_def)
  ultimately show ?thesis using A(2-4) by (intro exI [of _ w3] conjI) (simp_all add: with_crc_def)
qed

lemma passes_crc:
  assumes "payload (pkt w p) = with_crc m" and "flags (p_id (pkt w p)) = CSP_FCRC32" and "opts AND CSP_SO_HMACREQ = 0"
  shows "accepted opts w p = Some m"
proof -
  have "crc_good v i (with_crc m)" for v i by (simp add: crc_good_def with_crc_def)
  moreover have "take (length (with_crc m) - 4) (with_crc m) = m" by (simp add: with_crc_def)
  ultimately show ?thesis using assms by (simp add: accepted_def crc_passed_def hmac_passed_def)
qed

text \<open>A packet for the address of one of the node's interfaces.\<close>

lemma arrives_here:
  assumes "j \<in> set (interfaces w)" and "addr (ifaces w j) = dst (p_id (pkt w p))"
    and "qf_items w = [\<lparr>qe_iface = Some i, qe_packet = Some p\<rparr>]"
    and "flags (p_id (pkt w p)) = CSP_FCRC32" and "dedup (csp_conf w) = CSP_DEDUP_OFF"
  shows "arrives w i p"
proof -
  have "by_addr_loop w (dst (p_id (pkt w p))) l \<noteq> None" if "j \<in> set l" for l
    using that assms(2) by (induction l) auto
  then have "csp_iflist_get_by_addr w (dst (p_id (pkt w p))) \<noteq> None"
    using assms(1) by (simp add: csp_iflist_get_by_addr_def)
  then show ?thesis using assms by (simp add: arrives_def is_to_me_def)
qed

text \<open>The state in which the router has taken its only packet.\<close>

lemma taken:
  assumes s: "sys_ok X w" and a: "arrives w i p" and q: "qf_items w = [\<lparr>qe_iface = Some i, qe_packet = Some p\<rparr>]"
  shows "\<exists>v. passes p X w v \<and> csp_route_check_options i p v = (CSP_ERR_NONE, v) \<and> route_step drv w = route_local i p v \<and>
     settings v = settings w \<and> ms_from_boot v = ms_from_boot w \<and> kiss v = kiss w \<and> line_out v = line_out w \<and>
     (\<not> use_promisc w \<longrightarrow> csp_promisc_queue v = csp_promisc_queue w) \<and> qf_items v = []"
proof -
  obtain qq where v: "let u = w\<lparr>qfifo_queue_handle := qq\<rparr>; v = before_local i p u
     in qf_items u = [] \<and> passes p X w v \<and> csp_route_check_options i p v = (CSP_ERR_NONE, v) \<and> route_step drv w = route_local i p v"
    using arrives_before [OF s a q, of drv] by blast
  have "undisturbed (w\<lparr>qfifo_queue_handle := qq\<rparr>) (before_local i p (w\<lparr>qfifo_queue_handle := qq\<rparr>))"
    by (rule undisturbed_before_local)
  then show ?thesis using v
    by (intro exI [of _ "before_local i p (w\<lparr>qfifo_queue_handle := qq\<rparr>)"])
      (auto simp: Let_def undisturbed_def settings_frame qf_items_def)
qed

lemma round_calls:
  assumes s: "sys_ok X w" and a: "arrives w i p" and q: "qf_items w = [\<lparr>qe_iface = Some i, qe_packet = Some p\<rparr>]"
    and cb: "csp_port_get_callback (unat (dport (p_id (pkt w p)))) w = Some f" and acc: "accepted CSP_SO_CRC32REQ w p = Some m"
  shows "\<exists>u. csp_route_work drv calls w = map_option (Pair CSP_ERR_NONE) (calls f p u) \<and> sys_ok (add_mset p X) u \<and>
     settings u = settings w \<and> ms_from_boot u = ms_from_boot w \<and> kiss u = kiss w \<and> line_out u = line_out w \<and>
     (\<not> use_promisc w \<longrightarrow> csp_promisc_queue u = csp_promisc_queue w) \<and> qf_items u = [] \<and> p_id (pkt u p) = p_id (pkt w p) \<and> payload (pkt u p) = m"
proof -
  obtain v where v: "passes p X w v" "csp_route_check_options i p v = (CSP_ERR_NONE, v)" "route_step drv w = route_local i p v"
     "settings v = settings w" "ms_from_boot v = ms_from_boot w" "kiss v = kiss w" "line_out v = line_out w"
     "\<not> use_promisc w \<longrightarrow> csp_promisc_queue v = csp_promisc_queue w" "qf_items v = []"
    using taken [OF s a q, of drv] by blast
  note P = passesD [OF v(1)]
  obtain r u where k: "csp_route_security_check CSP_SO_CRC32REQ i p v = Some (r, u)" "holds p X v u"
      "case accepted CSP_SO_CRC32REQ v p of None \<Rightarrow> r \<noteq> CSP_ERR_NONE | Some m \<Rightarrow> r = CSP_ERR_NONE \<and> payload (pkt u p) = m"
    using security_check_spec [OF passes_sys [OF v(1)]] by metis
  then have k3: "r = CSP_ERR_NONE" "payload (pkt u p) = m" using acc by (simp_all add: P)
  have "undisturbed v u" by (rule undisturbed_security [OF k(1)])
  moreover have "route_step drv w = Some (Call f p u)"
    using v(2,3) k(1) k3(1) cb passes_ports [OF v(1)] by (simp add: route_local_def P Let_def)
  ultimately show ?thesis using v(4-9) settings_use_promisc [OF v(4)] k3(2) holds_sys [OF k(2)] holdsD(6) [OF k(2)] P(8)
    by (intro exI [of _ u]) (simp add: csp_route_work_def undisturbed_def qf_items_def)
qed

lemma ms_conn [frame_simps]: "ms_from_boot (set_conn c k w) = ms_from_boot w"
  by (simp add: set_conn_def)

lemma ms_deliver: "dest_socket (conns w c) = None \<Longrightarrow> ms_from_boot (snd (deliver_conn c p w)) = ms_from_boot w"
  by (simp add: deliver_conn_def csp_conn_enqueue_packet_def Let_def frame_simps set_conn_def split: prod.split)

lemma round_delivers:
  assumes s: "sys_ok X w" and a: "arrives w i p" and q: "qf_items w = [\<lparr>qe_iface = Some i, qe_packet = Some p\<rparr>]"
    and port: "CSP_PORT_MAX_BIND < unat (dport (p_id (pkt w p)))" and ex: "csp_conn_find_existing (p_id (pkt w p)) w = Some 0"
    and acc: "accepted (c_opts (conns w 0)) w p = Some m" and ds: "dest_socket (conns w 0) = None"
    and room: "qh_items (c_rx_queue (conns w 0)) = []" "0 < qh_cap (c_rx_queue (conns w 0))"
  shows "\<exists>u. csp_route_work drv calls w = Some (CSP_ERR_NONE, u) \<and> sys_ok X u \<and> ms_from_boot u = ms_from_boot w \<and>
     qh_items (c_rx_queue (conns u 0)) = [p] \<and> c_state (conns u 0) = CONN_OPEN \<and> payload (pkt u p) = m"
proof -
  obtain v where v: "passes p X w v" "csp_route_check_options i p v = (CSP_ERR_NONE, v)" "route_step drv w = route_local i p v"
     "ms_from_boot v = ms_from_boot w"
    using taken [OF s a q, of drv] by blast
  note P = passesD [OF v(1)]
  have ex': "csp_conn_find_existing (p_id (pkt v p)) v = Some 0"
  proof -
    have "find_existing_loop v ident l = find_existing_loop w ident l" for ident l by (induction l) (simp_all add: P Let_def)
    note this [of "p_id (pkt v p)" "[0..<CSP_CONN_MAX]"]
    then show ?thesis using ex by (simp only: csp_conn_find_existing_def P)
  qed
  obtain r x where k: "csp_route_security_check (c_opts (conns v 0)) i p v = Some (r, x)" "holds p X v x"
      "case accepted (c_opts (conns v 0)) v p of None \<Rightarrow> r \<noteq> CSP_ERR_NONE | Some m \<Rightarrow> r = CSP_ERR_NONE \<and> payload (pkt x p) = m"
    using security_check_spec [OF passes_sys [OF v(1)]] by metis
  then have k3: "r = CSP_ERR_NONE" "payload (pkt x p) = m" using acc by (simp_all add: P)
  have ux: "undisturbed v x" by (rule undisturbed_security [OF k(1)])
  have cx: "conns x 0 = conns w 0" using holdsD(3) [OF k(2)] by (simp add: P)
  have op: "c_state (conns x 0) = CONN_OPEN" using find_existing_cases(2) [OF ex] by (simp add: cx)
  obtain u where u: "deliver_conn 0 p x = (CSP_ERR_NONE, u)" "sys_ok X u" "qh_items (c_rx_queue (conns u 0)) = [p]"
      "pkt u p = pkt x p" "c_state (conns u 0) = CONN_OPEN"
    using deliver_conn_ok [OF holds_sys [OF k(2)] _ op] ds room by (auto simp: cx)
  have "ms_from_boot u = ms_from_boot w"
    using ms_deliver [of x 0 p] ds u(1) ux v(4) by (simp add: cx undisturbed_def)
  moreover have "csp_port_get_callback (unat (dport (p_id (pkt v p)))) v = None" "csp_port_get_socket (unat (dport (p_id (pkt v p)))) v = None"
    using port by (simp_all add: csp_port_get_callback_def csp_port_get_socket_def P)
  then have "route_step drv w = Some (Done CSP_ERR_NONE u)"
    using v(2,3) k(1) k3(1) ex' u(1) by (simp add: route_local_def takes_packets_def deliver_or_open_def find_or_open_def Let_def)
  ultimately show ?thesis using u k3(2) by (simp add: csp_route_work_def)
qed

section \<open>Opening a connection\<close>

lemma conn_new_empty:
  assumes "c_state (conns w 0) = CONN_CLOSED" and "qh_items (c_rx_queue (conns w 0)) = []"
  shows "csp_conn_new a b ty w = (Some 0, set_conn 0 ((conns w 0)\<lparr>c_state := CONN_OPEN, c_type := ty, idin := a, idout := b,
     c_timestamp := csp_get_ms w\<rparr>) (w\<lparr>csp_conn_last_given := 0\<rparr>))"
proof -
  let ?v = "set_conn 0 ((conns w 0)\<lparr>c_state := CONN_OPEN, c_type := ty, idin := a, idout := b,
     c_timestamp := csp_get_ms w\<rparr>) (w\<lparr>csp_conn_last_given := 0\<rparr>)"
  have "csp_queue_dequeue (c_rx_queue (conns ?v 0)) 0 = (None, c_rx_queue (conns ?v 0))"
    using assms(2) by (simp add: qh_recv_empty set_conn_def)
  then have "csp_conn_flush_rx_queue 0 ?v = set_conn 0 ((conns ?v 0)\<lparr>c_rx_queue := c_rx_queue (conns ?v 0)\<rparr>) ?v"
    by (rule flush_step(1))
  then have "csp_conn_flush_rx_queue 0 ?v = ?v" by (simp add: set_conn_def)
  then show ?thesis using assms(1)
    by (simp add: csp_conn_new_def csp_conn_allocate_eq Let_def set_conn_def csp_get_ms_def)
qed

text \<open>A connection to port \<open>dp\<close> of a node, with checksums.\<close>

lemma connect_fresh:
  assumes s: "sys_ok X w" and st: "c_state (conns w 0) = CONN_CLOSED" "qh_items (c_rx_queue (conns w 0)) = []"
    and dfl: "conn_dfl_so (csp_conf w) = 0"
  shows "\<exists>k. csp_connect prio dest dp t CSP_O_CRC32 w = (Some 0, set_conn 0 k (w\<lparr>csp_conn_last_given := 0\<rparr>)) \<and>
     sys_ok X (set_conn 0 k (w\<lparr>csp_conn_last_given := 0\<rparr>)) \<and> c_state k = CONN_OPEN \<and> c_type k = CONN_CLIENT \<and>
     idout k = \<lparr>pri = prio, flags = CSP_FCRC32, src = 0, dst = dest, dport = dp, sport = 33\<rparr> \<and> dport (idin k) = 33 \<and>
     dest_socket k = None \<and> c_opts k = CSP_O_CRC32 \<and> c_rx_queue k = c_rx_queue (conns w 0)"
proof -
  have e: "eff_opts w CSP_O_CRC32 = CSP_O_CRC32" "\<not> unsupported w CSP_O_CRC32" "opt_flags CSP_O_CRC32 = CSP_FCRC32"
    using dfl by (simp_all add: eff_opts_def unsupported_def opt_flags_def Let_def)
  have sp: "sport_outgoing (conns w 0) = 33" using s by (simp add: sys_ok_def net_ok_def conns_ok_def conn_ok_def)
  obtain k where k: "csp_connect prio dest dp t CSP_O_CRC32 w = (Some 0, set_conn 0 k (w\<lparr>csp_conn_last_given := 0\<rparr>))"
      "c_state k = CONN_OPEN" "c_type k = CONN_CLIENT" "idout k = \<lparr>pri = prio, flags = CSP_FCRC32, src = 0, dst = dest, dport = dp, sport = 33\<rparr>"
      "dport (idin k) = 33" "dest_socket k = None" "c_opts k = CSP_O_CRC32" "c_rx_queue k = c_rx_queue (conns w 0)"
    by (simp add: csp_connect_eq e conn_new_empty [OF st] set_conn_def sp)
  then show ?thesis using connect_ok(1) [OF s k(1)] by blast
qed

lemma get_room:
  assumes s: "sys_ok X w" and "2 \<le> csp_buffer_remaining w"
  shows "\<exists>p w'. csp_buffer_get w = (Some p, w') \<and> sys_ok (add_mset p X) w' \<and> undisturbed w w' \<and>
    csp_buffer_remaining w' + 1 = csp_buffer_remaining w"
proof -
  obtain x w' where g: "csp_buffer_get w = (x, w')" by fastforce
  then have a: "csp_buffer_get_actual 2 False w = (x, w')" by (simp add: csp_buffer_get_def)
  have i: "bufs_inv (X + held w) w" using s by (simp add: sys_ok_def own_inv_def)
  have "x \<noteq> None" using get_actual_None(2) [OF i, of 2 False w'] a assms(2) by (auto simp: remaining_free_list)
  moreover have "csp_buffer_remaining w' + 1 = csp_buffer_remaining w" if "x = Some b" for b
    using get_actual_Some(5) [OF i, of 2 False b w'] a that by (simp add: remaining_free_list)
  ultimately show ?thesis using sys_get(1) [OF s g] g undisturbed_get [OF a] by auto
qed

section \<open>The ends of a ping\<close>

text \<open>While a ping waits \<open>d\<close> milliseconds pass and the router runs twice.\<close>

definition later :: "u32 \<Rightarrow> ('a) csp_cn_scheme \<Rightarrow> ('a) csp_cn_scheme" where
  "later d w = w\<lparr>ms_from_boot := ms_from_boot w + d\<rparr>"

lemma sys_ok_later [simp]: "sys_ok X (later d w) = sys_ok X w"
proof -
  have "own_inv X (later d w) = own_inv X w"
    by (simp add: own_inv_def held_def later_def qf_refs_def qf_items_def pm_refs_def queues_ok_def qf_ok_def
        qf_entries_ok_def bufs_inv_def free_list_def pkt_def)
  moreover have "net_ok (later d w) = net_ok w"
    by (simp add: net_ok_def later_def ports_ok_def routes_ok_def dedup_ok_def conns_ok_def conn_ok_def socks_ok_def conn_less_def)
  ultimately show ?thesis by (simp add: sys_ok_def)
qed

lemma later_fields: "settings (later d w) = settings w" "pkt (later d w) p = pkt w p" "qf_items (later d w) = qf_items w"
  by (simp_all add: later_def settings_def pkt_def qf_items_def)

lemma settingsD:
  assumes "settings w' = settings w"
  shows "conns w' = conns w" "ports w' = ports w" "csp_conf w' = csp_conf w"
  using assms by (simp_all add: settings_def)

lemma echoes:
  assumes pl: "payload p = ping_data sz" and ok: "packet_ok p"
  shows "ping_echoed sz p"
  unfolding ping_echoed_def
proof (intro allI impI)
  fix i assume i: "i < unat sz"
  have n: "unat (p_length p) = unat sz" using arg_cong [OF pl, of length] ok by simp
  have "data_get i 1 p = mem_read (payload p) i 1"
    using i by (simp add: data_get_def payload_def mem_read_mem_read n)
  also have "\<dots> = [of_nat i]" using i by (simp add: pl mem_read_def ping_data_def drop_map take_map)
  also have "(of_nat i :: u8) = of_nat (i mod (0xff + 1))" by (simp add: word_unat_eq_iff unat_of_nat take_bit_eq_mod)
  finally show "data_get i 1 p = [of_nat (i mod (0xff + 1))]" .
qed

lemma ping_payload:
  assumes "packet_ok k" and "unat sz \<le> CSP_BUFFER_SIZE"
  shows "payload (data_put 0 (ping_data sz) (k\<lparr>p_length := sz\<rparr>)) = ping_data sz"
proof -
  have "packet_ok (k\<lparr>p_length := sz\<rparr>)" using assms by (simp add: packet_ok_def)
  from data_get_put_same [OF this, of 0 "ping_data sz"] show ?thesis
    using assms(2) by (simp add: payload_def data_get_def)
qed

lemma get_callback_ports: "ports w' = ports w \<Longrightarrow> csp_port_get_callback n w' = csp_port_get_callback n w"
  unfolding csp_port_get_callback_def by (simp only:)

lemma close_facts:
  "c_state (conns (snd (csp_close (Some c) w)) c) = CONN_CLOSED" "ms_from_boot (snd (csp_close (Some c) w)) = ms_from_boot w"
proof -
  obtain pl b e q where u: "csp_conn_flush_rx_queue c w = w\<lparr>pool := pl, csp_buffers := b, dbg_errno := e,
      conns := (conns w)(c := (conns w c)\<lparr>c_rx_queue := q\<rparr>)\<rparr>"
    using flush_upd by blast
  show "c_state (conns (snd (csp_close (Some c) w)) c) = CONN_CLOSED" "ms_from_boot (snd (csp_close (Some c) w)) = ms_from_boot w"
    by (simp_all add: csp_close_def csp_conn_close_eq set_conn_def set_errno_def u)
qed

lemma short_time:
  assumes "unat (d :: u32) < 2 ^ 15"
  shows "sint (ucast d :: u16) = int (unat d)"
proof -
  let ?x = "ucast d :: u16"
  have e: "unat ?x = unat d" using assms by (simp add: unsigned_ucast_eq take_bit_eq_mod)
  have "int (unat ?x) < int (2 ^ 15)" using assms by (simp only: e of_nat_less_iff)
  then have "- (2 ^ 15) \<le> uint ?x \<and> uint ?x < 2 ^ 15" by (simp add: order.trans [of _ "0 :: int"])
  then have "sint ?x = int (unat ?x)" by (simp add: sint_uint signed_take_bit_int_eq_self)
  then show ?thesis by (simp only: e)
qed

text \<open>\<open>csp_ping\<close> before the send: the connection and the packet.\<close>

lemma ping_prepares:
  assumes s: "sys_ok X w" and cfg: "conn_dfl_so (csp_conf w) = 0"
    and st: "c_state (conns w 0) = CONN_CLOSED" "qh_items (c_rx_queue (conns w 0)) = []"
    and room: "2 \<le> csp_buffer_remaining w" and fit: "unat sz \<le> CSP_BUFFER_SIZE"
  shows "\<exists>k w1 p w2 w3. csp_connect 2 dest 1 t CSP_O_CRC32 w = (Some 0, w1) \<and> csp_buffer_get w1 = (Some p, w2) \<and>
    w3 = set_pkt p (data_put 0 (ping_data sz) ((pkt w2 p)\<lparr>p_length := sz\<rparr>)) w2 \<and> sys_ok (add_mset p X) w3 \<and>
    undisturbed (set_conn 0 k w) w3 \<and> csp_buffer_remaining w3 + 1 = csp_buffer_remaining w \<and>
    payload (pkt w3 p) = ping_data sz \<and> p_length (pkt w3 p) = sz \<and> c_state k = CONN_OPEN \<and> c_type k = CONN_CLIENT \<and>
    idout k = \<lparr>pri = 2, flags = CSP_FCRC32, src = 0, dst = dest, dport = 1, sport = 33\<rparr> \<and>
    dport (idin k) = 33 \<and> dest_socket k = None \<and> c_opts k = CSP_O_CRC32 \<and> c_rx_queue k = c_rx_queue (conns w 0)"
proof -
  obtain k where k: "csp_connect 2 dest 1 t CSP_O_CRC32 w = (Some 0, set_conn 0 k (w\<lparr>csp_conn_last_given := 0\<rparr>))"
      "sys_ok X (set_conn 0 k (w\<lparr>csp_conn_last_given := 0\<rparr>))" "c_state k = CONN_OPEN" "c_type k = CONN_CLIENT"
      "idout k = \<lparr>pri = 2, flags = CSP_FCRC32, src = 0, dst = dest, dport = 1, sport = 33\<rparr>" "dport (idin k) = 33"
      "dest_socket k = None" "c_opts k = CSP_O_CRC32" "c_rx_queue k = c_rx_queue (conns w 0)"
    using connect_fresh [OF s st cfg, of 2 dest 1 t] by blast
  let ?w1 = "set_conn 0 k (w\<lparr>csp_conn_last_given := 0\<rparr>)"
  have f1: "csp_buffer_remaining ?w1 = csp_buffer_remaining w" "undisturbed (set_conn 0 k w) ?w1"
    by (simp_all add: set_conn_def csp_buffer_remaining_def undisturbed_def settings_def)
  obtain p w2 where g: "csp_buffer_get ?w1 = (Some p, w2)" "sys_ok (add_mset p X) w2" "undisturbed ?w1 w2"
      "csp_buffer_remaining w2 + 1 = csp_buffer_remaining ?w1"
    using get_room [OF k(2)] room(1) f1(1) by metis
  let ?m = "data_put 0 (ping_data sz) ((pkt w2 p)\<lparr>p_length := sz\<rparr>)"
  let ?w3 = "set_pkt p ?m w2"
  have s3: "sys_ok (add_mset p X) ?w3" using g(2) fit by (intro ping_packet_ok) simp_all
  have "packet_ok (pkt w2 p)" by (rule sys_packet [OF g(2)]) simp
  then have pl: "payload ?m = ping_data sz" "p_length ?m = sz" using fit by (intro ping_payload) (simp_all add: data_put_def)
  have "undisturbed (set_conn 0 k w) ?w3"
    by (rule undisturbed_trans [OF f1(2) undisturbed_trans [OF g(3)]]) simp
  moreover have "csp_buffer_remaining ?w3 + 1 = csp_buffer_remaining w"
    using g(4) f1(1) by (simp add: csp_buffer_remaining_def set_pkt_def)
  ultimately show ?thesis using k g(1) s3 pl by (intro exI conjI) (assumption | rule refl | simp add: frame_simps)+
qed

text \<open>\<open>csp_ping\<close> after the send: the echo is read and compared, the connection closed.\<close>

lemma ping_returns:
  assumes s: "sys_ok X w" and o: "c_state (conns w 0) = CONN_OPEN" and q: "qh_items (c_rx_queue (conns w 0)) = [p]"
    and pl: "payload (pkt w p) = ping_data sz" and ms: "ms_from_boot w = t0 + dl" "unat dl < 2 ^ 15"
  shows "\<exists>w7 w'. csp_read (Some 0) t w = (Some p, w7) \<and> ping_echoed sz (pkt w7 p) \<and>
    ping_out 0 t0 True (Some p) w7 = (int (unat dl), w') \<and> sys_ok X w' \<and> c_state (conns w' 0) = CONN_CLOSED"
proof -
  obtain q' where r: "csp_read (Some 0) t w = (Some p, set_conn 0 ((conns w 0)\<lparr>c_rx_queue := q'\<rparr>) w)" (is "_ = (_, ?w7)")
    using read_waiting [OF s _ o q, of t] by auto
  have s7: "sys_ok (add_mset p X) ?w7" using read_ok [OF s _ r] by simp
  have E: "ping_echoed sz (pkt ?w7 p)" using echoes [OF pl] sys_packet [OF s7, of p] by simp
  let ?w8 = "csp_buffer_free (Some p) ?w7"
  have "ms_from_boot (snd (csp_close (Some 0) ?w8)) = t0 + dl"
    using ms(1) by (simp add: close_facts frame_simps)
  moreover have "sint (ucast (t0 + dl - t0) :: u16) = int (unat dl)" using ms(2) by (simp add: short_time)
  ultimately have P: "ping_out 0 t0 True (Some p) ?w7 = (int (unat dl), snd (csp_close (Some 0) ?w8))"
    by (simp add: ping_out_def Let_def csp_get_ms_def)
  have "sys_ok X (snd (ping_out 0 t0 True (Some p) ?w7))" using s7 by (intro ping_out_ok) simp_all
  then show ?thesis using r E P close_facts(1) by (intro exI conjI) simp_all
qed

text \<open>The example node with the service handler on the ping port.\<close>

lemma ex_bound_ping:
  defines "w \<equiv> ex_bound (PORT_OPEN_CB CbService) 0"
  shows "csp_port_get_callback 1 w = Some CbService" "csp_conf w = boot_conf" "conns w 0 = ex_conn"
    "csp_buffer_remaining w = 7" "qf_items w = []"
proof -
  note base = ex_cn_def ex_pm_def ex_dd_def ex_ks_def csp_pm.defs csp_dd.defs csp_ks.defs
  note all = base ex_qf_def ex_rt_def ex_ifs3_def ex_ifs_def csp_qf.defs csp_rt.defs csp_ifs.defs csp_bufs.defs
  show "csp_port_get_callback 1 w = Some CbService"
    by (simp add: csp_port_get_callback_def w_def ex_bound_def ex_cn_fields)
  show "csp_conf w = boot_conf" by (simp add: w_def ex_bound_def) (simp add: all ready_bufs_def boot_bufs_def)
  show "conns w 0 = ex_conn" by (simp add: w_def ex_bound_def ex_cn_fields)
  have "free_list w = free_list ready_bufs" by (simp add: w_def ex_bound_def free_list_def) (simp add: all)
  then show "csp_buffer_remaining w = 7" by (simp add: remaining_free_list ready_bufs_fields)
  have "qfifo_queue_handle w = qfifo_queue_handle ex_qf" by (simp add: w_def ex_bound_def) (simp add: base csp_qf.defs)
  then show "qf_items w = []" using ex_qf_ok(2) by (simp add: qf_items_def)
qed

end
