(* ===== verification/Loopback.thy ===== *)
theory Loopback
  imports Journey
begin

text \<open>
  The whole way of a request and its reply: a node that pings its own loopback address. Connecting, sending,
  the loopback interface, two rounds of the router, the service handler, reading and closing are put
  together.
\<close>

section \<open>Over the loopback interface\<close>

definition own_loopback :: "('a) csp_cn_scheme \<Rightarrow> bool" where
  "own_loopback w \<longleftrightarrow> addr (ifaces w csp_if_lo) = 0 \<and> nexthop (ifaces w csp_if_lo) = NextLo \<and> csp_if_lo \<in> set (interfaces w)"

lemma own_loopback_settings: "settings w' = settings w \<Longrightarrow> own_loopback w' = own_loopback w"
  by (auto simp: own_loopback_def settings_def iface_cfg_def fun_eq_iff)

lemma transmit_lo:
  assumes "own_loopback w" and "qf_ok w" and "qf_items w = []"
  shows "settings (transmit drv p csp_if_lo via fm w) = settings w" "ms_from_boot (transmit drv p csp_if_lo via fm w) = ms_from_boot w"
    "pkt (transmit drv p csp_if_lo via fm w) p = pkt w p"
    "qf_items (transmit drv p csp_if_lo via fm w) = [\<lparr>qe_iface = Some csp_if_lo, qe_packet = Some p\<rparr>]"
proof -
  let ?w = "csp_qfifo_write (Some p) (Some csp_if_lo) False w"
  have t: "transmit drv p csp_if_lo via fm w = set_iface csp_if_lo ((ifaces ?w csp_if_lo)\<lparr>tx := tx (ifaces ?w csp_if_lo) + 1,
      txbytes := txbytes (ifaces ?w csp_if_lo) + ucast (p_length (pkt w p))\<rparr>) ?w"
    using assms(1) by (simp add: transmit_def call_nexthop_def csp_lo_tx_def own_loopback_def Let_def)
  have q: "length (qf_items w) < CSP_QFIFO_LEN" using assms(3) by simp
  show "settings (transmit drv p csp_if_lo via fm w) = settings w" by (simp add: t settings_set_iface frame_simps)
  show "pkt (transmit drv p csp_if_lo via fm w) p = pkt w p" by (simp add: t frame_simps)
  show "ms_from_boot (transmit drv p csp_if_lo via fm w) = ms_from_boot w"
    by (simp add: t frame_simps) (simp add: qfifo_write_room [OF assms(2) q])
  show "qf_items (transmit drv p csp_if_lo via fm w) = [\<lparr>qe_iface = Some csp_if_lo, qe_packet = Some p\<rparr>]"
    using qf_items_write(1) [OF assms(2), of p csp_if_lo False] assms(3) by (simp add: t qf_items_def frame_simps)
qed

lemma loop_send:
  fixes w :: "('a) csp_cn_scheme"
  assumes d: "transmitter drv" and s: "sys_ok (add_mset p X) w" and lo: "own_loopback w"
    and ref: "ref = IdOfPacket p \<or> (\<exists>c. ref = IdOut c)" and ident: "dst (id_at ref w) = 0" "flags (id_at ref w) = CSP_FCRC32"
    and fit: "unat (p_length (pkt w p)) + 4 \<le> CSP_BUFFER_SIZE" and q: "qf_items w = []"
  shows "\<exists>w'. csp_send_direct drv ref p None w = Some w' \<and> sys_ok X w' \<and> settings w' = settings w \<and> ms_from_boot w' = ms_from_boot w \<and>
     qf_items w' = [\<lparr>qe_iface = Some csp_if_lo, qe_packet = Some p\<rparr>] \<and> p_id (pkt w' p) = id_at ref w \<and>
     payload (pkt w' p) = with_crc (payload (pkt w p))"
proof -
  have own: "own_inv (add_mset p X) w" by (rule sys_ok_own [OF s])
  have ref': "\<And>b. ref = IdOfPacket b \<Longrightarrow> b = p" using ref by auto
  obtain v :: "('a) csp_cn_scheme" where v: "own_inv (add_mset p X) v" "undisturbed w v" "p_id (pkt v p) = id_at ref w"
      "payload (pkt v p) = with_crc (payload (pkt w p))"
      "csp_send_direct_iface drv ref p csp_if_lo CSP_NO_VIA_ADDRESS True w = Some (transmit drv p csp_if_lo CSP_NO_VIA_ADDRESS True v)"
    using send_iface_crc [OF own ident(2) ref' fit] by blast
  then have D: "csp_send_direct drv ref p None w = Some (transmit drv p csp_if_lo CSP_NO_VIA_ADDRESS True v)"
    using lo ident(1) by (simp add: csp_send_direct_def own_loopback_def)
  have lov: "own_loopback v" using lo own_loopback_settings v(2) by (auto simp: undisturbed_def)
  have "qf_items v = []" "qf_ok v" using q v(1,2) by (simp_all add: undisturbed_def qf_items_def own_inv_def queues_ok_def)
  note T = transmit_lo [OF lov this(2,1), of drv p CSP_NO_VIA_ADDRESS True]
  have "sys_ok X (transmit drv p csp_if_lo CSP_NO_VIA_ADDRESS True v)"
    using sys_send_direct [where ref = ref and rf = None, OF d s ref'] D by auto
  then show ?thesis using D T v(2-4) by (simp add: undisturbed_def)
qed

section \<open>A ping\<close>

text \<open>The answer of the service handler to a ping goes back over the loopback interface.\<close>

lemma ping_answered:
  assumes d: "transmitter drv" and s: "sys_ok (add_mset p X) u" and lo: "own_loopback u"
    and ident: "p_id (pkt u p) = \<lparr>pri = pr, flags = CSP_FCRC32, src = 0, dst = 0, dport = 1, sport = sp\<rparr>"
    and fit: "length (payload (pkt u p)) + 4 \<le> CSP_BUFFER_SIZE" and q: "qf_items u = []"
  shows "\<exists>w'. csp_service_handler drv h p u = Some w' \<and> sys_ok X w' \<and> settings w' = settings u \<and> ms_from_boot w' = ms_from_boot u \<and>
     qf_items w' = [\<lparr>qe_iface = Some csp_if_lo, qe_packet = Some p\<rparr>] \<and>
     p_id (pkt w' p) = \<lparr>pri = pr, flags = CSP_FCRC32, src = 0, dst = 0, dport = sp, sport = 1\<rparr> \<and>
     payload (pkt w' p) = with_crc (payload (pkt u p))"
proof -
  let ?i = "\<lparr>pri = pr, flags = CSP_FCRC32, src = 0, dst = 0, dport = sp, sport = 1\<rparr>"
  let ?v = "set_pkt p ((pkt u p)\<lparr>p_id := ?i\<rparr>) u"
  have ok: "packet_ok (pkt u p)" by (rule sys_packet [OF s]) simp
  have "csp_service_handler drv h p u = csp_send_direct drv (IdOfPacket p) p None ?v"
    using ident by (simp add: csp_service_handler_def sendto_reply_eq reply_id_def Let_def)
  moreover have "sys_ok (add_mset p X) ?v" using sys_set_pkt [OF s] ok by simp
  moreover have "settings ?v = settings u" "ms_from_boot ?v = ms_from_boot u" "qf_items ?v = []" "id_at (IdOfPacket p) ?v = ?i"
    "payload (pkt ?v p) = payload (pkt u p)"
    using q by (simp_all add: frame_simps qf_items_def payload_def)
  moreover have "own_loopback ?v" using lo own_loopback_settings calculation(3) by blast
  moreover have "unat (p_length (pkt ?v p)) + 4 \<le> CSP_BUFFER_SIZE" using fit ok by simp
  ultimately show ?thesis using loop_send [OF d, of p X ?v "IdOfPacket p"] by simp
qed

text \<open>The two rounds: the request is answered, the answer delivered to the connection that waits for it.\<close>

lemma ping_rounds:
  assumes d: "transmitter drv" and s: "sys_ok X w" and lo: "own_loopback w" and q: "qf_items w = [\<lparr>qe_iface = Some csp_if_lo, qe_packet = Some p\<rparr>]"
    and ident: "p_id (pkt w p) = \<lparr>pri = pr, flags = CSP_FCRC32, src = 0, dst = 0, dport = 1, sport = 33\<rparr>"
    and pl: "payload (pkt w p) = with_crc m" and fit: "length m + 4 \<le> CSP_BUFFER_SIZE"
    and svc: "csp_port_get_callback 1 w = Some CbService" and dd: "dedup (csp_conf w) = CSP_DEDUP_OFF"
    and k: "c_state (conns w 0) = CONN_OPEN" "c_type (conns w 0) = CONN_CLIENT" "dport (idin (conns w 0)) = 33"
      "dest_socket (conns w 0) = None" "c_opts (conns w 0) = CSP_O_CRC32"
      "qh_items (c_rx_queue (conns w 0)) = []" "0 < qh_cap (c_rx_queue (conns w 0))"
  shows "\<exists>w'. router_env drv (node_callbacks drv h app) (router_env drv (node_callbacks drv h app) w) = w' \<and> sys_ok X w' \<and>
     ms_from_boot w' = ms_from_boot w \<and> qh_items (c_rx_queue (conns w' 0)) = [p] \<and> c_state (conns w' 0) = CONN_OPEN \<and>
     payload (pkt w' p) = m"
proof -
  let ?cb = "node_callbacks drv h app"
  have a: "arrives w csp_if_lo p"
    using ident lo by (intro arrives_here [of csp_if_lo] q dd) (simp_all add: own_loopback_def)
  have "accepted CSP_SO_CRC32REQ w p = Some m" using ident by (intro passes_crc pl) simp_all
  moreover have "csp_port_get_callback (unat (dport (p_id (pkt w p)))) w = Some CbService" using svc ident by simp
  ultimately obtain u where u: "csp_route_work drv ?cb w = map_option (Pair CSP_ERR_NONE) (?cb CbService p u)" "sys_ok (add_mset p X) u"
      "settings u = settings w" "ms_from_boot u = ms_from_boot w" "qf_items u = []" "p_id (pkt u p) = p_id (pkt w p)" "payload (pkt u p) = m"
    using round_calls [OF s a q, where drv = drv and calls = ?cb] by blast
  have lou: "own_loopback u" using lo own_loopback_settings [OF u(3)] by simp
  obtain v where v: "csp_service_handler drv h p u = Some v" "sys_ok X v" "settings v = settings u" "ms_from_boot v = ms_from_boot u"
      "qf_items v = [\<lparr>qe_iface = Some csp_if_lo, qe_packet = Some p\<rparr>]"
      "p_id (pkt v p) = \<lparr>pri = pr, flags = CSP_FCRC32, src = 0, dst = 0, dport = 33, sport = 1\<rparr>" "payload (pkt v p) = with_crc m"
    using ping_answered [OF d u(2) lou, of pr 33 h] ident fit u(5-7) by auto
  have r1: "router_env drv ?cb w = v" using u(1) v(1) by (simp add: router_env_def node_callbacks_def)
  note V = settingsD [OF v(3)] and U = settingsD [OF u(3)]
  have lov: "own_loopback v" using lou own_loopback_settings [OF v(3)] by simp
  have av: "arrives v csp_if_lo p" 
    using v(6) dd lov by (intro arrives_here [of csp_if_lo] v(5)) (simp_all add: V U own_loopback_def)
  have "accepted (c_opts (conns v 0)) v p = Some m" using v(6) k(5) by (intro passes_crc v(7)) (simp_all add: V U)
  moreover have "csp_conn_find_existing (p_id (pkt v p)) v = Some 0"
    using k(1-3) by (simp add: csp_conn_find_existing_def V U v(6))
  ultimately obtain x where "csp_route_work drv ?cb v = Some (CSP_ERR_NONE, x)" "sys_ok X x" "ms_from_boot x = ms_from_boot v"
      "qh_items (c_rx_queue (conns x 0)) = [p]" "c_state (conns x 0) = CONN_OPEN" "payload (pkt x p) = m"
    using round_delivers [OF v(2) av v(5), where drv = drv and calls = ?cb] v(6) k(4,6,7) by (auto simp: V U)
  then show ?thesis using r1 u(4) v(4) by (simp add: router_env_def)
qed

text \<open>\<open>csp_ping\<close> up to the send: connection, packet and the frame in the router's queue.\<close>

lemma ping_sends:
  assumes d: "transmitter drv" and s: "sys_ok X w" and lo: "own_loopback w" and cfg: "conn_dfl_so (csp_conf w) = 0"
    and st: "c_state (conns w 0) = CONN_CLOSED" "qh_items (c_rx_queue (conns w 0)) = []"
    and room: "2 \<le> csp_buffer_remaining w" "qf_items w = []" and fit: "unat sz + 4 \<le> CSP_BUFFER_SIZE"
  shows "\<exists>k w1 p w2 w4. csp_connect 2 0 1 t CSP_O_CRC32 w = (Some 0, w1) \<and> csp_buffer_get w1 = (Some p, w2) \<and>
    csp_send drv (Some 0) (Some p) (set_pkt p (data_put 0 (ping_data sz) ((pkt w2 p)\<lparr>p_length := sz\<rparr>)) w2) = Some w4 \<and>
    sys_ok X w4 \<and> settings w4 = settings (set_conn 0 k w) \<and> ms_from_boot w4 = ms_from_boot w \<and>
    qf_items w4 = [\<lparr>qe_iface = Some csp_if_lo, qe_packet = Some p\<rparr>] \<and>
    p_id (pkt w4 p) = \<lparr>pri = 2, flags = CSP_FCRC32, src = 0, dst = 0, dport = 1, sport = 33\<rparr> \<and>
    payload (pkt w4 p) = with_crc (ping_data sz) \<and> c_state k = CONN_OPEN \<and> c_type k = CONN_CLIENT \<and>
    dport (idin k) = 33 \<and> dest_socket k = None \<and> c_opts k = CSP_O_CRC32 \<and> c_rx_queue k = c_rx_queue (conns w 0)"
proof -
  have room': "unat sz \<le> CSP_BUFFER_SIZE" using fit by simp
  obtain k w1 p w2 w3 where k: "csp_connect 2 0 1 t CSP_O_CRC32 w = (Some 0, w1)" and g: "csp_buffer_get w1 = (Some p, w2)"
    and w3: "w3 = set_pkt p (data_put 0 (ping_data sz) ((pkt w2 p)\<lparr>p_length := sz\<rparr>)) w2" "sys_ok (add_mset p X) w3"
      "undisturbed (set_conn 0 k w) w3" "payload (pkt w3 p) = ping_data sz" "p_length (pkt w3 p) = sz"
    and k0: "c_state k = CONN_OPEN" "c_type k = CONN_CLIENT"
      "idout k = \<lparr>pri = 2, flags = CSP_FCRC32, src = 0, dst = 0, dport = 1, sport = 33\<rparr>" "dport (idin k) = 33"
      "dest_socket k = None" "c_opts k = CSP_O_CRC32" "c_rx_queue k = c_rx_queue (conns w 0)"
    using ping_prepares [OF s cfg st room(1) room', of 0 t] by blast
  have S3: "settings w3 = settings (set_conn 0 k w)" "ms_from_boot w3 = ms_from_boot w" "qf_items w3 = []"
    using w3(3) room(2) by (simp_all add: undisturbed_def qf_items_def set_conn_def)
  note C3 = settingsD [OF S3(1)]
  have c0: "conns w3 0 = k" using C3(1) by (simp add: set_conn_def)
  have lo3: "own_loopback w3" using lo own_loopback_settings [OF S3(1)] by (simp add: own_loopback_def set_conn_def)
  obtain w4 where w4: "csp_send_direct drv (IdOut 0) p None w3 = Some w4" "sys_ok X w4" "settings w4 = settings w3"
      "ms_from_boot w4 = ms_from_boot w3" "qf_items w4 = [\<lparr>qe_iface = Some csp_if_lo, qe_packet = Some p\<rparr>]"
      "p_id (pkt w4 p) = idout k" "payload (pkt w4 p) = with_crc (ping_data sz)"
    using loop_send [OF d w3(2) lo3, of "IdOut 0"] S3(3) fit w3(4,5) k0(3) by (auto simp: c0)
  have "csp_send drv (Some 0) (Some p) w3 = Some w4" using w4(1) k0(1) by (simp add: csp_send_def c0)
  then show ?thesis using k g w3(1) k0 w4 S3(1,2) by (intro exI conjI) (assumption | simp)+
qed

section \<open>Properties\<close>

text \<open>
  \<^bold>\<open>Claim C6.\<close> A node can ping itself: when the service handler is bound to the ping port, a connection and
  two buffers are free, the router's queue is empty, duplicates are not looked for and the payload leaves
  room for the checksum, then a ping with checksum to the loopback address, while the router runs twice,
  is answered, and \<open>csp_ping\<close> returns the milliseconds that have passed. Nothing is lost on the way through
  connection, loopback interface, router, service handler and back.
\<close>

theorem ping_over_loopback:
  assumes d: "transmitter drv" and s: "sys_ok X w" and lo: "own_loopback w"
    and svc: "csp_port_get_callback 1 w = Some CbService"
    and cfg: "conn_dfl_so (csp_conf w) = 0" "dedup (csp_conf w) = CSP_DEDUP_OFF"
    and st: "c_state (conns w 0) = CONN_CLOSED" "qh_items (c_rx_queue (conns w 0)) = []" "0 < qh_cap (c_rx_queue (conns w 0))"
    and room: "2 \<le> csp_buffer_remaining w" "qf_items w = []" and fit: "unat sz + 4 \<le> CSP_BUFFER_SIZE" and ms: "unat dl < 2 ^ 15"
  shows "\<exists>w'. csp_ping drv (\<lambda>v. router_env drv (node_callbacks drv h app) (router_env drv (node_callbacks drv h app) (later dl v)))
       0 t sz 0x40 w = Some (int (unat dl), w') \<and> sys_ok X w' \<and> c_state (conns w' 0) = CONN_CLOSED"
proof -
  let ?env = "\<lambda>v. router_env drv (node_callbacks drv h app) (router_env drv (node_callbacks drv h app) (later dl v))"
  obtain k w1 p w2 w4 where k: "csp_connect 2 0 1 t CSP_O_CRC32 w = (Some 0, w1)" and g: "csp_buffer_get w1 = (Some p, w2)"
    and sd: "csp_send drv (Some 0) (Some p) (set_pkt p (data_put 0 (ping_data sz) ((pkt w2 p)\<lparr>p_length := sz\<rparr>)) w2) = Some w4"
    and w4: "sys_ok X w4" "settings w4 = settings (set_conn 0 k w)" "ms_from_boot w4 = ms_from_boot w"
      "qf_items w4 = [\<lparr>qe_iface = Some csp_if_lo, qe_packet = Some p\<rparr>]"
      "p_id (pkt w4 p) = \<lparr>pri = 2, flags = CSP_FCRC32, src = 0, dst = 0, dport = 1, sport = 33\<rparr>"
      "payload (pkt w4 p) = with_crc (ping_data sz)"
    and k0: "c_state k = CONN_OPEN" "c_type k = CONN_CLIENT" "dport (idin k) = 33" "dest_socket k = None"
      "c_opts k = CSP_O_CRC32" "c_rx_queue k = c_rx_queue (conns w 0)"
    using ping_sends [OF d s lo cfg(1) st(1,2) room fit, of t] by blast
  let ?w5 = "later dl w4"
  have S5: "settings ?w5 = settings (set_conn 0 k w)" using w4(2) by (simp add: later_fields)
  note C5 = settingsD [OF S5]
  have f: "conns (set_conn 0 k w) 0 = k" "ports (set_conn 0 k w) = ports w" "own_loopback (set_conn 0 k w)"
      "csp_conf (set_conn 0 k w) = csp_conf w"
    using lo by (simp_all add: set_conn_def own_loopback_def)
  have "conns ?w5 0 = k" using C5(1) f(1) by simp
  moreover have "csp_port_get_callback 1 ?w5 = Some CbService" using svc f(2) C5(2) get_callback_ports by metis
  moreover have "own_loopback ?w5" using own_loopback_settings [OF S5] f(3) by simp
  moreover have "dedup (csp_conf ?w5) = CSP_DEDUP_OFF" using C5(3) f(4) cfg(2) by simp
  ultimately obtain w6 where w6: "?env w4 = w6" "sys_ok X w6" "ms_from_boot w6 = ms_from_boot ?w5"
      "qh_items (c_rx_queue (conns w6 0)) = [p]" "c_state (conns w6 0) = CONN_OPEN" "payload (pkt w6 p) = ping_data sz"
    using ping_rounds [OF d, of X ?w5 p 2 "ping_data sz" h app] w4(1,4-6) k0 st(2,3) fit by (auto simp: later_fields)
  have "ms_from_boot w6 = ms_from_boot w + dl" using w6(3) w4(3) by (simp add: later_def)
  then obtain w7 w' where r: "csp_read (Some 0) t w6 = (Some p, w7)" "ping_echoed sz (pkt w7 p)"
      "ping_out 0 (ms_from_boot w) True (Some p) w7 = (int (unat dl), w')" "sys_ok X w'" "c_state (conns w' 0) = CONN_CLOSED"
    using ping_returns [OF w6(2,5,4,6) _ ms] by blast
  then show ?thesis using fit k g sd w6(1) by (simp add: csp_ping_def Let_def csp_get_ms_def)
qed

lemma ex_bound_loopback: "own_loopback (ex_bound (PORT_OPEN_CB CbService) 0)"
  by (simp add: own_loopback_def ex_bound_def)
    (simp add: ex_cn_def ex_pm_def ex_dd_def ex_ks_def ex_qf_def ex_rt_def ex_ifs3_def ex_ifs_def csp_pm.defs csp_dd.defs csp_ks.defs
      csp_qf.defs csp_rt.defs csp_ifs.defs csp_bufs.defs ex_ifaces_def no_iface_def)

theorem ping_over_loopback_witness:
  "\<exists>w'. csp_ping csp_lo_tx (\<lambda>v. router_env csp_lo_tx (node_callbacks csp_lo_tx ex_hooks drop_all)
         (router_env csp_lo_tx (node_callbacks csp_lo_tx ex_hooks drop_all) (later 12 v)))
       0 1000 100 0x40 (ex_bound (PORT_OPEN_CB CbService) 0) = Some (12, w') \<and> sys_ok {#0#} w' \<and> c_state (conns w' 0) = CONN_CLOSED"
  using ping_over_loopback [OF nlo.transmitter_axioms ex_bound_sys ex_bound_loopback ex_bound_ping(1), of 100 12 ex_hooks drop_all 1000]
  by (simp add: ex_bound_ping(2-5) boot_conf_def ex_conn_def new_queue_facts)

end
