(* ===== verification/Kiss_Node.thy ===== *)
theory Kiss_Node
  imports Journey Kiss_Link
begin

text \<open>
  The KISS interface as part of a running node: bytes that arrive on the line, in any number and at any time,
  keep the invariant of the whole node, and what the node sends through a KISS interface is on the line as
  the frame of the packet.
\<close>

section \<open>What the receiver leaves alone\<close>

definition rx_frame :: "('a) csp_cn_scheme \<Rightarrow> ('a) csp_cn_scheme \<Rightarrow> bool" where
  "rx_frame w w' \<longleftrightarrow> settings w' = settings w \<and> csp_promisc_queue w' = csp_promisc_queue w \<and>
     ms_from_boot w' = ms_from_boot w \<and> line_out w' = line_out w \<and> (qf_entries_ok w \<longrightarrow> qf_entries_ok w')"

lemma rx_frame_refl [simp]: "rx_frame w w"
  by (simp add: rx_frame_def)

lemma rx_frame_trans: "rx_frame w w1 \<Longrightarrow> rx_frame w1 w2 \<Longrightarrow> rx_frame w w2"
  by (simp add: rx_frame_def)

lemma rx_frame_set_kiss [simp]: "rx_frame w (set_kiss d k w)"
  by (simp add: rx_frame_def qf_entries_ok_def frame_simps) (simp add: set_kiss_def settings_def)

lemma rx_frame_set_pkt [simp]: "rx_frame w (set_pkt b k w)"
  by (simp add: rx_frame_def qf_entries_ok_def frame_simps)

lemma rx_frame_set_iface: "iface_cfg f = iface_cfg (ifaces w i) \<Longrightarrow> rx_frame w (set_iface i f w)"
  by (simp add: rx_frame_def qf_entries_ok_def frame_simps settings_set_iface)

lemma rx_frame_get: "csp_buffer_get_actual r isr w = (x, w') \<Longrightarrow> rx_frame w w'"
  using get_actual_held(3) [of r isr w x w']
  by (simp add: rx_frame_def qf_entries_ok_def qf_items_def) (subst get_actual_more, assumption, simp)+

lemma rx_frame_get_always:
  assumes "(if isr then csp_buffer_get_always_isr w else csp_buffer_get_always w) = Some (b, w')"
  shows "rx_frame w w'"
proof -
  obtain x where "csp_buffer_get_actual 0 isr w = (x, w')"
    using assms by (cases isr) (auto simp: csp_buffer_get_always_def csp_buffer_get_always_isr_def split: prod.splits option.splits)
  then show ?thesis by (rule rx_frame_get)
qed

lemma rx_frame_qfifo: "rx_frame w (csp_qfifo_write (Some b) (Some i) isr w)" if "qf_ok w"
proof -
  obtain e n pl q f h where u: "csp_qfifo_write (Some b) (Some i) isr w = w\<lparr>dbg_errno := e, dbg_conn_ovf := n, pool := pl,
      csp_buffers := q, ifaces := f, qfifo_queue_handle := h\<rparr>" (is "?w = _")
    using qfifo_write_upd by blast
  have "csp_promisc_queue ?w = csp_promisc_queue w" "ms_from_boot ?w = ms_from_boot w" "line_out ?w = line_out w"
    by (simp_all add: u)
  moreover have "qf_entries_ok w \<longrightarrow> qf_entries_ok ?w"
    using qf_items_write(1) [OF that, of b i isr] by (simp add: qf_entries_ok_def elem_ok_def)
  ultimately show ?thesis by (simp add: rx_frame_def frame_simps)
qed

lemma iface_cfg_frame [simp]: "iface_cfg (f\<lparr>frame := n\<rparr>) = iface_cfg f"
  by (simp add: iface_cfg_def)

lemma rx_store_frame: "rx_store d x w = Inr w' \<Longrightarrow> rx_frame w w'"
  using rx_frame_trans [OF rx_frame_set_pkt rx_frame_set_kiss]
  by (auto simp: rx_store_def Let_def split: option.splits)

lemma rx_not_started_frame:
  assumes "rx_not_started isr i d x w = Inr w'"
  shows "rx_frame w w'"
proof (cases "x = FEND")
  case False
  then show ?thesis using assms by (simp add: rx_not_started_def)
next
  case True
  obtain v where v: "(if rx_packet (kiss w d) = None then
      (case (if isr then csp_buffer_get_always_isr w else csp_buffer_get_always w) of
         None \<Rightarrow> Inl NoReturn | Some (b, w) \<Rightarrow> Inr (set_kiss d ((kiss w d)\<lparr>rx_packet := Some b\<rparr>) w))
      else Inr w) = Inr v"
    using assms True by (auto simp: rx_not_started_def split: sum.splits)
  then have "rx_frame w v"
    using rx_frame_trans [OF rx_frame_get_always [of True, simplified] rx_frame_set_kiss]
      rx_frame_trans [OF rx_frame_get_always [of False, simplified] rx_frame_set_kiss]
    by (auto split: if_splits option.splits)
  moreover have "rx_frame v w'"
  proof (cases "rx_packet (kiss v d)")
    case None
    have "rx_frame v (set_iface i ((ifaces v i)\<lparr>drop_ctr := drop_ctr (ifaces v i) + 1\<rparr>) (set_kiss d k v))" for k
      by (rule rx_frame_trans [OF rx_frame_set_kiss rx_frame_set_iface]) (simp add: frame_simps)
    then show ?thesis using assms True v None by (auto simp: rx_not_started_def Let_def frame_simps)
  next
    case (Some b)
    then show ?thesis using assms True v rx_frame_trans [OF rx_frame_set_pkt rx_frame_set_kiss]
      by (auto simp: rx_not_started_def Let_def)
  qed
  ultimately show ?thesis by (rule rx_frame_trans)
qed

lemma rx_bad_frame_frame: "rx_frame w (rx_bad_frame i d w)"
  unfolding rx_bad_frame_def by (rule rx_frame_trans [OF rx_frame_set_iface rx_frame_set_kiss]) simp

lemma rx_accept_frame:
  assumes "rx_accept isr i d b w = Inr w'" and "qf_ok w"
  shows "rx_frame w w'"
proof -
  have p3: "rx_frame w (set_pkt b k3 (set_pkt b k2 (set_pkt b k1 w)))" for k1 k2 k3
    by (rule rx_frame_trans [OF rx_frame_set_pkt rx_frame_trans [OF rx_frame_set_pkt rx_frame_set_pkt]])
  have p2: "rx_frame w (set_pkt b k2 (set_pkt b k1 w))" for k1 k2
    by (rule rx_frame_trans [OF rx_frame_set_pkt rx_frame_set_pkt])
  have q: "rx_frame w (set_kiss d k (csp_qfifo_write (Some b) (Some i) isr (set_pkt b k3 (set_pkt b k2 (set_pkt b k1 w)))))" for k k1 k2 k3
    using assms(2) by (intro rx_frame_trans [OF p3 rx_frame_trans [OF rx_frame_qfifo rx_frame_set_kiss]]) (simp add: frame_simps)
  show ?thesis
    using assms(1) q rx_frame_trans [OF p3 rx_bad_frame_frame] rx_frame_trans [OF p2 rx_bad_frame_frame]
    by (auto simp: rx_accept_def Let_def split: option.splits prod.splits if_splits)
qed

lemma kiss_rx_byte_frame:
  assumes "kiss_rx_byte isr i d x w = Inr w'" and q: "qf_ok w"
  shows "rx_frame w w'"
proof -
  define v where "v = (if rx_overrun d w then
                 set_kiss d ((kiss w d)\<lparr>rx_mode := KISS_MODE_NOT_STARTED, rx_length := 0\<rparr>)
                   (set_iface i ((ifaces w i)\<lparr>rx_error := rx_error (ifaces w i) + 1\<rparr>) w)
               else w)"
  have f: "rx_frame w v"
    unfolding v_def by (auto intro!: rx_frame_trans [OF rx_frame_set_iface rx_frame_set_kiss])
  have qv: "qf_ok v" using q by (simp add: v_def frame_simps)
  have "rx_frame v w'"
    using assms(1) rx_not_started_frame [of isr i d x v w'] rx_accept_frame [OF _ qv, of isr i d] rx_store_frame
      rx_frame_trans [OF rx_store_frame rx_frame_set_kiss]
    unfolding kiss_rx_byte_def Let_def v_def [symmetric]
    by (auto simp: rx_started_def rx_escaped_def split: csp_kiss_mode.splits if_splits option.splits sum.splits)
  then show ?thesis by (rule rx_frame_trans [OF f])
qed

section \<open>The receiver and the node's invariant\<close>

text \<open>The packet being received is one more reference that somebody outside the queues holds.\<close>

definition receiving :: "nat multiset \<Rightarrow> nat \<Rightarrow> ('a) csp_cn_scheme \<Rightarrow> bool" where
  "receiving X d w \<longleftrightarrow> sys_ok (X + kiss_ref d w) w \<and> kiss_ok d w"

definition other_refs :: "('a) csp_cn_scheme \<Rightarrow> nat multiset" where
  "other_refs w = pm_refs w + cn_refs (conns w) + so_refs (n_sockets w) (sockets w)"

lemma receiving_split:
  "receiving X d w \<longleftrightarrow> kiss_inv (X + other_refs w) d w \<and> queues_ok w \<and> net_ok w"
  by (auto simp: receiving_def kiss_inv_def sys_ok_def own_inv_def held_def other_refs_def queues_ok_def ac_simps)

lemma receiving_idle: "rx_idle d w \<Longrightarrow> receiving X d w \<longleftrightarrow> sys_ok X w"
  by (simp add: receiving_def rx_idle_def kiss_ref_def kiss_ok_def Let_def)

lemma rx_frame_other:
  assumes "rx_frame w w'"
  shows "other_refs w' = other_refs w" "net_ok w \<Longrightarrow> net_ok w'"
proof -
  have "kept {} w w'" using assms by (simp add: kept_def rx_frame_def)
  then show "net_ok w \<Longrightarrow> net_ok w'" by (rule net_ok_kept)
  show "other_refs w' = other_refs w" using assms by (simp add: rx_frame_def settings_def other_refs_def pm_refs_def)
qed

lemma receiving_frame:
  assumes r: "receiving X d w" and f: "rx_frame w w'" and k: "kiss_inv (X + other_refs w) d w'"
  shows "receiving X d w'"
proof -
  have q: "queues_ok w" and n: "net_ok w" using r by (simp_all add: receiving_split)
  have "queues_ok w'"
    using q f k by (simp add: queues_ok_def kiss_inv_def rx_frame_def settings_def)
  then show ?thesis using k rx_frame_other [OF f] n by (simp add: receiving_split)
qed

lemma rx_loop_node:
  "receiving X d w \<Longrightarrow> kiss_rx_loop isr i d bytes w = Inr w' \<Longrightarrow> receiving X d w' \<and> rx_frame w w'"
proof (induction bytes arbitrary: w)
  case (Cons x xs)
  obtain w1 where b: "kiss_rx_byte isr i d x w = Inr w1" and l: "kiss_rx_loop isr i d xs w1 = Inr w'"
    using Cons.prems(2) by (auto split: sum.splits)
  have inv: "kiss_inv (X + other_refs w) d w" and "qf_ok w" using Cons.prems(1) by (simp_all add: receiving_split kiss_inv_def)
  have f: "rx_frame w w1" by (rule kiss_rx_byte_frame [OF b \<open>qf_ok w\<close>])
  have "kiss_inv (X + other_refs w) d w1" using kiss_rx_byte_ok [OF inv, of isr i x] by (simp add: b)
  from Cons.IH [OF receiving_frame [OF Cons.prems(1) f this] l] show ?case using rx_frame_trans [OF f] by blast
qed simp

lemma kiss_rx_node:
  assumes "receiving X d w" and "interface_data (ifaces w i) = Some d" and "csp_kiss_rx i bytes isr w = Inr w'"
  shows "receiving X d w'" and "rx_frame w w'"
  using rx_loop_node [OF assms(1)] assms(2,3) by (auto simp: csp_kiss_rx_def)

text \<open>
  \<^bold>\<open>Claim C9.\<close> Bytes on a serial line never harm the node: whatever arrives, in whatever pieces, the KISS
  receiver keeps the invariant of the whole node, with the packet in progress as the receiver's reference,
  and leaves configuration, routes, ports, sockets and connections as they were. It stops only for lack of
  a buffer, when a frame begins.
\<close>

theorem kiss_rx_keeps_node:
  assumes "receiving X d w" and d: "interface_data (ifaces w i) = Some d"
  shows "case csp_kiss_rx i bytes isr w of
     Inr w' \<Rightarrow> receiving X d w' \<and> settings w' = settings w
   | Inl e \<Rightarrow> e = NoReturn \<and> (\<exists>ys x zs w'. bytes = ys @ x # zs \<and> csp_kiss_rx i ys isr w = Inr w' \<and>
                 receiving X d w' \<and> csp_buffer_remaining w' = 0)"
proof (cases "csp_kiss_rx i bytes isr w")
  case (Inr w')
  then show ?thesis using kiss_rx_node [OF assms] by (simp add: rx_frame_def)
next
  case (Inl e)
  have inv: "kiss_inv (X + other_refs w) d w" using assms(1) by (simp add: receiving_split)
  have "km.run isr i d bytes w = Inl e" using Inl d by (simp add: csp_kiss_rx_def kiss_rx_loop_run)
  from km.run_stop [OF inv this] obtain ys x zs w' where r: "bytes = ys @ x # zs" "km.run isr i d ys w = Inr w'"
      "e = NoReturn \<and> csp_buffer_remaining w' = 0" by blast
  then have y: "csp_kiss_rx i ys isr w = Inr w'" using d by (simp add: csp_kiss_rx_def kiss_rx_loop_run)
  show ?thesis unfolding Inl sum.case using r(1,3) y kiss_rx_node(1) [OF assms y] by blast
qed

lemma ex_cn_line: "ifaces ex_cn = ex_ifaces" "interfaces ex_cn = [0, 1, 2]" "rx_idle 0 ex_cn" "interface_data (ex_ifaces 1) = Some 0"
proof -
  note all = ex_cn_def ex_pm_def ex_dd_def csp_pm.defs csp_dd.defs ex_ks_def ex_qf_def ex_rt_def ex_ifs3_def ex_ifs_def csp_ks.defs csp_qf.defs csp_rt.defs csp_ifs.defs csp_bufs.defs
  show "ifaces ex_cn = ex_ifaces" "interfaces ex_cn = [0, 1, 2]" by (simp_all add: all)
  show "rx_idle 0 ex_cn" by (simp add: all rx_idle_def)
  show "interface_data (ex_ifaces 1) = Some 0" by (simp add: ex_ifaces_def)
qed

theorem kiss_rx_keeps_node_witness:
  "case csp_kiss_rx 1 [0x33, FEND, TNC_DATA, FESC, 0x01, FEND] False ex_cn of
     Inr w' \<Rightarrow> receiving {#0#} 0 w' \<and> settings w' = settings ex_cn
   | Inl e \<Rightarrow> e = NoReturn \<and> (\<exists>ys x zs w'. [0x33, FEND, TNC_DATA, FESC, 0x01, FEND] = ys @ x # zs \<and>
       csp_kiss_rx 1 ys False ex_cn = Inr w' \<and> receiving {#0#} 0 w' \<and> csp_buffer_remaining w' = 0)"
proof -
  have r: "receiving {#0#} 0 ex_cn" using receiving_idle [OF ex_cn_line(3), of "{#0#}"] ex_cn_sys(1) by blast
  have d: "interface_data (ifaces ex_cn 1) = Some 0" by (simp only: ex_cn_line(1,4))
  show ?thesis by (rule kiss_rx_keeps_node [OF r d])
qed

section \<open>Sending through a KISS interface\<close>

lemma kiss_tx_frame:
  fixes w :: "('a) csp_cn_scheme"
  assumes "csp_kiss_tx i via p fm w = (r, w')"
  shows "qfifo_queue_handle w' = qfifo_queue_handle w" "ms_from_boot w' = ms_from_boot w" "kiss w' = kiss w"
    "csp_promisc_queue w' = csp_promisc_queue w"
proof -
  define same where "same = (\<lambda>(u :: 'a csp_cn_scheme) (v :: 'a csp_cn_scheme). qfifo_queue_handle v = qfifo_queue_handle u \<and>
     ms_from_boot v = ms_from_boot u \<and> kiss v = kiss u \<and> csp_promisc_queue v = csp_promisc_queue u)"
  have step: "same u (set_pkt b k u)" "same u (tx_func v bs u)" for u b k v bs
    by (simp_all add: same_def frame_simps set_pkt_def tx_func_def)
  have free: "same u (csp_buffer_free x u)" for u x
    by (simp add: same_def frame_simps)
  have trans: "same u v \<Longrightarrow> same v x \<Longrightarrow> same u x" for u v x by (simp add: same_def)
  have loop: "same u (kiss_tx_loop v bs u)" for v bs u
  proof (induction bs arbitrary: u)
    case (Cons b bs)
    then show ?case using trans [OF step(2) Cons.IH] by simp
  qed (simp add: same_def)
  have "same w w'"
    using assms unfolding csp_kiss_tx_def Let_def
    by (auto intro: trans [OF trans [OF trans [OF trans [OF trans [OF step(1) step(1)] step(2)] loop] step(2)] free])
  then show "qfifo_queue_handle w' = qfifo_queue_handle w" "ms_from_boot w' = ms_from_boot w" "kiss w' = kiss w"
    "csp_promisc_queue w' = csp_promisc_queue w" by (simp_all add: same_def)
qed

text \<open>What a transmission leaves as it was, and what it puts on line \<open>l\<close>.\<close>

definition put_on_line :: "nat option \<Rightarrow> u8 list \<Rightarrow> ('a) csp_cn_scheme \<Rightarrow> ('a) csp_cn_scheme \<Rightarrow> bool" where
  "put_on_line l bytes w w' \<longleftrightarrow>
     settings w' = settings w \<and> qfifo_queue_handle w' = qfifo_queue_handle w \<and> ms_from_boot w' = ms_from_boot w \<and>
     kiss w' = kiss w \<and> (\<not> use_promisc w \<longrightarrow> csp_promisc_queue w' = csp_promisc_queue w) \<and>
     line_out w' = (line_out w)(l := line_out w l @ bytes)"

lemma put_on_line_frame:
  "undisturbed w w1 \<Longrightarrow> put_on_line l bytes w1 w2 \<Longrightarrow> put_on_line l bytes w w2"
  "put_on_line l bytes w w1 \<Longrightarrow> undisturbed w1 w2 \<Longrightarrow> put_on_line l bytes w w2"
  using settings_use_promisc [of w1 w] by (auto simp: undisturbed_def put_on_line_def)

lemma transmit_kiss:
  assumes "own_inv (add_mset p X) w" and "nexthop (ifaces w i) = NextKiss"
  shows "put_on_line (driver_data (ifaces w i)) (kiss_line (sent_frame (version (csp_conf w)) (pkt w p))) w
    (transmit drv p i via fm w)"
proof -
  obtain r w' where t: "csp_kiss_tx i via p fm w = (r, w')" by fastforce
  note K = csp_kiss_tx_own [OF assms(1) t]
  have "packet_ok (pkt w p)" using own_packet [OF assms(1)] by simp
  note L = csp_kiss_tx_line [OF this t]
  have "put_on_line (driver_data (ifaces w i)) (kiss_line (sent_frame (version (csp_conf w)) (pkt w p))) w w'"
    using L(2) K(3) kiss_tx_frame [OF t] by (simp add: put_on_line_def kept_def)
  then have "put_on_line (driver_data (ifaces w i)) (kiss_line (sent_frame (version (csp_conf w)) (pkt w p))) w
      (set_iface i ((ifaces w' i)\<lparr>tx := n, txbytes := m\<rparr>) w')" for n m
    by (rule put_on_line_frame(2)) simp
  then show ?thesis using t K(1) assms(2) by (simp add: transmit_def call_nexthop_def Let_def)
qed

text \<open>How many buffers are free is determined by who holds which.\<close>

lemma remaining_count:
  assumes "own_inv X w"
  shows "csp_buffer_remaining w + card (set_mset (X + held w)) = CSP_BUFFER_COUNT"
proof -
  have "bufs_inv (X + held w) w" using assms by (simp add: own_inv_def)
  note I = bufs_invD [OF this]
  have fin: "finite (set_mset (X + held w))" by simp
  have "set (free_list w) \<union> set_mset (X + held w) = {b. b < 8}" "set (free_list w) \<inter> set_mset (X + held w) = {}"
    using I(4,7) by (auto simp: set_eq_iff)
  then have "card (set (free_list w)) + card (set_mset (X + held w)) = 8"
    using card_Un_disjoint [OF _ fin, of "set (free_list w)"] by simp
  then show ?thesis using distinct_card [OF I(3)] by (simp add: remaining_free_list)
qed

text \<open>An interface that reaches address \<open>a\<close>, alone and not as a broadcast.\<close>

definition reaches :: "('a) csp_cn_scheme \<Rightarrow> nat \<Rightarrow> u16 \<Rightarrow> bool" where
  "reaches w i a \<longleftrightarrow> subnet_ifaces w a = [i] \<and> nexthop (ifaces w i) = NextKiss \<and> a \<noteq> addr (ifaces w csp_if_lo) \<and>
     \<not> csp_id_is_broadcast (version (csp_conf w)) a (ifaces w i)"

text \<open>The identifier under which a packet of this node leaves: the source address is filled in.\<close>

definition filled_in :: "('a) csp_cn_scheme \<Rightarrow> nat \<Rightarrow> csp_id \<Rightarrow> csp_id" where
  "filled_in w i k = (if src k = 0 then k\<lparr>src := addr (ifaces w i)\<rparr> else k)"

lemma clone_room:
  assumes s: "own_inv (add_mset p X) w" and room: "2 \<le> csp_buffer_remaining w"
  shows "\<exists>q v. csp_buffer_clone (Some p) w = (Some q, v) \<and> own_inv (add_mset q (add_mset p X)) v \<and> undisturbed w v \<and>
    p_length (pkt v q) = p_length (pkt w p) \<and> payload (pkt v q) = payload (pkt w p)"
proof -
  obtain x v where cl: "csp_buffer_clone (Some p) w = (x, v)" by fastforce
  obtain g w1 where g: "csp_buffer_get w = (g, w1)" by fastforce
  then have a: "csp_buffer_get_actual 2 False w = (g, w1)" by (simp add: csp_buffer_get_def)
  have i: "bufs_inv (add_mset p X + held w) w" using s by (simp add: own_inv_def)
  have "g \<noteq> None" using get_actual_None(2) [OF i, of 2 False w1] a room by (auto simp: remaining_free_list)
  moreover have "x = g" using cl g by (auto simp: csp_buffer_clone_def)
  ultimately obtain q where q: "x = Some q" by blast
  then show ?thesis using own_clone(1) [OF s _ cl] cl undisturbed_clone [OF cl] by simp
qed

lemma kiss_send:
  fixes w :: "('a) csp_cn_scheme"
  assumes d: "transmitter drv" and s: "sys_ok (add_mset p X) w" and ref: "ref = IdOfPacket p \<or> (\<exists>c. ref = IdOut c)"
    and to: "reaches w i (dst (id_at ref w))" and fl: "flags (id_at ref w) = CSP_FCRC32"
    and fit: "unat (p_length (pkt w p)) + 4 \<le> CSP_BUFFER_SIZE" and room: "2 \<le> csp_buffer_remaining w"
  shows "\<exists>w' k. csp_send_direct drv ref p None w = Some w' \<and> sys_ok X w' \<and> packet_ok k \<and>
     p_id k = filled_in w i (id_at ref w) \<and> payload k = with_crc (payload (pkt w p)) \<and>
     put_on_line (driver_data (ifaces w i)) (kiss_line (sent_frame (version (csp_conf w)) k)) w w'"
proof -
  have own: "own_inv (add_mset p X) w" by (rule sys_ok_own [OF s])
  have ref': "\<And>b. ref = IdOfPacket b \<Longrightarrow> b = p" using ref by auto
  let ?id = "filled_in w i (id_at ref w)"
  have lid: "local_id ref True i (id_at ref w) w = ?id" using to by (simp add: local_id_def filled_in_def reaches_def)
  obtain q v where q: "csp_buffer_clone (Some p) w = (Some q, v)" "own_inv (add_mset q (add_mset p X)) v" "undisturbed w v"
      "p_length (pkt v q) = p_length (pkt w p)" "payload (pkt v q) = payload (pkt w p)"
    using clone_room [OF own room] by blast
  have "flags (id_at (LocalId ?id) v) = CSP_FCRC32" using fl by (simp add: filled_in_def)
  from send_iface_crc [OF q(2) this, of drv i CSP_NO_VIA_ADDRESS] q(4) fit
  obtain u :: "('a) csp_cn_scheme" where u: "own_inv (add_mset q (add_mset p X)) u" "undisturbed v u" "p_id (pkt u q) = ?id"
      "payload (pkt u q) = with_crc (payload (pkt v q))"
      "csp_send_direct_iface drv (LocalId ?id) q i CSP_NO_VIA_ADDRESS True v = Some (transmit drv q i CSP_NO_VIA_ADDRESS True u)"
    by auto
  let ?t = "transmit drv q i CSP_NO_VIA_ADDRESS True u"
  have wu: "undisturbed w u" by (rule undisturbed_trans [OF q(3) u(2)])
  note U = keptD [of "{}" w u]
  have cfg: "csp_conf u = csp_conf w" "iface_cfg (ifaces u i) = iface_cfg (ifaces w i)"
    using wu by (simp_all add: undisturbed_def settings_def fun_eq_iff)
  then have "nexthop (ifaces u i) = NextKiss" "driver_data (ifaces u i) = driver_data (ifaces w i)"
    using to by (simp_all add: iface_cfg_def reaches_def)
  from transmit_kiss [OF u(1) this(1), of drv CSP_NO_VIA_ADDRESS True]
  have "put_on_line (driver_data (ifaces w i)) (kiss_line (sent_frame (version (csp_conf w)) (pkt u q))) u ?t"
    using cfg(1) by (simp add: \<open>driver_data (ifaces u i) = driver_data (ifaces w i)\<close>)
  then have L: "put_on_line (driver_data (ifaces w i)) (kiss_line (sent_frame (version (csp_conf w)) (pkt u q))) w
      (csp_buffer_free (Some p) ?t)"
    by (rule put_on_line_frame(2) [OF put_on_line_frame(1) [OF wu]]) simp
  have "send_copy drv (LocalId ?id) p i CSP_NO_VIA_ADDRESS True w = Some ?t"
    using q(1) u(5) by (simp add: send_copy_def)
  then have "send_spec drv ref p None w = Some (csp_buffer_free (Some p) ?t)"
    using to lid by (simp add: send_spec_def reaches_def targets_def skip_iface_def csp_iflist_is_within_subnet_def)
  moreover obtain w' where w': "csp_send_direct drv ref p None w = Some w'" "send_spec drv ref p None w = Some w'"
    using send_direct_main [where ref = ref and rf = None and X = X and w = w, OF d _ ref'] s by (auto simp: sending_def sys_ok_def net_ok_def)
  moreover have "sys_ok X w'" using sys_send_direct [where ref = ref and rf = None, OF d s ref'] w'(1) by auto
  moreover have "packet_ok (pkt u q)" using own_packet [OF u(1)] by simp
  ultimately show ?thesis using L u(3,4) q(5) by (intro exI [of _ w'] exI [of _ "pkt u q"]) simp
qed

section \<open>Receiving in the node\<close>

text \<open>One end of a serial line: interface \<open>i\<close> with address \<open>a\<close>, whose receiver \<open>d\<close> waits for a frame.\<close>

definition serial_end :: "('a) csp_cn_scheme \<Rightarrow> nat \<Rightarrow> nat \<Rightarrow> u16 \<Rightarrow> bool" where
  "serial_end w i d a \<longleftrightarrow> i \<in> set (interfaces w) \<and> addr (ifaces w i) = a \<and> interface_data (ifaces w i) = Some d \<and> rx_idle d w"

lemma held_other: "held w = qf_refs w + other_refs w"
  by (simp add: held_def other_refs_def ac_simps)

lemma node_receives:
  fixes w :: "('a) csp_cn_scheme"
  assumes s: "sys_ok X w" and e: "serial_end w i d a" and q: "qf_items w = []" and buf: "0 < csp_buffer_remaining w"
    and pk: "packet_ok k" and fits: "id_fits (version (csp_conf w)) (p_id k)" and len: "unat (p_length k) + 4 < CSP_BUFFER_SIZE"
  shows "\<exists>(w' :: ('a) csp_cn_scheme) b. csp_kiss_rx i (kiss_line (sent_frame (version (csp_conf w)) k)) isr w = Inr w' \<and>
     sys_ok X w' \<and> rx_idle d w' \<and> settings w' = settings w \<and> ms_from_boot w' = ms_from_boot w \<and> line_out w' = line_out w \<and>
     csp_promisc_queue w' = csp_promisc_queue w \<and> qf_items w' = [\<lparr>qe_iface = Some i, qe_packet = Some b\<rparr>] \<and>
     p_id (pkt w' b) = p_id k \<and> payload (pkt w' b) = payload k \<and> csp_buffer_remaining w' + 1 = csp_buffer_remaining w"
proof -
  have idle: "rx_idle d w" and d: "interface_data (ifaces w i) = Some d" using e by (simp_all add: serial_end_def)
  have r: "receiving X d w" using s receiving_idle [OF idle] by simp
  then have inv: "kiss_inv (X + other_refs w) d w" by (simp add: receiving_split)
  obtain w' :: "('a) csp_cn_scheme" and b where w': "csp_kiss_rx i (kiss_line (sent_frame (version (csp_conf w)) k)) isr w = Inr w'"
      "rx_idle d w'" "b \<notin># X + other_refs w + qf_refs w" "qf_items w' = qf_items w @ [\<lparr>qe_iface = Some i, qe_packet = Some b\<rparr>]"
      "p_id (pkt w' b) = p_id k" "payload (pkt w' b) = payload k"
    using kiss_frame_received [OF pk fits len refl inv d idle buf, of isr] q by auto
  note N = kiss_rx_node [OF r d w'(1)]
  have s': "sys_ok X w'" using N(1) receiving_idle [OF w'(2)] by simp
  have "held w' = add_mset b (held w)"
    using w'(4) q rx_frame_other(1) [OF N(2)] by (simp add: held_other qf_refs_def elem_refs_def)
  moreover have "b \<notin># X + held w" using w'(3) by (simp add: held_other)
  ultimately have "csp_buffer_remaining w' + 1 = csp_buffer_remaining w"
    using remaining_count [OF sys_ok_own [OF s]] remaining_count [OF sys_ok_own [OF s']] by (simp add: card_insert_if)
  then show ?thesis using w' s' N(2) q by (simp add: rx_frame_def)
qed

end
