(* ===== verification/Serial.thy ===== *)
theory Serial
  imports Kiss_Node
begin

text \<open>
  Two nodes on a serial line: a ping from one to the other and back. The nodes have states of their own and
  share nothing but the bytes their transmitters put on the line, which become the input of the other's receiver.
\<close>

section \<open>A node at the end of the line\<close>

text \<open>A turn of a node: the interrupt routine takes the bytes, then the router runs once.\<close>

definition serial_turn :: "('a) driver \<Rightarrow> ('a) callbacks \<Rightarrow> nat \<Rightarrow> u8 list \<Rightarrow> ('a) csp_cn_scheme \<Rightarrow> ('a) csp_cn_scheme" where
  "serial_turn drv cb i bytes w =
     (case csp_kiss_rx i bytes True w of Inl e \<Rightarrow> w | Inr w' \<Rightarrow> router_env drv cb w')"

lemma remaining_same:
  assumes "sys_ok X w" and "sys_ok X' w'" and "X' + held w' = X + held w"
  shows "csp_buffer_remaining w' = csp_buffer_remaining w"
  using remaining_count [OF sys_ok_own [OF assms(1)]] remaining_count [OF sys_ok_own [OF assms(2)]] assms(3) by simp

lemma broadcast_max: "csp_id_is_broadcast v (csp_id_get_max_nodeid v) f"
  by (simp add: csp_id_is_broadcast_def Let_def)

lemma other_refs_same:
  "settings w' = settings w \<Longrightarrow> csp_promisc_queue w' = csp_promisc_queue w \<Longrightarrow> other_refs w' = other_refs w"
  by (simp add: settings_def other_refs_def pm_refs_def)

lemma settings_end:
  fixes w w' :: "('a) csp_cn_scheme"
  assumes "settings w' = settings w"
  shows "reaches w' i a = reaches w i a" and "kiss w' = kiss w \<Longrightarrow> serial_end w' i d a = serial_end w i d a"
    and "driver_data (ifaces w' i) = driver_data (ifaces w i)" and "filled_in w' i k = filled_in w i k"
proof -
  have "kept {} w w'" using assms by (simp add: kept_def)
  note R = routing_same [OF routing_kept [OF this]] and K = keptD [OF this]
  have c: "iface_cfg (ifaces w' j) = iface_cfg (ifaces w j)" for j by (rule K(5))
  then have f: "addr (ifaces w' j) = addr (ifaces w j)" "netmask (ifaces w' j) = netmask (ifaces w j)"
      "nexthop (ifaces w' j) = nexthop (ifaces w j)" "interface_data (ifaces w' j) = interface_data (ifaces w j)"
      "driver_data (ifaces w' j) = driver_data (ifaces w j)" for j
    by (simp_all add: iface_cfg_def)
  show "reaches w' i a = reaches w i a"
    by (simp add: reaches_def subnet_ifaces_def R f csp_id_is_broadcast_def)
  show "kiss w' = kiss w \<Longrightarrow> serial_end w' i d a = serial_end w i d a"
    by (simp add: serial_end_def R f rx_idle_def)
  show "driver_data (ifaces w' i) = driver_data (ifaces w i)" "filled_in w' i k = filled_in w i k"
    by (simp_all add: f filled_in_def)
qed

lemma set_conn_end [simp]:
  "reaches (set_conn c k w) i a = reaches w i a" "serial_end (set_conn c k w) i d a = serial_end w i d a"
  "filled_in (set_conn c k w) i x = filled_in w i x"
  by (simp_all add: reaches_def subnet_ifaces_def subnet_hit_def [abs_def] serial_end_def rx_idle_def filled_in_def set_conn_def)

text \<open>A frame of the line becomes a packet in the router's queue, and passes every check.\<close>

lemma line_arrives:
  fixes w :: "('a) csp_cn_scheme"
  assumes s: "sys_ok X w" and e: "serial_end w i dv a" and q: "qf_items w = []" and room: "0 < csp_buffer_remaining w"
    and dd: "dedup (csp_conf w) = CSP_DEDUP_OFF" and pk: "packet_ok k" and fits: "id_fits (version (csp_conf w)) (p_id k)"
    and ident: "flags (p_id k) = CSP_FCRC32" "dst (p_id k) = a" and pl: "payload k = with_crc m" and fit: "length m + 8 < CSP_BUFFER_SIZE"
  shows "\<exists>(w' :: ('a) csp_cn_scheme) p. csp_kiss_rx i (kiss_line (sent_frame (version (csp_conf w)) k)) True w = Inr w' \<and>
     sys_ok X w' \<and> settings w' = settings w \<and> ms_from_boot w' = ms_from_boot w \<and> line_out w' = line_out w \<and>
     csp_promisc_queue w' = csp_promisc_queue w \<and> qf_items w' = [\<lparr>qe_iface = Some i, qe_packet = Some p\<rparr>] \<and> arrives w' i p \<and>
     p_id (pkt w' p) = p_id k \<and> (\<forall>opts. opts AND CSP_SO_HMACREQ = 0 \<longrightarrow> accepted opts w' p = Some m) \<and>
     csp_buffer_remaining w' + 1 = csp_buffer_remaining w"
proof -
  have len: "unat (p_length k) + 4 < CSP_BUFFER_SIZE"
    using arg_cong [OF pl, of length] pk fit by (simp add: with_crc_def)
  obtain w1 :: "('a) csp_cn_scheme" and p where w1: "csp_kiss_rx i (kiss_line (sent_frame (version (csp_conf w)) k)) True w = Inr w1"
      "sys_ok X w1" "settings w1 = settings w" "ms_from_boot w1 = ms_from_boot w" "line_out w1 = line_out w"
      "csp_promisc_queue w1 = csp_promisc_queue w" "qf_items w1 = [\<lparr>qe_iface = Some i, qe_packet = Some p\<rparr>]"
      "p_id (pkt w1 p) = p_id k" "payload (pkt w1 p) = payload k" "csp_buffer_remaining w1 + 1 = csp_buffer_remaining w"
    using node_receives [OF s e q room pk fits len, of True] by blast
  have "i \<in> set (interfaces w1)" "addr (ifaces w1 i) = a"
    using e w1(3) by (simp_all add: serial_end_def settings_def fun_eq_iff iface_cfg_def)
  then have "arrives w1 i p" using ident dd w1(8) by (intro arrives_here w1(7)) (simp_all add: settingsD [OF w1(3)])
  moreover have "accepted opts w1 p = Some m" if "opts AND CSP_SO_HMACREQ = 0" for opts
    using ident w1(8,9) pl that by (intro passes_crc) simp_all
  ultimately show ?thesis using w1 by blast
qed

text \<open>The service handler answers a ping on the line that reaches its sender.\<close>

lemma ping_answer_line:
  fixes u :: "('a) csp_cn_scheme"
  assumes d: "transmitter drv" and s: "sys_ok (add_mset p Y) u" and e: "addr (ifaces u j) = b" and to: "reaches u j a"
    and nb: "b \<noteq> csp_id_get_max_nodeid (version (csp_conf u))" and room: "2 \<le> csp_buffer_remaining u"
    and ident: "p_id (pkt u p) = \<lparr>pri = pr, flags = CSP_FCRC32, src = a, dst = b, dport = 1, sport = sp\<rparr>"
    and pl: "payload (pkt u p) = m" and fit: "length m + 8 < CSP_BUFFER_SIZE"
  shows "\<exists>(w' :: ('a) csp_cn_scheme) k'. csp_service_handler drv h p u = Some w' \<and> sys_ok Y w' \<and> packet_ok k' \<and>
     p_id k' = \<lparr>pri = pr, flags = CSP_FCRC32, src = b, dst = a, dport = sp, sport = 1\<rparr> \<and> payload k' = with_crc m \<and>
     line_out w' (driver_data (ifaces u j)) = line_out u (driver_data (ifaces u j)) @ kiss_line (sent_frame (version (csp_conf u)) k')"
proof -
  let ?i = "\<lparr>pri = pr, flags = CSP_FCRC32, src = b, dst = a, dport = sp, sport = 1\<rparr>"
  let ?v = "set_pkt p ((pkt u p)\<lparr>p_id := ?i\<rparr>) u"
  have ok: "packet_ok (pkt u p)" by (rule sys_packet [OF s]) simp
  have sv: "sys_ok (add_mset p Y) ?v" using sys_set_pkt [OF s] ok by simp
  have "unat (p_length (pkt u p)) = length m" using arg_cong [OF pl, of length] ok by simp
  then have idv: "id_at (IdOfPacket p) ?v = ?i" "payload (pkt ?v p) = m" "unat (p_length (pkt ?v p)) + 4 \<le> CSP_BUFFER_SIZE"
    using fit pl by (simp_all add: frame_simps payload_def)
  have setv: "settings ?v = settings u" by (simp add: frame_simps)
  have "csp_buffer_remaining ?v = csp_buffer_remaining u" by (simp add: csp_buffer_remaining_def set_pkt_def)
  then obtain w' k' where w': "csp_send_direct drv (IdOfPacket p) p None ?v = Some w'" "sys_ok Y w'" "packet_ok k'"
      "p_id k' = filled_in ?v j ?i" "payload k' = with_crc m"
      "put_on_line (driver_data (ifaces ?v j)) (kiss_line (sent_frame (version (csp_conf ?v)) k')) ?v w'"
    using kiss_send [OF d sv, of "IdOfPacket p" j] idv to settings_end(1) [OF setv, of j a] room by auto
  moreover have "csp_service_handler drv h p u = csp_send_direct drv (IdOfPacket p) p None ?v"
    using ident nb by (simp add: csp_service_handler_def sendto_reply_eq reply_id_def Let_def)
  moreover have "filled_in ?v j ?i = ?i" using e settings_end(4) [OF setv, of j ?i] by (simp add: filled_in_def)
  ultimately show ?thesis by (intro exI [of _ w'] exI [of _ k']) (simp add: put_on_line_def frame_simps)
qed

text \<open>A ping that arrives is answered on the line it came from.\<close>

lemma serial_answer:
  fixes w :: "('a) csp_cn_scheme"
  assumes d: "transmitter drv" and s: "sys_ok Y w" and e: "serial_end w j dv b" and q: "qf_items w = []"
    and room: "3 \<le> csp_buffer_remaining w" and pm: "\<not> use_promisc w" and svc: "csp_port_get_callback 1 w = Some CbService"
    and dd: "dedup (csp_conf w) = CSP_DEDUP_OFF" and to: "reaches w j a" and nb: "b \<noteq> csp_id_get_max_nodeid (version (csp_conf w))"
    and pk: "packet_ok k" and fits: "id_fits (version (csp_conf w)) (p_id k)"
    and ident: "p_id k = \<lparr>pri = pr, flags = CSP_FCRC32, src = a, dst = b, dport = 1, sport = sp\<rparr>"
    and pl: "payload k = with_crc m" and fit: "length m + 8 < CSP_BUFFER_SIZE"
  shows "\<exists>w' k'. serial_turn drv (node_callbacks drv h app) j (kiss_line (sent_frame (version (csp_conf w)) k)) w = w' \<and>
     sys_ok Y w' \<and> packet_ok k' \<and> p_id k' = \<lparr>pri = pr, flags = CSP_FCRC32, src = b, dst = a, dport = sp, sport = 1\<rparr> \<and>
     payload k' = with_crc m \<and>
     line_out w' (driver_data (ifaces w j)) =
       line_out w (driver_data (ifaces w j)) @ kiss_line (sent_frame (version (csp_conf w)) k')"
proof -
  let ?cb = "node_callbacks drv h app"
  obtain w1 :: "('a) csp_cn_scheme" and p where w1: "csp_kiss_rx j (kiss_line (sent_frame (version (csp_conf w)) k)) True w = Inr w1"
      "sys_ok Y w1" "settings w1 = settings w" "line_out w1 = line_out w" "qf_items w1 = [\<lparr>qe_iface = Some j, qe_packet = Some p\<rparr>]"
      "arrives w1 j p" "p_id (pkt w1 p) = p_id k" "accepted CSP_SO_CRC32REQ w1 p = Some m" "csp_buffer_remaining w1 + 1 = csp_buffer_remaining w"
    using line_arrives [OF s e q _ dd pk fits _ _ pl fit] ident room by auto
  have "csp_port_get_callback (unat (dport (p_id (pkt w1 p)))) w1 = Some CbService"
    using svc get_callback_ports [OF settingsD(2) [OF w1(3)]] w1(7) ident by simp
  then obtain u where u: "csp_route_work drv ?cb w1 = map_option (Pair CSP_ERR_NONE) (?cb CbService p u)" "sys_ok (add_mset p Y) u"
      "settings u = settings w1" "line_out u = line_out w1" "csp_promisc_queue u = csp_promisc_queue w1" "qf_items u = []"
      "p_id (pkt u p) = p_id k" "payload (pkt u p) = m"
    using round_calls [OF w1(2,6,5) _ w1(8), where drv = drv and calls = ?cb] w1(7) pm settings_use_promisc [OF w1(3)] by auto
  have "add_mset p Y + held u = Y + held w1"
    using u(6) w1(5) other_refs_same [OF u(3,5)] by (simp add: held_other qf_refs_def elem_refs_def)
  then have "csp_buffer_remaining u = csp_buffer_remaining w1" by (rule remaining_same [OF w1(2) u(2)])
  then have room': "2 \<le> csp_buffer_remaining u" using w1(9) room by simp
  have su: "settings u = settings w" using u(3) w1(3) by simp
  have same: "csp_conf u = csp_conf w" "driver_data (ifaces u j) = driver_data (ifaces w j)" "reaches u j a" "addr (ifaces u j) = b"
    using settingsD(3) [OF su] settings_end(1,3) [OF su] to e su
    by (simp_all add: serial_end_def) (simp add: settings_def fun_eq_iff iface_cfg_def)
  obtain w' :: "('a) csp_cn_scheme" and k' where "csp_service_handler drv h p u = Some w'" "sys_ok Y w'" "packet_ok k'"
     "p_id k' = \<lparr>pri = pr, flags = CSP_FCRC32, src = b, dst = a, dport = sp, sport = 1\<rparr>" "payload k' = with_crc m"
     "line_out w' (driver_data (ifaces u j)) = line_out u (driver_data (ifaces u j)) @ kiss_line (sent_frame (version (csp_conf u)) k')"
    using ping_answer_line [OF d u(2) same(4,3) _ room' _ u(8) fit, of pr sp h] nb u(7) ident same(1) by auto
  then show ?thesis using u(1,4) w1(1,4) same
    by (intro exI [of _ w'] exI [of _ k']) (simp add: serial_turn_def router_env_def node_callbacks_def)
qed

text \<open>The answer is delivered to the connection that waits for it.\<close>

lemma serial_delivers:
  fixes w :: "('a) csp_cn_scheme"
  assumes s: "sys_ok X w" and e: "serial_end w i dv a" and q: "qf_items w = []" and room: "0 < csp_buffer_remaining w"
    and dd: "dedup (csp_conf w) = CSP_DEDUP_OFF" and pk: "packet_ok k" and fits: "id_fits (version (csp_conf w)) (p_id k)"
    and ident: "p_id k = \<lparr>pri = pr, flags = CSP_FCRC32, src = b, dst = a, dport = 33, sport = 1\<rparr>"
    and pl: "payload k = with_crc m" and fit: "length m + 8 < CSP_BUFFER_SIZE"
    and c: "c_state (conns w 0) = CONN_OPEN" "c_type (conns w 0) = CONN_CLIENT" "dport (idin (conns w 0)) = 33"
      "dest_socket (conns w 0) = None" "c_opts (conns w 0) = CSP_O_CRC32"
      "qh_items (c_rx_queue (conns w 0)) = []" "0 < qh_cap (c_rx_queue (conns w 0))"
  shows "\<exists>(w' :: ('a) csp_cn_scheme) p. serial_turn drv calls i (kiss_line (sent_frame (version (csp_conf w)) k)) w = w' \<and>
     sys_ok X w' \<and> ms_from_boot w' = ms_from_boot w \<and> qh_items (c_rx_queue (conns w' 0)) = [p] \<and>
     c_state (conns w' 0) = CONN_OPEN \<and> payload (pkt w' p) = m"
proof -
  obtain w1 :: "('a) csp_cn_scheme" and p where w1: "csp_kiss_rx i (kiss_line (sent_frame (version (csp_conf w)) k)) True w = Inr w1"
      "sys_ok X w1" "settings w1 = settings w" "ms_from_boot w1 = ms_from_boot w"
      "qf_items w1 = [\<lparr>qe_iface = Some i, qe_packet = Some p\<rparr>]" "arrives w1 i p" "p_id (pkt w1 p) = p_id k"
      "accepted CSP_O_CRC32 w1 p = Some m"
    using line_arrives [OF s e q room dd pk fits _ _ pl fit] ident by auto
  note S1 = settingsD [OF w1(3)]
  have "accepted (c_opts (conns w1 0)) w1 p = Some m" using w1(8) c(5) by (simp add: S1)
  moreover have "csp_conn_find_existing (p_id (pkt w1 p)) w1 = Some 0"
    using c(1-3) by (simp add: csp_conn_find_existing_def S1 w1(7) ident)
  ultimately obtain u where "csp_route_work drv calls w1 = Some (CSP_ERR_NONE, u)" "sys_ok X u" "ms_from_boot u = ms_from_boot w1"
      "qh_items (c_rx_queue (conns u 0)) = [p]" "c_state (conns u 0) = CONN_OPEN" "payload (pkt u p) = m"
    using round_delivers [OF w1(2,6,5), where drv = drv and calls = calls] w1(7) ident c(4,6,7) by (auto simp: S1)
  then show ?thesis using w1(1,4) by (simp add: serial_turn_def router_env_def)
qed

section \<open>A ping over the line\<close>

text \<open>\<open>csp_ping\<close> up to the send: the request is on the line.\<close>

lemma cn_refs_reopen:
  fixes w :: "('a) csp_cn_scheme"
  assumes "c_rx_queue k = c_rx_queue (conns w 0)"
  shows "other_refs (set_conn 0 k w) = other_refs w"
  using assms by (simp add: other_refs_def set_conn_def pm_refs_def cn_refs_def)

lemma ping_on_line:
  fixes w :: "('a) csp_cn_scheme"
  assumes d: "transmitter drv" and s: "sys_ok X w" and e: "serial_end w i dv a" and to: "reaches w i b" and pm: "\<not> use_promisc w"
    and cfg: "conn_dfl_so (csp_conf w) = 0" and st: "c_state (conns w 0) = CONN_CLOSED" "qh_items (c_rx_queue (conns w 0)) = []"
    and room: "3 \<le> csp_buffer_remaining w" and q: "qf_items w = []" and fit: "unat sz + 8 < CSP_BUFFER_SIZE"
  shows "\<exists>k w1 p w2 (w4 :: ('a) csp_cn_scheme) x. csp_connect 2 b 1 t CSP_O_CRC32 w = (Some 0, w1) \<and> csp_buffer_get w1 = (Some p, w2) \<and>
    csp_send drv (Some 0) (Some p) (set_pkt p (data_put 0 (ping_data sz) ((pkt w2 p)\<lparr>p_length := sz\<rparr>)) w2) = Some w4 \<and>
    sys_ok X w4 \<and> settings w4 = settings (set_conn 0 k w) \<and> ms_from_boot w4 = ms_from_boot w \<and> kiss w4 = kiss w \<and>
    qf_items w4 = [] \<and> csp_buffer_remaining w4 = csp_buffer_remaining w \<and>
    line_out w4 (driver_data (ifaces w i)) = line_out w (driver_data (ifaces w i)) @ kiss_line (sent_frame (version (csp_conf w)) x) \<and>
    packet_ok x \<and> p_id x = \<lparr>pri = 2, flags = CSP_FCRC32, src = a, dst = b, dport = 1, sport = 33\<rparr> \<and>
    payload x = with_crc (ping_data sz) \<and> c_state k = CONN_OPEN \<and> c_type k = CONN_CLIENT \<and>
    dport (idin k) = 33 \<and> dest_socket k = None \<and> c_opts k = CSP_O_CRC32 \<and> c_rx_queue k = c_rx_queue (conns w 0)"
proof -
  have fit': "unat sz \<le> CSP_BUFFER_SIZE" and room': "2 \<le> csp_buffer_remaining w" using fit room by simp_all
  obtain k w1 p w2 w3 where k: "csp_connect 2 b 1 t CSP_O_CRC32 w = (Some 0, w1)" and g: "csp_buffer_get w1 = (Some p, w2)"
    and w3: "w3 = set_pkt p (data_put 0 (ping_data sz) ((pkt w2 p)\<lparr>p_length := sz\<rparr>)) w2" "sys_ok (add_mset p X) w3"
      "undisturbed (set_conn 0 k w) w3" "csp_buffer_remaining w3 + 1 = csp_buffer_remaining w" "payload (pkt w3 p) = ping_data sz" "p_length (pkt w3 p) = sz"
    and k0: "c_state k = CONN_OPEN" "c_type k = CONN_CLIENT"
      "idout k = \<lparr>pri = 2, flags = CSP_FCRC32, src = 0, dst = b, dport = 1, sport = 33\<rparr>" "dport (idin k) = 33"
      "dest_socket k = None" "c_opts k = CSP_O_CRC32" "c_rx_queue k = c_rx_queue (conns w 0)"
    using ping_prepares [OF s cfg st room' fit', of b t] by blast
  have S3: "settings w3 = settings (set_conn 0 k w)" "ms_from_boot w3 = ms_from_boot w" "kiss w3 = kiss w" "line_out w3 = line_out w"
      "csp_promisc_queue w3 = csp_promisc_queue w" "qf_items w3 = []" "\<not> use_promisc w3"
    using w3(3) q pm settings_use_promisc [of w3 "set_conn 0 k w"] by (simp_all add: undisturbed_def qf_items_def set_conn_def)
  note C3 = settingsD [OF S3(1)]
  have c0: "conns w3 0 = k" using C3(1) by (simp add: set_conn_def)
  have same: "reaches w3 i b" "filled_in w3 i y = filled_in w i y" "driver_data (ifaces w3 i) = driver_data (ifaces w i)"
      "csp_conf w3 = csp_conf w" for y
    using to settings_end(1,3,4) [OF S3(1)] C3(3) by simp_all (simp_all add: set_conn_def)
  obtain w4 :: "('a) csp_cn_scheme" and x where w4: "csp_send_direct drv (IdOut 0) p None w3 = Some w4" "sys_ok X w4" "packet_ok x"
      "p_id x = filled_in w3 i (idout k)" "payload x = with_crc (ping_data sz)"
      "put_on_line (driver_data (ifaces w3 i)) (kiss_line (sent_frame (version (csp_conf w3)) x)) w3 w4"
    using kiss_send [OF d w3(2), of "IdOut 0" i] same(1) k0(3) w3(4-6) fit room by (auto simp: c0)
  have "csp_send drv (Some 0) (Some p) w3 = Some w4" using w4(1) k0(1) by (simp add: csp_send_def c0)
  moreover have L: "settings w4 = settings (set_conn 0 k w)" "ms_from_boot w4 = ms_from_boot w" "kiss w4 = kiss w" "qf_items w4 = []"
      "csp_promisc_queue w4 = csp_promisc_queue w"
      "line_out w4 (driver_data (ifaces w i)) = line_out w (driver_data (ifaces w i)) @ kiss_line (sent_frame (version (csp_conf w)) x)"
    using w4(6) S3 by (simp_all add: put_on_line_def same qf_items_def)
  moreover have "p_id x = \<lparr>pri = 2, flags = CSP_FCRC32, src = a, dst = b, dport = 1, sport = 33\<rparr>"
    using w4(4) [unfolded same(2)] k0(3) e by (simp add: filled_in_def serial_end_def)
  moreover have "csp_buffer_remaining w4 = csp_buffer_remaining w"
  proof -
    have "other_refs w4 = other_refs (set_conn 0 k w)" using L(1,5) by (intro other_refs_same) (simp_all add: set_conn_def)
    then have "other_refs w4 = other_refs w" by (simp add: cn_refs_reopen [OF k0(7)])
    then have "X + held w4 = X + held w" using L(4) q by (simp add: held_other qf_refs_def)
    then show ?thesis by (rule remaining_same [OF s w4(2)])
  qed
  ultimately show ?thesis using k g w3(1) k0 w4(2,3,5) by (intro exI conjI) (assumption | simp)+
qed

text \<open>
  The way of the bytes while a ping waits: what the near node has sent since \<open>w0\<close> reaches the far node's
  receiver, what that sends in its turn comes back \<open>dl\<close> milliseconds later.
\<close>

definition sent_since :: "('a) csp_cn_scheme \<Rightarrow> ('a) csp_cn_scheme \<Rightarrow> nat option \<Rightarrow> u8 list" where
  "sent_since w w' l = drop (length (line_out w l)) (line_out w' l)"

definition over_serial ::
  "(u8 list \<Rightarrow> ('a) csp_cn_scheme \<Rightarrow> ('a) csp_cn_scheme) \<Rightarrow> nat option \<Rightarrow> ('a) csp_cn_scheme \<Rightarrow>
   (u8 list \<Rightarrow> ('a) csp_cn_scheme \<Rightarrow> ('a) csp_cn_scheme) \<Rightarrow> nat option \<Rightarrow> ('a) csp_cn_scheme \<Rightarrow>
   u32 \<Rightarrow> ('a) csp_cn_scheme \<Rightarrow> ('a) csp_cn_scheme" where
  "over_serial near la w0 far lb wb dl v =
     (let wb' = far (sent_since w0 v la) wb in near (sent_since wb wb' lb) (later dl v))"

text \<open>
  \<^bold>\<open>Claim C5.\<close> Two nodes on a serial line can ping each other: each has its own state, buffers and router, and
  all they share are the bytes of the line. When both ends wait for a frame, each interface alone reaches the
  other's address, the far node has the service handler on the ping port, the connection of the near node is free,
  both have three buffers and empty queues and look for no duplicates, then a ping with checksum of at most
  \<open>CSP_BUFFER_SIZE - 9\<close> bytes is answered, and \<open>csp_ping\<close> returns the milliseconds that have passed. The request
  is sent as a KISS frame, received, routed, answered by the service handler, sent back as a KISS frame,
  received, delivered to the connection, read and compared.
\<close>

theorem ping_over_serial:
  fixes w wb :: "('a) csp_cn_scheme"
  assumes d: "transmitter drv" "transmitter drvb" and s: "sys_ok X w" "sys_ok Y wb"
    and e: "serial_end w i da a" "serial_end wb j db b" and to: "reaches w i b" "reaches wb j a"
    and v: "version (csp_conf wb) = version (csp_conf w)" and fits: "id_fits (version (csp_conf w)) \<lparr>pri = 2, flags = CSP_FCRC32, src = a, dst = b, dport = 1, sport = 33\<rparr>"
    and svc: "csp_port_get_callback 1 wb = Some CbService" and cfg: "conn_dfl_so (csp_conf w) = 0"
    and dd: "dedup (csp_conf w) = CSP_DEDUP_OFF" "dedup (csp_conf wb) = CSP_DEDUP_OFF" and pm: "\<not> use_promisc w" "\<not> use_promisc wb"
    and st: "c_state (conns w 0) = CONN_CLOSED" "qh_items (c_rx_queue (conns w 0)) = []" "0 < qh_cap (c_rx_queue (conns w 0))"
    and room: "3 \<le> csp_buffer_remaining w" "3 \<le> csp_buffer_remaining wb" and q: "qf_items w = []" "qf_items wb = []"
    and fit: "unat sz + 8 < CSP_BUFFER_SIZE" and ms: "unat dl < 2 ^ 15"
  shows "\<exists>w'. csp_ping drv (over_serial (serial_turn drv cb i) (driver_data (ifaces w i)) w
           (serial_turn drvb (node_callbacks drvb h app) j) (driver_data (ifaces wb j)) wb dl) b t sz 0x40 w = Some (int (unat dl), w') \<and>
     sys_ok X w' \<and> c_state (conns w' 0) = CONN_CLOSED"
proof -
  let ?far = "serial_turn drvb (node_callbacks drvb h app) j" and ?near = "serial_turn drv cb i"
  let ?env = "over_serial ?near (driver_data (ifaces w i)) w ?far (driver_data (ifaces wb j)) wb dl"
  obtain k w1 p w2 x and w4 :: "('a) csp_cn_scheme" where k: "csp_connect 2 b 1 t CSP_O_CRC32 w = (Some 0, w1)" and g: "csp_buffer_get w1 = (Some p, w2)"
    and sd: "csp_send drv (Some 0) (Some p) (set_pkt p (data_put 0 (ping_data sz) ((pkt w2 p)\<lparr>p_length := sz\<rparr>)) w2) = Some w4"
    and w4: "sys_ok X w4" "settings w4 = settings (set_conn 0 k w)" "ms_from_boot w4 = ms_from_boot w" "kiss w4 = kiss w"
      "qf_items w4 = []" "csp_buffer_remaining w4 = csp_buffer_remaining w"
      "line_out w4 (driver_data (ifaces w i)) = line_out w (driver_data (ifaces w i)) @ kiss_line (sent_frame (version (csp_conf w)) x)"
    and x: "packet_ok x" "p_id x = \<lparr>pri = 2, flags = CSP_FCRC32, src = a, dst = b, dport = 1, sport = 33\<rparr>" "payload x = with_crc (ping_data sz)"
    and k0: "c_state k = CONN_OPEN" "c_type k = CONN_CLIENT" "dport (idin k) = 33" "dest_socket k = None"
      "c_opts k = CSP_O_CRC32" "c_rx_queue k = c_rx_queue (conns w 0)"
    using ping_on_line [OF d(1) s(1) e(1) to(1) pm(1) cfg st(1,2) room(1) q(1) fit, of t] by blast
  have fit': "length (ping_data sz) + 8 < CSP_BUFFER_SIZE" using fit by (simp add: ping_data_def)
  have fx: "id_fits (version (csp_conf wb)) (p_id x)" using fits v x(2) by simp
  have nb: "b \<noteq> csp_id_get_max_nodeid (version (csp_conf wb))"
    using to(1) v broadcast_max by (auto simp: reaches_def)
  obtain wb' :: "('a) csp_cn_scheme" and y where y: "?far (kiss_line (sent_frame (version (csp_conf wb)) x)) wb = wb'" "sys_ok Y wb'" "packet_ok y"
      "p_id y = \<lparr>pri = 2, flags = CSP_FCRC32, src = b, dst = a, dport = 33, sport = 1\<rparr>" "payload y = with_crc (ping_data sz)"
      "line_out wb' (driver_data (ifaces wb j)) = line_out wb (driver_data (ifaces wb j)) @ kiss_line (sent_frame (version (csp_conf wb)) y)"
    using serial_answer [OF d(2) s(2) e(2) q(2) room(2) pm(2) svc dd(2) to(2) nb x(1) fx x(2,3) fit', of h app] by blast
  let ?w5 = "later dl w4"
  have S5: "settings ?w5 = settings (set_conn 0 k w)" using w4(2) by (simp add: later_fields)
  note C5 = settingsD [OF S5]
  have c5: "conns ?w5 0 = k" "csp_conf ?w5 = csp_conf w" by (simp_all only: C5) (simp_all add: set_conn_def)
  have e5: "serial_end ?w5 i da a" using settings_end(2) [OF S5, of i da a] w4(4) e(1) by (simp add: later_def) (simp add: set_conn_def)
  have fy: "id_fits (version (csp_conf ?w5)) (p_id y)" using fits y(4) c5(2) by (simp add: id_fits_def split: if_splits)
  have "qf_items ?w5 = []" "0 < csp_buffer_remaining ?w5" "sys_ok X ?w5"
    using w4(1,5,6) room(1) by (simp_all add: later_fields) (simp add: later_def csp_buffer_remaining_def)
  from serial_delivers [OF this(3) e5 this(1,2) _ y(3) fy y(4,5) fit', of drv cb] k0 st(2,3) dd(1) c5
  obtain w6 :: "('a) csp_cn_scheme" and p' where w6: "?near (kiss_line (sent_frame (version (csp_conf w)) y)) ?w5 = w6" "sys_ok X w6"
      "ms_from_boot w6 = ms_from_boot ?w5" "qh_items (c_rx_queue (conns w6 0)) = [p']" "c_state (conns w6 0) = CONN_OPEN"
      "payload (pkt w6 p') = ping_data sz"
    by auto
  have env: "?env w4 = w6" using w4(7) y(1,6) w6(1) v by (simp add: over_serial_def sent_since_def)
  have "ms_from_boot w6 = ms_from_boot w + dl" using w6(3) w4(3) by (simp add: later_def)
  then obtain w7 w' where r: "csp_read (Some 0) t w6 = (Some p', w7)" "ping_echoed sz (pkt w7 p')"
      "ping_out 0 (ms_from_boot w) True (Some p') w7 = (int (unat dl), w')" "sys_ok X w'" "c_state (conns w' 0) = CONN_CLOSED"
    using ping_returns [OF w6(2,5,4,6) _ ms] by blast
  then show ?thesis using fit k g sd env by (simp add: csp_ping_def Let_def csp_get_ms_def)
qed

text \<open>A node with address \<open>a\<close> on the line, and the service handler on the ping port.\<close>

definition ex_end :: "u16 \<Rightarrow> csp_cn" where
  "ex_end a = (let w = ex_bound (PORT_OPEN_CB CbService) 0
     in set_iface 1 ((ifaces w 1)\<lparr>addr := a\<rparr>) (w\<lparr>use_promisc := False\<rparr>))"

lemma ex_end_sys: "sys_ok {#0#} (ex_end a)"
proof -
  let ?w = "ex_bound (PORT_OPEN_CB CbService) 0"
  have "sys_ok {#0#} ?w" by (rule ex_bound_sys) simp
  moreover have "own_inv {#0#} (ex_end a) = own_inv {#0#} ?w"
    by (simp add: own_inv_def held_def ex_end_def Let_def set_iface_def qf_refs_def qf_items_def pm_refs_def queues_ok_def qf_ok_def
        qf_entries_ok_def bufs_inv_def free_list_def pkt_def)
  moreover have "net_ok (ex_end a) = net_ok ?w"
    by (simp add: net_ok_def ex_end_def Let_def set_iface_def ports_ok_def routes_ok_def dedup_ok_def conns_ok_def conn_ok_def
        socks_ok_def conn_less_def)
  ultimately show ?thesis by (simp add: sys_ok_def)
qed

lemma ex_end_facts:
  "ifaces (ex_end a) = ex_ifaces(1 := (ex_ifaces 1)\<lparr>addr := a\<rparr>)" "interfaces (ex_end a) = [0, 1, 2]" "rx_idle 0 (ex_end a)"
  "csp_port_get_callback 1 (ex_end a) = Some CbService" "csp_conf (ex_end a) = boot_conf" "conns (ex_end a) 0 = ex_conn"
  "csp_buffer_remaining (ex_end a) = 7" "qf_items (ex_end a) = []" "\<not> use_promisc (ex_end a)"
proof -
  let ?w = "ex_bound (PORT_OPEN_CB CbService) 0"
  show "ifaces (ex_end a) = ex_ifaces(1 := (ex_ifaces 1)\<lparr>addr := a\<rparr>)" "interfaces (ex_end a) = [0, 1, 2]" "rx_idle 0 (ex_end a)"
    using ex_cn_line(1-3) by (simp_all add: ex_end_def ex_bound_def Let_def set_iface_def rx_idle_def)
  show "csp_port_get_callback 1 (ex_end a) = Some CbService" "csp_conf (ex_end a) = boot_conf" "conns (ex_end a) 0 = ex_conn"
      "qf_items (ex_end a) = []" "\<not> use_promisc (ex_end a)"
    using ex_bound_ping(1-3,5) get_callback_ports [of "ex_end a" ?w 1] by (simp_all add: ex_end_def Let_def set_iface_def qf_items_def)
  have "csp_buffer_remaining (ex_end a) = csp_buffer_remaining ?w" by (simp add: ex_end_def Let_def set_iface_def csp_buffer_remaining_def)
  then show "csp_buffer_remaining (ex_end a) = 7" using ex_bound_ping(4) by simp
qed

lemma ex_end_line: "serial_end (ex_end a) 1 0 a" "reaches (ex_end 20) 1 21" "reaches (ex_end 21) 1 20"
proof -
  show "serial_end (ex_end a) 1 0 a" by (simp add: serial_end_def ex_end_facts ex_ifaces_def no_iface_def)
  have "subnet_ifaces (ex_end 20) 21 = [1]" "subnet_ifaces (ex_end 21) 20 = [1]"
    by (simp_all add: subnet_ifaces_def subnet_hit_def csp_iflist_is_within_subnet_def ex_end_facts ex_ifaces_def no_iface_def boot_conf_def
        csp_id_get_host_bits_def)
  then show "reaches (ex_end 20) 1 21" "reaches (ex_end 21) 1 20"
    by (simp_all add: reaches_def ex_end_facts ex_ifaces_def no_iface_def boot_conf_def csp_id_is_broadcast_def
        csp_id_get_host_bits_def csp_id_get_max_nodeid_def Let_def)
qed

theorem ping_over_serial_witness:
  "\<exists>w'. csp_ping csp_lo_tx (over_serial (serial_turn csp_lo_tx drop_all 1) (Some 0) (ex_end 20)
       (serial_turn csp_lo_tx (node_callbacks csp_lo_tx ex_hooks drop_all) 1) (Some 0) (ex_end 21) 12) 21 1000 100 0x40 (ex_end 20) =
         Some (12, w') \<and> sys_ok {#0#} w' \<and> c_state (conns w' 0) = CONN_CLOSED"
  using ping_over_serial [OF nlo.transmitter_axioms nlo.transmitter_axioms ex_end_sys ex_end_sys ex_end_line(1,1-3),
      of 100 12 drop_all ex_hooks drop_all 1000]
  by (simp add: ex_end_facts ex_end_facts(4) [simplified] boot_conf_def ex_conn_def new_queue_facts id_fits_def ex_ifaces_def)

end
