(* ===== verification/Node.thy ===== *)
theory Node
  imports Kiss_Node Init
begin

text \<open>
  The running node as a state machine. A step is one operation of the library: a call of the application, a round
  of the router, a driver or the KISS receiver at work, the clock. A state is the state of the library
  with the multiset of the packet references that the application and the drivers hold. Whatever the order of
  the steps, every state that a node reaches from its start-up satisfies the invariant. Calls that only combine
  these operations (transactions, the services, fragmented transfers) are paths of steps. Between two steps a serial
  line is between two frames; \<open>Kiss_Node\<close> covers a line that stops in the middle of one.
\<close>

section \<open>Operations without a lemma of their own\<close>

lemma sys_get_any:
  assumes s: "sys_ok X w" and g: "csp_buffer_get_actual r isr w = (Some p, w')"
  shows "sys_ok (add_mset p X) w'"
proof -
  have b: "bufs_inv (X + held w) w" using s by (simp add: sys_ok_def own_inv_def)
  note h = get_actual_held [OF g]
  have "own_inv (add_mset p X) w'"
    using get_actual_Some [OF b g] s h by (auto simp: sys_ok_def own_inv_def)
  moreover have "net_ok w'" using net_ok_kept [of "{}" w w'] s h(3) by (simp add: sys_ok_def kept_def)
  ultimately show ?thesis by (simp add: sys_ok_def)
qed

lemma sys_clone:
  assumes s: "sys_ok X w" and p: "p \<in># X" and c: "csp_buffer_clone (Some p) w = (Some q, w')"
  shows "sys_ok (add_mset q X) w'"
  using own_clone [OF sys_ok_own [OF s] p c] net_ok_kept [OF own_clone(2) [OF sys_ok_own [OF s] p c]] s
  by (simp add: sys_ok_def)

lemma sys_qfifo_write:
  assumes "sys_ok (add_mset p X) w"
  shows "sys_ok X (csp_qfifo_write (Some p) i isr w)"
  using own_qfifo_write(1) [OF sys_ok_own [OF assms], where i = i and isr = isr] assms
    net_ok_kept [OF own_qfifo_write(2) [OF sys_ok_own [OF assms], where i = i and isr = isr and B = "{}"]]
  by (simp add: sys_ok_def)

text \<open>What changes nothing but tables that hold no references.\<close>

lemma own_inv_tables:
  "own_inv X (w\<lparr>ports := ps\<rparr>) = own_inv X w" "own_inv X (w\<lparr>interfaces := is\<rparr>) = own_inv X w"
  "own_inv X (w\<lparr>csp_promisc_enabled := b\<rparr>) = own_inv X w"
  by (simp_all add: own_inv_def held_def qf_refs_def qf_items_def pm_refs_def queues_ok_def qf_ok_def qf_entries_ok_def
      bufs_inv_def free_list_def pkt_def)

lemma sys_ports: "sys_ok X w \<Longrightarrow> ports_ok (w\<lparr>ports := ps\<rparr>) \<Longrightarrow> sys_ok X (w\<lparr>ports := ps\<rparr>)"
  by (simp add: sys_ok_def own_inv_tables net_ok_def routes_ok_def dedup_ok_def conns_ok_def conn_ok_def socks_ok_def conn_less_def)

lemma sys_interfaces: "sys_ok X w \<Longrightarrow> distinct is \<Longrightarrow> sys_ok X (w\<lparr>interfaces := is\<rparr>)"
  by (simp add: sys_ok_def own_inv_tables net_ok_def ports_ok_def routes_ok_def dedup_ok_def conns_ok_def conn_ok_def socks_ok_def conn_less_def)

lemma sys_promisc_enabled: "sys_ok X w \<Longrightarrow> sys_ok X (w\<lparr>csp_promisc_enabled := b\<rparr>)"
  by (simp add: sys_ok_def own_inv_tables net_ok_def ports_ok_def routes_ok_def dedup_ok_def conns_ok_def conn_ok_def socks_ok_def conn_less_def)

lemma sys_promisc_disable: "sys_ok X w \<Longrightarrow> sys_ok X (csp_promisc_disable w)"
  by (simp add: csp_promisc_disable_def sys_promisc_enabled)

lemma sys_set_iface: "sys_ok X w \<Longrightarrow> sys_ok X (set_iface i f w)"
  by (simp add: sys_ok_def)

lemma sys_bind:
  assumes s: "sys_ok X w" and b: "\<And>s. b = PORT_OPEN s \<Longrightarrow> s < n_sockets w" and r: "bind_result b used port w = (r, w')"
  shows "sys_ok X w'"
proof -
  have e: "sys_ok X (set_errno x w)" for x using s by (simp add: sys_ok_def)
  have "sys_ok X (w\<lparr>ports := (ports w)[n := b]\<rparr>)" if "n < CSP_PORT_MAX_BIND + 2" for n
    using s b that by (intro sys_ports) (auto simp: sys_ok_def net_ok_def ports_ok_def nth_list_update)
  then show ?thesis using r e bind_entry_less by (auto simp: bind_result_def split: option.splits if_splits)
qed

lemma sys_listen:
  assumes s: "sys_ok X w" and n: "sk < n_sockets w" and q: "rx_queue (sockets w sk) = None" and l: "length storage = CSP_CONN_RXQUEUE_LEN"
  shows "sys_ok X (snd (csp_listen storage q sk backlog w))"
proof -
  let ?h = "csp_queue_create_static CSP_CONN_RXQUEUE_LEN ptr_size (Some storage) (Some q)"
  have h: "qh_ok ?h" "qh_items ?h = []" using qh_create [of 4 ptr_size storage q] l by (simp_all add: ptr_size_def)
  have "own_inv X (set_socket sk ((sockets w sk)\<lparr>rx_queue := ?h\<rparr>) w)"
    using h q by (intro own_socket_move [OF sys_ok_own [OF s] n]) (simp_all add: qh_items_def)
  moreover have "net_ok (set_socket sk ((sockets w sk)\<lparr>rx_queue := ?h\<rparr>) w)"
    using s h by (intro net_ok_set_socket) (simp_all add: sys_ok_def)
  ultimately show ?thesis by (simp add: csp_listen_def sys_ok_def)
qed

lemma sys_iflist_add:
  assumes "sys_ok X w"
  shows "sys_ok X (csp_iflist_add i w)"
proof (cases i)
  case None
  then show ?thesis using assms by (simp add: csp_iflist_add_def)
next
  case (Some j)
  let ?l = "cut_after j (interfaces w)"
  have d: "distinct ?l" using assms by (simp add: sys_ok_def net_ok_def distinct_cut_after)
  have "sys_ok X (w\<lparr>interfaces := ?l\<rparr>)" "sys_ok X (w\<lparr>interfaces := [j]\<rparr>)" by (rule sys_interfaces [OF assms], simp add: d)+
  moreover have "sys_ok X (w\<lparr>interfaces := ?l @ [j]\<rparr>)" if "j \<notin> set ?l"
    using that d by (intro sys_interfaces [OF assms]) simp
  ultimately show ?thesis using assms Some by (simp add: csp_iflist_add_def Let_def) blast
qed

lemma sys_iflist_remove: "sys_ok X w \<Longrightarrow> sys_ok X (csp_iflist_remove i w)"
  using sys_interfaces [of X w] by (cases i) (auto simp: csp_iflist_remove_def sys_ok_def net_ok_def)

lemma sys_rtable_clear: "sys_ok X w \<Longrightarrow> sys_ok X (csp_rtable_clear w)"
  by (simp add: csp_rtable_clear_def csp_rtable_free_def sys_ok_def own_inv_rtable net_ok_rtable routes_ok_def)

lemma sys_promisc_queue:
  assumes "sys_ok X w" and "qh_ok q" and "X + mset (qh_items (csp_promisc_queue w)) = Y + mset (qh_items q)"
  shows "sys_ok Y (w\<lparr>csp_promisc_queue := q\<rparr>)"
  using own_promisc_move [OF sys_ok_own [OF assms(1)] assms(2,3)] assms(1) by (simp add: sys_ok_def frame_simps)

lemma sys_promisc_enable:
  assumes s: "sys_ok X w" and l: "length storage = CSP_CONN_RXQUEUE_LEN"
  shows "sys_ok X (snd (csp_promisc_enable storage q n w))"
proof (cases "csp_promisc_queue w")
  case None
  let ?h = "csp_queue_create_static CSP_CONN_RXQUEUE_LEN ptr_size (Some storage) (Some q)"
  have h: "qh_ok ?h" "qh_items ?h = []" using qh_create [of 4 ptr_size storage q] l by (simp_all add: ptr_size_def)
  have "sys_ok X (w\<lparr>csp_promisc_queue := ?h\<rparr>)"
    using None h by (intro sys_promisc_queue [OF s]) (simp_all add: qh_items_def)
  from this sys_promisc_enabled [OF this, of True] show ?thesis
    using None by (cases ?h) (simp_all add: csp_promisc_enable_def Let_def)
next
  case (Some _)
  then show ?thesis using sys_promisc_enabled [OF s] by (simp add: csp_promisc_enable_def)
qed

lemma sys_promisc_read:
  assumes s: "sys_ok X w" and r: "csp_promisc_read t w = (x, w')"
  shows "sys_ok (case x of None \<Rightarrow> X | Some p \<Rightarrow> add_mset p X) w'"
proof (cases "csp_promisc_queue w = None")
  case True
  then show ?thesis using r s by (auto simp: csp_promisc_read_def)
next
  case False
  obtain q where d: "csp_queue_dequeue (csp_promisc_queue w) t = (x, q)" and w': "w' = w\<lparr>csp_promisc_queue := q\<rparr>"
    using r False by (auto simp: csp_promisc_read_def split: prod.splits)
  have "qh_ok (csp_promisc_queue w)" using s by (simp add: sys_ok_def own_inv_def queues_ok_def)
  note D = dequeue_mset [OF this d]
  show ?thesis unfolding w' by (rule sys_promisc_queue [OF s]) (use D in \<open>auto split: option.splits\<close>)
qed

lemma length_close_first [simp]: "length (close_first s ps) = length ps"
  by (induction ps) auto

lemma close_drain_ok:
  "sys_ok X w \<Longrightarrow> s < n_sockets w \<Longrightarrow> close_drain s w = Some w' \<Longrightarrow> sys_ok X w'"
proof (induction s w rule: close_drain.induct)
  case (1 s w)
  obtain x q where d: "csp_queue_dequeue (rx_queue (sockets w s)) 0 = (x, q)" by fastforce
  note D = socket_dequeue_ok(1) [OF 1(2,3) d]
  show ?case
  proof (cases x)
    case None
    then show ?thesis using D d 1(4) by (simp add: close_drain.simps)
  next
    case (Some it)
    then obtain p where p: "it = RxPacket p" using d 1(4) by (cases it) (simp_all add: close_drain.simps)
    let ?w = "csp_buffer_free (Some p) (set_socket s ((sockets w s)\<lparr>rx_queue := q\<rparr>) w)"
    have "sys_ok X ?w" using D Some p by (intro sys_free) simp
    moreover have "s < n_sockets ?w" using 1(3) by (subst csp_buffer_free_more) (simp add: set_socket_def)
    moreover have "close_drain s ?w = Some w'" using d Some p 1(4) by (simp add: close_drain.simps [of s w])
    ultimately show ?thesis using 1(1) [OF d [symmetric, unfolded Some p]] by simp
  qed
qed

lemma sys_socket_close:
  assumes s: "sys_ok X w" and n: "sk < n_sockets w" and c: "csp_socket_close (Some sk) w = Some (r, w')"
  shows "sys_ok X w'"
proof -
  let ?v = "w\<lparr>ports := close_first sk (ports w)\<rparr>"
  have "ports_ok ?v"
    using s by (auto simp: sys_ok_def net_ok_def ports_ok_def nth_close_first split: if_splits)
  then have v: "sys_ok X ?v" by (rule sys_ports [OF s])
  have "close_drain sk ?v = Some u \<Longrightarrow> sys_ok X u" for u
    using close_drain_ok [OF v, of sk u] n by simp
  then show ?thesis using v c by (auto simp: csp_socket_close_def Let_def split: if_splits option.splits)
qed

section \<open>Steps\<close>

type_synonym 'a held_state = "nat multiset \<times> 'a csp_cn_scheme"

inductive node_step :: "('a) driver \<Rightarrow> ('a) callbacks \<Rightarrow> ('a) held_state \<Rightarrow> ('a) held_state \<Rightarrow> bool"
  for drv :: "('a) driver" and cb :: "('a) callbacks" where
  tick: "node_step drv cb (X, w) (X, later d w)"
| round: "csp_route_work drv cb w = Some (r, w') \<Longrightarrow> (\<And>p v. route_step drv w = Some (Call CbService p v) \<Longrightarrow> route_fits p v) \<Longrightarrow>
    node_step drv cb (X, w) (X, w')"
| take: "csp_buffer_get w = (Some p, w') \<Longrightarrow> node_step drv cb (X, w) (add_mset p X, w')"
| take_isr: "csp_buffer_get_always_isr w = Some (p, w') \<Longrightarrow> node_step drv cb (X, w) (add_mset p X, w')"
| fill: "p \<in># X \<Longrightarrow> packet_ok k \<Longrightarrow> node_step drv cb (X, w) (X, set_pkt p k w)"
| clone: "p \<in># X \<Longrightarrow> csp_buffer_clone (Some p) w = (Some q, w') \<Longrightarrow> node_step drv cb (X, w) (add_mset q X, w')"
| give_back: "node_step drv cb (add_mset p X, w) (X, csp_buffer_free (Some p) w)"
| driver_rx: "node_step drv cb (add_mset p X, w) (X, csp_qfifo_write (Some p) i isr w)"
| serial_rx: "interface_data (ifaces w i) = Some d \<Longrightarrow> rx_idle d w \<Longrightarrow> csp_kiss_rx i bytes isr w = Inr w' \<Longrightarrow> rx_idle d w' \<Longrightarrow>
    node_step drv cb (X, w) (X, w')"
| connect: "csp_connect prio dest dp t opts w = (x, w') \<Longrightarrow> node_step drv cb (X, w) (X, w')"
| close: "c < CSP_CONN_MAX \<Longrightarrow> node_step drv cb (X, w) (X, snd (csp_close (Some c) w))"
| send: "csp_send drv conn (Some p) w = Some w' \<Longrightarrow> node_step drv cb (add_mset p X, w) (X, w')"
| sendto: "csp_sendto drv prio dest dp sp opts p w = Some w' \<Longrightarrow> node_step drv cb (add_mset p X, w) (X, w')"
| reply: "csp_sendto_reply drv (Some q) p opts w = Some w' \<Longrightarrow> node_step drv cb (add_mset p X, w) (X, w')"
| read: "c < CSP_CONN_MAX \<Longrightarrow> csp_read (Some c) t w = (x, w') \<Longrightarrow>
    node_step drv cb (X, w) (case x of None \<Rightarrow> X | Some p \<Rightarrow> add_mset p X, w')"
| accept: "s < n_sockets w \<Longrightarrow> \<not> conn_less w s \<Longrightarrow> csp_accept (Some s) t w = Some (x, w') \<Longrightarrow> node_step drv cb (X, w) (X, w')"
| recvfrom: "s < n_sockets w \<Longrightarrow> csp_recvfrom (Some s) t w = Some (x, w') \<Longrightarrow>
    node_step drv cb (X, w) (case x of None \<Rightarrow> X | Some p \<Rightarrow> add_mset p X, w')"
| bind: "s < n_sockets w \<Longrightarrow> csp_bind (Some s) port w = (r, w') \<Longrightarrow> node_step drv cb (X, w) (X, w')"
| bind_cb: "csp_bind_callback (Some f) port w = (r, w') \<Longrightarrow> node_step drv cb (X, w) (X, w')"
| listen: "s < n_sockets w \<Longrightarrow> rx_queue (sockets w s) = None \<Longrightarrow> length storage = CSP_CONN_RXQUEUE_LEN \<Longrightarrow>
    node_step drv cb (X, w) (X, snd (csp_listen storage q s backlog w))"
| socket_close: "s < n_sockets w \<Longrightarrow> csp_socket_close (Some s) w = Some (r, w') \<Longrightarrow> node_step drv cb (X, w) (X, w')"
| set_route: "csp_rtable_set a m (Some i) via w = Some (r, w') \<Longrightarrow> node_step drv cb (X, w) (X, w')"
| clear_routes: "node_step drv cb (X, w) (X, csp_rtable_clear w)"
| add_iface: "node_step drv cb (X, w) (X, csp_iflist_add i w)"
| remove_iface: "node_step drv cb (X, w) (X, csp_iflist_remove i w)"
| configure: "node_step drv cb (X, w) (X, set_iface i f w)"
| promisc_on: "length store = CSP_CONN_RXQUEUE_LEN \<Longrightarrow> node_step drv cb (X, w) (X, snd (csp_promisc_enable store q n w))"
| promisc_off: "node_step drv cb (X, w) (X, csp_promisc_disable w)"
| promisc_read: "csp_promisc_read t w = (x, w') \<Longrightarrow>
    node_step drv cb (X, w) (case x of None \<Rightarrow> X | Some p \<Rightarrow> add_mset p X, w')"

lemma set_route_ok:
  assumes "sys_ok X w" and "csp_rtable_set a m (Some i) via w = Some (r, w')"
  shows "sys_ok X w'"
  using rtable_set_cases [OF assms(1), of a m i via] assms(2) by auto

lemma serial_rx_ok:
  assumes "sys_ok X w" and "interface_data (ifaces w i) = Some d" and "rx_idle d w" and "csp_kiss_rx i bytes isr w = Inr w'" and "rx_idle d w'"
  shows "sys_ok X w'"
  using kiss_rx_node(1) [of X d w i bytes isr w'] assms receiving_idle by blast

context service_node
begin

lemma node_step_ok:
  assumes "node_step drv (node_callbacks drv h app) (X, w) (X', w')" and s: "sys_ok X w"
  shows "sys_ok X' w'"
  using assms(1)
proof (cases rule: node_step.cases)
  case (round r)
  then show ?thesis using router_serves [OF s] by auto
next
  case (take p)
  then show ?thesis using sys_get(1) [OF s] by fastforce
next
  case (take_isr p)
  then show ?thesis using sys_get_any [OF s, of 0 True p] by (auto simp: csp_buffer_get_always_isr_def split: prod.splits option.splits)
next
  case (send conn p)
  then show ?thesis using send_ok [OF transmitter_axioms, of p X' w conn] s by auto
next
  case (sendto prio dest dp sp opts p)
  then show ?thesis using sendto_ok [OF transmitter_axioms, of p X' w prio dest dp sp opts] s by auto
next
  case (reply q p opts)
  then show ?thesis using sendto_reply_ok [OF transmitter_axioms, of p X' w q opts] s by auto
next
  case (accept sk t x)
  then show ?thesis using accept_ok [OF s, of sk t] by auto
next
  case (recvfrom sk t x)
  then show ?thesis using recvfrom_ok [OF s, of sk t] by auto
next
  case (bind sk port r)
  then show ?thesis using sys_bind [OF s, of "PORT_OPEN sk"] by (simp add: csp_bind_result)
next
  case (bind_cb f port r)
  then show ?thesis using sys_bind [OF s, of "PORT_OPEN_CB f"] by (simp add: csp_bind_result)
qed (use s in \<open>auto intro: sys_set_pkt sys_free sys_clone sys_qfifo_write serial_rx_ok connect_ok(1) close_ok Api_Own.read_ok
      sys_listen sys_socket_close set_route_ok sys_rtable_clear sys_iflist_add sys_iflist_remove sys_set_iface
      sys_promisc_enable sys_promisc_disable sys_promisc_read\<close>)

end

section \<open>Reachable states\<close>

definition node_reaches :: "('a) driver \<Rightarrow> ('a) callbacks \<Rightarrow> ('a) csp_cn_scheme \<Rightarrow> ('a) held_state \<Rightarrow> bool" where
  "node_reaches drv cb w0 s \<longleftrightarrow> (node_step drv cb)\<^sup>*\<^sup>* ({#}, w0) s"

lemma reaches_start: "node_reaches drv cb w0 ({#}, w0)"
  by (simp add: node_reaches_def)

lemma reaches_step: "node_reaches drv cb w0 s \<Longrightarrow> node_step drv cb s t \<Longrightarrow> node_reaches drv cb w0 t"
  by (simp add: node_reaches_def)

context service_node
begin

lemma node_reaches_ok:
  assumes "node_reaches drv (node_callbacks drv h app) w0 s" and "sys_ok {#} w0"
  shows "sys_ok (fst s) (snd s)"
  using assms(1) unfolding node_reaches_def
proof (induction rule: rtranclp_induct)
  case base
  then show ?case using assms(2) by simp
next
  case (step s t)
  then show ?case using node_step_ok [of "fst s" "snd s" "fst t" "snd t"] by simp
qed

text \<open>In a reachable state what the next operation needs is there, and the buffers are accounted for.\<close>

lemma node_reaches_facts:
  assumes "node_reaches drv (node_callbacks drv h app) w0 (X, w)" and "sys_ok {#} w0"
  shows "sys_ok X w" and "csp_buffer_remaining w + card (set_mset (X + held w)) = CSP_BUFFER_COUNT"
    and "b < CSP_BUFFER_COUNT \<Longrightarrow> unat (refcount (pool w b)) = Multiset.count (X + held w) b"
    and "p \<in># X \<Longrightarrow> \<exists>w'. csp_send drv conn (Some p) w = Some w' \<and> node_step drv (node_callbacks drv h app) (X, w) (X - {#p#}, w')"
proof -
  show s: "sys_ok X w" using node_reaches_ok [OF assms] by simp
  show "csp_buffer_remaining w + card (set_mset (X + held w)) = CSP_BUFFER_COUNT" by (rule remaining_count [OF sys_ok_own [OF s]])
  have "bufs_inv (X + held w) w" using s by (simp add: sys_ok_def own_inv_def)
  from bufs_invD(6) [OF this, of b] show "unat (refcount (pool w b)) = Multiset.count (X + held w) b" if "b < CSP_BUFFER_COUNT"
    using that by simp
  assume "p \<in># X"
  then obtain Y where Y: "X = add_mset p Y" by (meson mset_add)
  obtain w' where "csp_send drv conn (Some p) w = Some w'" using send_ok [OF transmitter_axioms, of p Y w conn] s Y by auto
  then show "\<exists>w'. csp_send drv conn (Some p) w = Some w' \<and> node_step drv (node_callbacks drv h app) (X, w) (X - {#p#}, w')"
    using node_step.send [of drv conn p w w' _ Y] Y by auto
qed

end

section \<open>Properties\<close>



end
