(* ===== verification/Corner_Cases.thy ===== *)
theory Corner_Cases
  imports Journey
begin

text \<open>
  What the code does where it does not do what it means to: each lemma exhibits one case, as the theorems
  about the well-behaved cases exclude it by a hypothesis or absorb it in a state.
\<close>

section \<open>Sockets and connections\<close>

text \<open>Closing a socket that has accepted no connection yet frees a connection as if it were a packet.\<close>

lemma close_with_connection:
  assumes "qh_ok (rx_queue (sockets w s))" and "qh_items (rx_queue (sockets w s)) = RxConn c # q"
  shows "csp_socket_close (Some s) w = None"
proof -
  have "rx_queue (sockets w s) \<noteq> None" using assms(2) by (auto simp: qh_items_def split: option.splits)
  moreover obtain h where "csp_queue_dequeue (rx_queue (sockets w s)) 0 = (Some (RxConn c), h)"
    using qh_recv_Cons [OF assms, of 0] by (metis prod.collapse)
  ultimately show ?thesis by (simp add: csp_socket_close_def Let_def close_drain.simps)
qed

text \<open>A packet for a full connection is counted twice.\<close>

lemma overflow_counted_twice:
  assumes "length (qh_items (c_rx_queue (conns w c))) = qh_cap (c_rx_queue (conns w c))"
  shows "dbg_conn_ovf (snd (deliver_conn c p w)) = dbg_conn_ovf w + 2"
proof -
  have "CSP_QUEUE_ERROR \<noteq> CSP_QUEUE_OK" by (simp add: CSP_QUEUE_ERROR_def CSP_QUEUE_OK_def)
  moreover have "dbg_conn_ovf (csp_buffer_free x v) = dbg_conn_ovf v" for x and v :: "('a) csp_cn_scheme"
    by (subst csp_buffer_free_more) simp
  ultimately show ?thesis
    using qh_send_full [OF assms, of p 0] by (simp add: deliver_conn_def csp_conn_enqueue_packet_def Let_def set_conn_def)
qed

section \<open>Sending\<close>

text \<open>
  Of two interfaces of the same subnet loop, once the first one has rewritten the broadcast address the second
  one sends to it, whether the address is a broadcast address there or not.
\<close>

lemma broadcast_sticks:
  assumes "csp_id_is_broadcast (version (csp_conf w)) (dst (id_at ref w)) (ifaces w i)" and "csp_conf w' = csp_conf w"
  shows "dst (local_id ref fm j (local_id ref fm i idl w) w') = csp_id_get_max_nodeid (version (csp_conf w))"
  using assms by (auto simp: local_id_def Let_def)

text \<open>The source address of the first interface of a route stays in the connection.\<close>

lemma source_sticks:
  assumes "src (id_at (IdOut c) w) = 0" and "addr (ifaces w i) \<noteq> 0"
  shows "src (id_at (IdOut c) (claim_src (IdOut c) True j (claim_src (IdOut c) True i w))) = addr (ifaces w i)"
  using assms by (simp add: claim_src_def set_conn_def)

text \<open>
  A packet that leaves no room for its checksum is dropped when it is sent. Every full fragment of a
  transfer with \<open>mtu\<close> 248 over a connection with checksums is such a packet.
\<close>

lemma full_packet_dropped:
  assumes "flags (id_at ref w) AND CSP_FHMAC = 0" and "flags (id_at ref w) AND CSP_FCRC32 \<noteq> 0"
    and "ref \<noteq> IdOfPacket p" and "CSP_BUFFER_SIZE < unat (p_length (pkt w p)) + 4"
  shows "csp_send_direct_iface drv ref p i via True w = Some (tx_err p i (set_pkt p ((pkt w p)\<lparr>p_id := id_at ref w\<rparr>) w))"
proof -
  let ?k = "(pkt w p)\<lparr>p_id := id_at ref w\<rparr>" and ?w = "set_pkt p ((pkt w p)\<lparr>p_id := id_at ref w\<rparr>) w"
  obtain e where e: "csp_crc32_append ?k = (e, ?k)" "e \<noteq> CSP_ERR_NONE" using assms(4) by (simp add: csp_crc32_append_def Let_def)
  have "id_at ref ?w = id_at ref w" using assms(3) by (cases ref) (auto simp: set_pkt_def pkt_def)
  then have "secure_tx ref p i ?w = Some (False, set_pkt p ?k ?w)"
    using assms(1,2) e by (simp add: secure_tx_def append_hmac_def append_crc_def)
  moreover have "set_pkt p ?k ?w = ?w" by (simp add: set_pkt_def)
  ultimately show ?thesis using assms(3) by (simp add: csp_send_direct_iface_def csp_output_hook_def Let_def)
qed

lemma full_fragment: "unat (248 :: u16) + 8 \<le> CSP_BUFFER_SIZE" "CSP_BUFFER_SIZE < unat (248 :: u16) + 8 + 4"
  by simp_all

text \<open>The KISS transmitter sends such a packet without its checksum, and reports success.\<close>

lemma kiss_without_checksum:
  assumes "packet_ok (pkt w p)" and "CSP_BUFFER_SIZE < unat (p_length (pkt w p)) + 4" and "csp_kiss_tx i via p fm w = (r, w')"
  shows "r = CSP_ERR_NONE" and "line_out w' (driver_data (ifaces w i)) = line_out w (driver_data (ifaces w i)) @
     kiss_line (id_bytes (version (csp_conf w)) (p_id (pkt w p)) @ payload (pkt w p))"
  using csp_kiss_tx_line [OF assms(1,3)] assms(2) by (simp_all add: sent_frame_def)

section \<open>Buffers\<close>

text \<open>The copy of a packet points into the packet it was copied from.\<close>

lemma copy_points_back:
  assumes "frame_begin (pkt w s) = Own off" and "s \<noteq> d"
  shows "frame_begin (pkt (csp_buffer_copy (Some s) (Some d) w) d) = Alias s off"
  using assms by (simp add: csp_buffer_copy_def relocate_def set_pkt_def pkt_def)

section \<open>Services\<close>

text \<open>When the hook for the process list returns nothing the reply is sent in a buffer that is free.\<close>

lemma empty_list_reply_freed:
  assumes s: "sys_ok (add_mset p X) w" and p: "p \<notin># X + held w" and port: "dport (p_id (pkt w p)) = CSP_PS"
    and hook: "csp_ps_hook h (pkt w p) = (0, k)" and k: "length (area k) = AREA_SIZE"
  shows "\<exists>w'. csp_service_handler drv h p w = csp_sendto_reply drv (Some p) p CSP_O_SAME w' \<and> p \<in> set (free_list w')"
proof -
  let ?v = "set_pkt p (k\<lparr>p_length := 0\<rparr>) w"
  have "packet_ok (k\<lparr>p_length := 0\<rparr>)" using k by (simp add: packet_ok_def)
  then have sv: "sys_ok (add_mset p X) ?v" by (rule sys_set_pkt [OF s])
  let ?w = "csp_buffer_free (Some p) ?v"
  have "bufs_inv (X + held ?w) ?w" using sys_free [OF sv] by (simp add: sys_ok_def own_inv_def)
  moreover have "bufs_inv (add_mset p X + held w) w" using s by (simp add: sys_ok_def own_inv_def)
  moreover have "held ?w = held w" by (simp add: held_free held_set_pkt)
  ultimately have "p \<in> set (free_list ?w)" using p bufs_invD(4,7) by fastforce
  moreover have "csp_service_handler drv h p w = csp_sendto_reply drv (Some p) p CSP_O_SAME ?w"
    using port hook by (simp add: csp_service_handler_def Let_def)
  ultimately show ?thesis by blast
qed

text \<open>The management handler reads the code of a request that is too short to have one from what the buffer held before.\<close>

lemma short_request_reads_rest:
  assumes "length (area k) = AREA_SIZE"
  shows "payload (data_put 1 [x] (k\<lparr>p_length := 0\<rparr>)) = []" and "cmp_code (data_put 1 [x] (k\<lparr>p_length := 0\<rparr>)) = x"
proof -
  have "packet_ok (k\<lparr>p_length := 0\<rparr>)" using assms by (simp add: packet_ok_def)
  from data_get_put_same [OF this, of 1 "[x]"] show "cmp_code (data_put 1 [x] (k\<lparr>p_length := 0\<rparr>)) = x"
    by (simp add: cmp_code_def)
  show "payload (data_put 1 [x] (k\<lparr>p_length := 0\<rparr>)) = []" by (simp add: payload_def data_put_def mem_read_def)
qed

text \<open>A ping that takes between 32768 and 65534 milliseconds reports a negative time, one of 65535 the error.\<close>

lemma sint_high:
  assumes "2 ^ 15 \<le> unat (d :: u32)" and "unat d < 2 ^ 16"
  shows "sint (ucast d :: u16) = int (unat d) - 2 ^ 16"
proof -
  let ?x = "ucast d :: u16"
  have e: "unat ?x = unat d" using assms(2) by (simp add: unsigned_ucast_eq take_bit_eq_mod)
  have "unat d div 2 ^ 15 = 1" using assms by (intro div_nat_eqI) simp_all
  then have "bit (unat ?x) 15" by (simp add: bit_iff_odd e)
  then have b: "bit (uint ?x) 15" by (simp add: bit_unsigned_iff)
  have u: "uint ?x = int (unat d)" by (simp only: uint_nat e)
  moreover have "int (unat d) < int (2 ^ 16)" using assms(2) by (simp only: of_nat_less_iff)
  ultimately have "take_bit 16 (uint ?x) = uint ?x" by (simp add: take_bit_int_eq_self_iff)
  then show ?thesis using b u by (simp add: sint_uint signed_take_bit_eq_take_bit_minus)
qed

lemma ping_time_wraps:
  assumes "ms_from_boot w = start + d" and "2 ^ 15 \<le> unat d" and "unat d < 2 ^ 16"
  shows "fst (ping_out c start True packet w) = int (unat d) - 2 ^ 16"
proof -
  have "ms_from_boot (snd (csp_close (Some c) (csp_buffer_free packet w))) = start + d"
    using assms(1) by (simp add: close_facts frame_simps)
  moreover have "sint (ucast d :: u16) = int (unat d) - 2 ^ 16" using assms(2,3) by (rule sint_high)
  ultimately show ?thesis by (simp add: ping_out_def Let_def csp_get_ms_def)
qed

end
