(* ===== verification/Spec2Isabelle.thy ===== *)
theory Spec2Isabelle
  imports Csp_Addr Crc32 Dedup Hmac Port Send_Own Bridge Sfp_Link Init Usart Tables Loopback Serial Node Corner_Cases
begin

text \<open>
  A verification library for libcsp, the Cubesat Space Protocol, in its port to the MSP430. Paths below are
  relative to the repository: \<open>src/\<close> holds the C files and \<open>include/csp/\<close> the headers.

  \<^bold>\<open>The program.\<close> A node has interfaces (loopback, KISS over a serial line, drivers outside the repository), a
  pool of eight packet buffers, one queue of received packets, a routing table, connections, sockets and ports.
  Receivers put packets into the router's queue; \<open>csp_route_work\<close> takes one packet at a time and forwards it,
  calls a port callback, or hands it to a socket or connection; applications send through connections or
  without one; a sent packet is copied to every interface it must leave through. On top are the service handler
  with the management protocol, the client calls for it, and the fragmentation protocol.

  \<^bold>\<open>The state.\<close> The static variables of the C files form one record that every component extends with its own:
  \<open>csp_sys\<close> (configuration, clock, debug counters), \<open>csp_bufs\<close> (\<open>csp_buffer.c\<close>), \<open>csp_ifs\<close> (\<open>csp_iflist.c\<close>),
  \<open>csp_rt\<close> (\<open>csp_rtable_cidr.c\<close>), \<open>csp_qf\<close> (\<open>csp_qfifo.c\<close>), \<open>csp_ks\<close> (\<open>csp_if_kiss.c\<close>), \<open>csp_dd\<close> (\<open>csp_dedup.c\<close>),
  \<open>csp_pm\<close> (\<open>csp_promisc.c\<close>), \<open>csp_cn\<close> (\<open>csp_conn.c\<close>, \<open>csp_port.c\<close>), \<open>csp_br\<close> (\<open>csp_bridge.c\<close>). An operation is a
  function on an extensible record, so a lower component is used unchanged by the higher ones. Pointers to
  buffers, interfaces, connections and sockets are indices, NULL is \<open>None\<close>. A packet's header room and data are
  one byte list, so that a write outside of it is seen. A function whose result is an outer \<open>option\<close> returns
  \<open>None\<close> for undefined behaviour (a NULL or wild pointer followed, a write out of bounds) and for a loop that does
  not end; the theorems show when neither happens.

  \<^bold>\<open>The theories,\<close> with the code they model:
    \<^item> \<open>Prelude\<close>: integer types, byte order, memory areas, lists; the lemma collections.
    \<^item> \<open>Mpmc_Queue\<close>: \<open>arch/baremetal/mpmp_queue.c\<close>, \<open>csp_queue.c\<close>. A ring buffer is a bounded FIFO.
    \<^item> \<open>Types\<close>: packets, identifiers, interfaces, error codes; the clock of \<open>arch/baremetal/csp_time.c\<close>.
    \<^item> \<open>Csp_Id\<close>, \<open>Csp_Addr\<close>: \<open>csp_id.c\<close>. Header round trips in both versions; broadcast addresses.
    \<^item> \<open>Crc32\<close>: \<open>csp_crc32.c\<close>. The table computes CRC-32C; append and verify; bursts are detected.
    \<^item> \<open>Sha1\<close>, \<open>Hmac\<close>: \<open>crypto/csp_sha1.c\<close>, \<open>crypto/csp_hmac.c\<close>. Streaming equals one pass; append and verify.
    \<^item> \<open>Buffer\<close>: \<open>csp_buffer.c\<close>. The pool as ownership of references, an inductive step relation of its clients.
    \<^item> \<open>Iflist\<close>, \<open>Rtable\<close>: \<open>csp_iflist.c\<close>, \<open>csp_rtable_cidr.c\<close>. Searches that resume; longest prefix match.
    \<^item> \<open>Qfifo\<close>: \<open>csp_qfifo.c\<close>, \<open>interfaces/csp_if_lo.c\<close>.
    \<^item> \<open>Kiss\<close>, \<open>Kiss_Link\<close>, \<open>Usart\<close>: \<open>interfaces/csp_if_kiss.c\<close>, \<open>drivers/usart/usart_kiss.c\<close>. The receiver as a
      machine fed byte by byte; what one end sends the other receives.
    \<^item> \<open>Dedup\<close>, \<open>Promisc\<close>: \<open>csp_dedup.c\<close>, \<open>csp_promisc.c\<close>.
    \<^item> \<open>Conn\<close>, \<open>Port\<close>: \<open>csp_conn.c\<close>, \<open>csp_port.c\<close>. \<open>Ownership\<close>, \<open>Conn_Own\<close>: which queue holds which reference.
    \<^item> \<open>Nexthop\<close>, \<open>Send\<close>, \<open>Send_Own\<close>: \<open>csp_send_direct\<close> of \<open>csp_io.c\<close>. Its three loops refine a routing decision.
    \<^item> \<open>Api\<close>, \<open>System_Inv\<close>, \<open>Api_Own\<close>: the rest of \<open>csp_io.c\<close>, and the invariant \<open>sys_ok\<close> of a node.
    \<^item> \<open>Init\<close>: \<open>csp_init.c\<close>. Start-up establishes the invariant.
    \<^item> \<open>Route\<close>, \<open>Route_Own\<close>, \<open>Delivery\<close>: \<open>csp_route.c\<close>. Every branch keeps the invariant; who gets which packet.
    \<^item> \<open>Bridge\<close>: \<open>csp_bridge.c\<close>.
    \<^item> \<open>Sfp\<close>, \<open>Sfp_Own\<close>, \<open>Sfp_Link\<close>: \<open>csp_sfp.c\<close>. The receiver ends and reassembles what the sender sends.
    \<^item> \<open>Service\<close>, \<open>Service_Own\<close>: \<open>csp_service_handler.c\<close>, \<open>csp_cmp.h\<close>, \<open>csp_hooks.h\<close>.
    \<^item> \<open>Services\<close>, \<open>Services_Own\<close>: \<open>csp_services.c\<close>.
    \<^item> \<open>Journey\<close>: what a packet meets on its way through a node, as lemmas for the end-to-end theories: a round of the
      router that calls a service or delivers, a fresh connection, the first and the last part of \<open>csp_ping\<close>.
    \<^item> \<open>Loopback\<close>: a node pings itself. \<open>Kiss_Node\<close>: the KISS receiver and transmitter inside a node; whatever arrives
      on the line keeps the node's invariant. \<open>Serial\<close>: two nodes that share only the bytes of a line ping each other.
    \<^item> \<open>Node\<close>: the running node as an inductive step relation over all operations; what holds in every reachable state.
    \<^item> \<open>Corner_Cases\<close>: where the code does not do what it means to, one lemma for each case.
    \<^item> \<open>Hex_Dump\<close>: \<open>csp_hex_dump.c\<close>. The lines it prints are the rows of sixteen bytes.
    \<^item> \<open>Tables\<close>: the printed tables of \<open>csp_rtable_cidr.c\<close>, \<open>csp_iflist.c\<close> and \<open>csp_conn.c\<close>; a printed route can be read back.

  \<^bold>\<open>The system invariant.\<close> \<open>sys_ok X w\<close> says that the references to buffers held by the library's queues together
  with the multiset \<open>X\<close>, held by whoever is running, are what the reference counters count, that the other buffers are
  the free queue, and that ports, sockets, connections, routes and the record of duplicates refer only to what
  exists. The rule for an operation reads: from \<open>sys_ok (add_mset p X) w\<close> it returns, and leaves \<open>sys_ok X w'\<close> when it
  takes the packet over. So no packet is lost and none is used after it was given away, on every branch.

  \<^bold>\<open>Interfaces.\<close> The contracts between components are locales, interpreted on the model where the code provides
  them: \<open>bounded_fifo\<close> (queues), \<open>buffer_pool\<close>, \<open>stepwise_search\<close> (resumed list searches), \<open>keyed_store\<close> (routing
  table), \<open>byte_machine\<close> (KISS receiver), \<open>transmitter\<close> (a \<open>nexthop\<close> function, met by loopback and KISS),
  \<open>port_callbacks\<close>, \<open>environment\<close> and \<open>draining\<close> (what runs between a send and a read; the router is one),
  \<open>service_hooks\<close> and \<open>service_node\<close>. Code outside the repository appears as a parameter under such a contract:
  drivers, hooks and callbacks of the application, \<open>malloc\<close> and the copy functions, the serial port.

  \<^bold>\<open>Bounds and loops.\<close> \<open>unsigned int\<close> has 16 bits and \<open>size_t\<close> is wider; words wrap as in C. The configuration is the
  one of \<open>autoconfig.h\<close>: eight buffers of 256 bytes, one connection, queues of 4 and 16, four routes, no RDP; the
  switches for HMAC and promiscuous mode are fields of the state, so the theorems hold for both settings. A loop over
  a structure is structural recursion or has a measure; the loops that may not end (\<open>csp_send_direct\<close>, fragment
  reception, the process list) are partial functions, proved to be defined. The duplicate search has the fuel 16, the number of its slots,
  and is proved not to use it up. Interrupts are disabled inside a queue operation, so that each is one step; \<open>env\<close>
  parameters stand for everything that runs in between.

  \<^bold>\<open>Not modelled.\<close> The output of \<open>csp_print_func\<close> itself (\<open>csp_debug.c\<close>): \<open>csp_print\<close> is the string it is given, or
  left out where it is only a message (bridge, \<open>csp_output_hook\<close>, weak hooks). \<open>autoconfig.h\<close> leaves \<open>CSP_ENABLE_CSP_PRINT\<close>
  and \<open>CSP_HAVE_STDIO\<close> unset, so what is printed is modelled as it is when they are set. The reliable protocol: \<open>CSP_USE_RDP\<close> is 0
  and its sources are not in the repository, only \<open>csp_rdp.h\<close> and \<open>csp_rdp_queue.h\<close>. The headers for CAN, Ethernet, YAML and
  semaphores declare functions that the repository does not contain. \<open>csp_timestamp_t\<close> appears as the pair of its fields.
\<close>

end
